(* ===== verification/Gras_Prelude.thy ===== *)
theory Gras_Prelude
  imports Main "HOL-Library.Multiset"
begin

text \<open>
  The shared layer of the development.

  Failure: a C++ exception, a failed \<open>ASSERT\<close> of lib/gras_impl/debug.hpp (which is
  compiled in, see \<open>#define ASSERTING\<close>) and undefined behaviour are values of
  \<open>exn\<close>; an operation returns \<open>exn + 'a\<close> and operations are sequenced with
  \<open>bindE\<close>. An exception that leaves a handler abandons the handler, so no state is
  returned with it.

  Machine integers: \<open>size_t\<close> and \<open>item_index_t\<close> are 64-bit unsigned and are kept
  as \<open>nat\<close> with the wrap-around written out (\<open>sz_add\<close>, \<open>sz_sub\<close>,
  \<open>sz_mul\<close>); \<open>long long\<close> and \<open>int\<close> are \<open>int\<close> with two's complement
  wrapping (\<open>wrap_s64\<close>, \<open>wrap_s32\<close>).

  Collections: \<open>exact_sz\<close> holds the rules that remove the wrap-around where the
  values fit, \<open>res_simps\<close> the rules that take an exception-valued computation apart.
\<close>

named_theorems exact_sz \<open>size_t operations on values that do not wrap\<close>
named_theorems res_simps \<open>decomposition of exception-valued computations\<close>

section \<open>Failure\<close>

datatype exn =
    Assert_Fail string       \<comment> \<open>the ASSERT macro: std::runtime_error "ASSERT FAIL ..."\<close>
  | Runtime_Error string     \<comment> \<open>std::runtime_error\<close>
  | Invalid_Argument string  \<comment> \<open>std::invalid_argument\<close>
  | Undefined string         \<comment> \<open>undefined behaviour: out-of-bounds access, null dereference\<close>

definition bindE :: "exn + 'a \<Rightarrow> ('a \<Rightarrow> exn + 'b) \<Rightarrow> exn + 'b" where
  "bindE m f = (case m of Inl e \<Rightarrow> Inl e | Inr x \<Rightarrow> f x)"

text \<open>\<open>ASSERT(x)\<close> of debug.hpp, followed by the rest of the function.\<close>

definition assertE :: "bool \<Rightarrow> string \<Rightarrow> exn + 'b \<Rightarrow> exn + 'b" where
  "assertE c msg k = (if c then k else Inl (Assert_Fail msg))"

lemma bindE_Inr [simp]: "bindE (Inr x) f = f x"
  by (simp add: bindE_def)

lemma bindE_Inl [simp]: "bindE (Inl e) f = Inl e"
  by (simp add: bindE_def)

lemma bindE_eq_Inr [res_simps]: "bindE m f = Inr y \<longleftrightarrow> (\<exists>x. m = Inr x \<and> f x = Inr y)"
  by (cases m) auto

lemma bindE_assoc: "bindE (bindE m f) g = bindE m (\<lambda>x. bindE (f x) g)"
  by (cases m) auto

lemma assertE_True [simp]: "c \<Longrightarrow> assertE c msg k = k"
  by (simp add: assertE_def)

lemma assertE_eq_Inr [res_simps]: "assertE c msg k = Inr y \<longleftrightarrow> c \<and> k = Inr y"
  by (simp add: assertE_def)

lemma assertE_False [simp]: "\<not> c \<Longrightarrow> assertE c msg k = Inl (Assert_Fail msg)"
  by (simp add: assertE_def)

lemma if_eq_Inr [res_simps]:
  "(if c then a else b) = Inr y \<longleftrightarrow> (c \<and> a = Inr y) \<or> (\<not> c \<and> b = Inr y)"
  by auto

text \<open>Running an operation for every index of a list, left to right, as the \<open>for\<close> loops do.\<close>

fun foldE :: "('i \<Rightarrow> 's \<Rightarrow> exn + 's) \<Rightarrow> 'i list \<Rightarrow> 's \<Rightarrow> exn + 's" where
  "foldE f [] s = Inr s"
| "foldE f (i # is) s = bindE (f i s) (foldE f is)"

lemma foldE_append: "foldE f (xs @ ys) s = bindE (foldE f xs s) (foldE f ys)"
proof (induction xs arbitrary: s)
  case (Cons x xs)
  show ?case by (cases "f x s") (simp_all add: Cons.IH)
qed simp

lemma foldE_invariant:
  assumes "\<And>i s s'. i \<in> set is \<Longrightarrow> P s \<Longrightarrow> f i s = Inr s' \<Longrightarrow> P s'"
    and "P s" and "foldE f is s = Inr s'"
  shows "P s'"
  using assms
proof (induction "is" arbitrary: s)
  case Nil
  then show ?case by simp
next
  case (Cons i js)
  from Cons.prems(3) obtain t where "f i s = Inr t" "foldE f js t = Inr s'"
    by (auto simp: res_simps)
  with Cons.prems Cons.IH [of t] show ?case by (metis list.set_intros)
qed

section \<open>Machine integers\<close>

definition size_mod :: nat where
  "size_mod = 2 ^ 64"

definition sz_add :: "nat \<Rightarrow> nat \<Rightarrow> nat" where
  "sz_add a b = (a + b) mod size_mod"

definition sz_sub :: "nat \<Rightarrow> nat \<Rightarrow> nat" where
  "sz_sub a b = (a + (size_mod - b mod size_mod)) mod size_mod"

definition sz_mul :: "nat \<Rightarrow> nat \<Rightarrow> nat" where
  "sz_mul a b = (a * b) mod size_mod"

text \<open>\<open>~0\<close> as a \<open>size_t\<close>.\<close>

definition size_max :: nat where
  "size_max = size_mod - 1"

lemmas sz_defs = sz_add_def sz_sub_def sz_mul_def size_mod_def size_max_def

lemma size_mod_pos [simp]: "0 < size_mod"
  by (simp add: size_mod_def)

lemma sz_lt [simp]: "sz_add a b < size_mod" "sz_sub a b < size_mod" "sz_mul a b < size_mod"
  by (simp_all add: sz_add_def sz_sub_def sz_mul_def)

lemma sz_add_exact [exact_sz]: "a + b < size_mod \<Longrightarrow> sz_add a b = a + b"
  by (simp add: sz_add_def)

lemma sz_mul_exact [exact_sz]: "a * b < size_mod \<Longrightarrow> sz_mul a b = a * b"
  by (simp add: sz_mul_def)

lemma sz_sub_exact [exact_sz]:
  assumes "b \<le> a" and "a < size_mod"
  shows "sz_sub a b = a - b"
proof -
  have "a + (size_mod - b) = (a - b) + size_mod" using assms by linarith
  then have "(a + (size_mod - b)) mod size_mod = (a - b) mod size_mod"
    by (simp only: mod_add_self2)
  with assms show ?thesis by (simp add: sz_sub_def)
qed

lemma sz_add_0 [simp]: "a < size_mod \<Longrightarrow> sz_add a 0 = a" "a < size_mod \<Longrightarrow> sz_add 0 a = a"
  by (simp_all add: sz_add_def)

lemma sz_sub_add: "a < size_mod \<Longrightarrow> sz_add (sz_sub a b) b = a"
proof -
  assume a: "a < size_mod"
  have "(a + (size_mod - b mod size_mod) + b) mod size_mod
      = (a + (size_mod - b mod size_mod) + b mod size_mod) mod size_mod"
    by (metis mod_add_right_eq)
  also have "a + (size_mod - b mod size_mod) + b mod size_mod = a + size_mod"
    using mod_less_divisor [OF size_mod_pos, of b] by linarith
  finally show ?thesis using a by (simp add: sz_add_def sz_sub_def mod_add_left_eq)
qed

lemma sz_add_assoc: "sz_add (sz_add a b) c = sz_add a (sz_add b c)"
  by (simp add: sz_add_def mod_add_left_eq mod_add_right_eq add.assoc)

lemma sz_add_commute: "sz_add a b = sz_add b a"
  by (simp add: sz_add_def add.commute)

text \<open>Conversion to a signed 64-bit or 32-bit integer, as gcc does it: two's complement.\<close>

definition wrap_s64 :: "int \<Rightarrow> int" where
  "wrap_s64 x = (x + 2 ^ 63) mod 2 ^ 64 - 2 ^ 63"

definition wrap_s32 :: "int \<Rightarrow> int" where
  "wrap_s32 x = (x + 2 ^ 31) mod 2 ^ 32 - 2 ^ 31"

text \<open>C++ integer division truncates toward zero.\<close>

definition c_quot :: "int \<Rightarrow> int \<Rightarrow> int" where
  "c_quot n d = (let q = \<bar>n\<bar> div \<bar>d\<bar> in if (n < 0) = (d < 0) then q else - q)"

lemma wrap_s64_id: "- (2 ^ 63) \<le> x \<Longrightarrow> x < 2 ^ 63 \<Longrightarrow> wrap_s64 x = x"
  by (simp add: wrap_s64_def)

lemma wrap_s32_id: "- (2 ^ 31) \<le> x \<Longrightarrow> x < 2 ^ 31 \<Longrightarrow> wrap_s32 x = x"
  by (simp add: wrap_s32_def)

lemma wrap_s64_range: "- (2 ^ 63) \<le> wrap_s64 x \<and> wrap_s64 x < 2 ^ 63"
  by (simp add: wrap_s64_def)

section \<open>Lists indexed like std::vector\<close>

text \<open>\<open>v.resize(n, x)\<close>: drop the tail or append copies of \<open>x\<close>.\<close>

definition resize :: "nat \<Rightarrow> 'a \<Rightarrow> 'a list \<Rightarrow> 'a list" where
  "resize n x v = take n v @ replicate (n - length v) x"

lemma length_resize [simp]: "length (resize n x v) = n"
  by (simp add: resize_def)

lemma resize_same [simp]: "resize (length v) x v = v"
  by (simp add: resize_def)

lemma nth_resize: "i < n \<Longrightarrow> resize n x v ! i = (if i < length v then v ! i else x)"
  by (auto simp: resize_def nth_append)

lemma set_resize: "set (resize n x v) \<subseteq> insert x (set v)"
  by (auto simp: resize_def dest: in_set_takeD)

lemma sum_list_update:
  "i < length xs \<Longrightarrow> sum_list (xs[i := (x::nat)]) + xs ! i = sum_list xs + x"
proof (induction xs arbitrary: i)
  case Nil
  then show ?case by simp
next
  case (Cons y ys)
  then show ?case by (cases i) auto
qed

lemma list_nth2_split:
  assumes "Suc j < length xs"
  shows "xs = take j xs @ xs ! j # xs ! Suc j # drop (Suc (Suc j)) xs"
proof -
  have "xs = take j xs @ drop j xs" by simp
  also have "drop j xs = xs ! j # xs ! Suc j # drop (Suc (Suc j)) xs"
    using assms by (simp add: Cons_nth_drop_Suc)
  finally show ?thesis .
qed

end
