(* ===== verification/SBuffer.thy ===== *)
theory SBuffer
  imports Gras_Prelude "HOL-Library.Word"
begin

text \<open>
  include/gras/sbuffer.hpp, include/gras/detail/sbuffer.hpp and lib/sbuffer.cpp: the
  reference-counted handle of a chunk of memory, the byte memory it points into, the
  default allocator and the release of the last reference.

  An \<open>SBuffer\<close> value is the identity of its \<open>SBufferImpl\<close> (0 is the null pointer),
  the fields of the impl's config that the scheduler reads, and its own \<open>offset\<close>,
  \<open>length\<close> and \<open>last\<close>. Addresses are \<open>nat\<close>, 0 is NULL; memory is a map from
  addresses to bytes.
\<close>

section \<open>Memory and the outside world\<close>

type_synonym byte = "8 word"
type_synonym memory = "nat \<Rightarrow> byte"

text \<open>
  What the operations read and change outside their own object: the memory, the heap
  (next free address, next fresh impl), the clock behind \<open>time_now()\<close> as the sequence of
  its readings with the number read so far, the set of impls that something outside the
  input queue holds a reference to, and the value found in an uninitialised pointer.
\<close>

record world =
  w_mem :: memory
  w_brk :: nat
  w_impl :: nat
  w_clock :: "nat \<Rightarrow> int"
  w_reads :: nat
  w_held :: "nat \<Rightarrow> bool"
  w_junk :: nat

definition bytes :: "memory \<Rightarrow> nat \<Rightarrow> nat \<Rightarrow> byte list" where
  "bytes m a n = map m [a..<a + n]"

definition memcpy :: "memory \<Rightarrow> nat \<Rightarrow> nat \<Rightarrow> nat \<Rightarrow> memory" where
  "memcpy m dst src n = (\<lambda>x. if dst \<le> x \<and> x < dst + n then m (src + (x - dst)) else m x)"

definition memset :: "memory \<Rightarrow> nat \<Rightarrow> byte \<Rightarrow> nat \<Rightarrow> memory" where
  "memset m dst v n = (\<lambda>x. if dst \<le> x \<and> x < dst + n then v else m x)"

text \<open>Two regions of memory that share no byte.\<close>

definition apart :: "nat \<Rightarrow> nat \<Rightarrow> nat \<Rightarrow> nat \<Rightarrow> bool" where
  "apart a n b k \<longleftrightarrow> n = 0 \<or> k = 0 \<or> a + n \<le> b \<or> b + k \<le> a"

lemma length_bytes [simp]: "length (bytes m a n) = n"
  by (simp add: bytes_def)

lemma bytes_0 [simp]: "bytes m a 0 = []"
  by (simp add: bytes_def)

lemma bytes_add: "bytes m a (n + k) = bytes m a n @ bytes m (a + n) k"
  using upt_add_eq_append [of a "a + n" k] by (simp add: bytes_def add.assoc)

lemma bytes_split: "k \<le> n \<Longrightarrow> bytes m a n = bytes m a k @ bytes m (a + k) (n - k)"
  using bytes_add [of m a k "n - k"] by simp

lemma drop_bytes: "k \<le> n \<Longrightarrow> drop k (bytes m a n) = bytes m (a + k) (n - k)"
  by (simp add: bytes_split [of k n])

lemma bytes_cong: "(\<And>x. a \<le> x \<Longrightarrow> x < a + n \<Longrightarrow> m x = m' x) \<Longrightarrow> bytes m a n = bytes m' a n"
  by (simp add: bytes_def)

lemma bytes_memcpy_same [simp]: "bytes (memcpy m d s n) d n = bytes m s n"
  by (rule nth_equalityI) (simp_all add: bytes_def memcpy_def)

lemma bytes_memcpy_apart: "apart a k d n \<Longrightarrow> bytes (memcpy m d s n) a k = bytes m a k"
  by (rule bytes_cong) (auto simp: apart_def memcpy_def)

lemma bytes_memset_same [simp]: "bytes (memset m d v n) d n = replicate n v"
  by (rule nth_equalityI) (simp_all add: bytes_def memset_def)

lemma bytes_memset_apart: "apart a k d n \<Longrightarrow> bytes (memset m d v n) a k = bytes m a k"
  by (rule bytes_cong) (auto simp: apart_def memset_def)

lemma apart_sub:
  "apart a n b k \<Longrightarrow> a \<le> a' \<Longrightarrow> a' + n' \<le> a + n \<Longrightarrow> b \<le> b' \<Longrightarrow> b' + k' \<le> b + k \<Longrightarrow> apart a' n' b' k'"
  by (auto simp: apart_def)

lemma apart_commute: "apart a n b k \<longleftrightarrow> apart b k a n"
  by (auto simp: apart_def)

section \<open>The clock\<close>

definition time_now :: "world \<Rightarrow> int \<times> world" where
  "time_now w = (w_clock w (w_reads w), w\<lparr>w_reads := Suc (w_reads w)\<rparr>)"

text \<open>The clock is CLOCK_MONOTONIC: later readings are not smaller.\<close>

definition monotone_clock :: "world \<Rightarrow> bool" where
  "monotone_clock w \<longleftrightarrow> (\<forall>i j. i \<le> j \<longrightarrow> w_clock w i \<le> w_clock w j)"

lemma monotone_clockD: "monotone_clock w \<Longrightarrow> i \<le> j \<Longrightarrow> w_clock w i \<le> w_clock w j"
  by (simp add: monotone_clock_def)

section \<open>SBuffer and its config\<close>

text \<open>\<open>SBufferConfig\<close>; a token is the identity of the \<open>SBufferDeleter\<close> object the weak
  pointer refers to, \<open>None\<close> when it is empty.\<close>

record sbuffer_config =
  cfg_memory :: nat
  cfg_length :: nat
  cfg_affinity :: int
  cfg_user_index :: nat
  cfg_has_deleter :: bool
  cfg_token :: "nat option"

definition default_sbuffer_config :: sbuffer_config where
  "default_sbuffer_config =
     \<lparr>cfg_memory = 0, cfg_length = 0, cfg_affinity = -1, cfg_user_index = size_max,
      cfg_has_deleter = False, cfg_token = None\<rparr>"

record sbuffer =
  sb_impl :: nat
  sb_memory :: nat
  sb_actual :: nat
  sb_affinity :: int
  sb_user_index :: nat
  sb_token :: "nat option"
  sb_offset :: nat
  sb_length :: nat
  sb_last :: nat

text \<open>\<open>SBuffer::SBuffer(void)\<close>: the null handle.\<close>

definition null_sbuffer :: sbuffer where
  "null_sbuffer =
     \<lparr>sb_impl = 0, sb_memory = 0, sb_actual = 0, sb_affinity = -1, sb_user_index = 0,
      sb_token = None, sb_offset = 0, sb_length = 0, sb_last = 0\<rparr>"

definition sb_nonnull :: "sbuffer \<Rightarrow> bool" where
  "sb_nonnull b \<longleftrightarrow> sb_impl b \<noteq> 0"

text \<open>\<open>SBuffer::get(delta)\<close>. The code only passes deltas that are not negative.\<close>

definition sb_get :: "sbuffer \<Rightarrow> nat \<Rightarrow> nat" where
  "sb_get b delta = sb_memory b + sb_offset b + delta"

text \<open>The handle that \<open>intrusive_ptr_release\<close> makes of a released impl
  (\<open>SBuffer buff; buff.reset(impl)\<close>): the default-constructed fields.\<close>

definition resurrect :: "sbuffer \<Rightarrow> sbuffer" where
  "resurrect b = b\<lparr>sb_offset := 0, sb_length := 0, sb_last := 0\<rparr>"

text \<open>The valid bytes of a buffer, \<open>[get(), get() + length)\<close>.\<close>

definition content :: "memory \<Rightarrow> sbuffer \<Rightarrow> byte list" where
  "content m b = bytes m (sb_get b 0) (sb_length b)"

lemma length_content [simp]: "length (content m b) = sb_length b"
  by (simp add: content_def)

lemma resurrect_simps [simp]:
  "sb_impl (resurrect b) = sb_impl b" "sb_memory (resurrect b) = sb_memory b"
  "sb_actual (resurrect b) = sb_actual b" "sb_token (resurrect b) = sb_token b"
  "sb_offset (resurrect b) = 0" "sb_length (resurrect b) = 0" "sb_last (resurrect b) = 0"
  "sb_affinity (resurrect b) = sb_affinity b" "sb_user_index (resurrect b) = sb_user_index b"
  by (simp_all add: resurrect_def)

section \<open>The default allocator\<close>

definition max_alignment :: nat where
  "max_alignment = 64"

text \<open>The \<open>affinity == -1\<close> branch of \<open>default_allocator\<close>: \<open>new char[length + 63]\<close>
  returns the next free address \<open>m\<close>, and the memory starts at the next multiple of 64.\<close>

definition heap_allocator :: "sbuffer_config \<Rightarrow> world \<Rightarrow> sbuffer_config \<times> world" where
  "heap_allocator cfg w =
     (let m = w_brk w; x = m + max_alignment - 1
      in (cfg\<lparr>cfg_memory := x - x mod max_alignment, cfg_has_deleter := True\<rparr>,
          w\<lparr>w_brk := m + cfg_length cfg + max_alignment - 1\<rparr>))"

text \<open>\<open>numa\<close> is \<open>Theron::Detail::Utils::AllocOnNode\<close>, 0 when it fails.\<close>

definition default_allocator ::
  "(int \<Rightarrow> nat \<Rightarrow> nat) \<Rightarrow> sbuffer_config \<Rightarrow> world \<Rightarrow> sbuffer_config \<times> world" where
  "default_allocator numa cfg w =
     (if cfg_affinity cfg = -1 then heap_allocator cfg w
      else let mem = numa (cfg_affinity cfg) (cfg_length cfg);
               cfg = cfg\<lparr>cfg_memory := mem, cfg_has_deleter := True\<rparr>
           in if mem = 0 then heap_allocator (cfg\<lparr>cfg_affinity := -1\<rparr>) w else (cfg, w))"

text \<open>\<open>SBuffer::SBuffer(const SBufferConfig &)\<close>. The constructor's initialiser list sets
  \<open>offset\<close> and \<open>length\<close> but not \<open>last\<close>, which keeps whatever was there.\<close>

definition make_sbuffer ::
  "(int \<Rightarrow> nat \<Rightarrow> nat) \<Rightarrow> sbuffer_config \<Rightarrow> world \<Rightarrow> sbuffer \<times> world" where
  "make_sbuffer numa cfg w =
     (let im = w_impl w; w = w\<lparr>w_impl := Suc im\<rparr>;
          (cfg, w) = (if cfg_memory cfg = 0 then default_allocator numa cfg w else (cfg, w))
      in (\<lparr>sb_impl = im, sb_memory = cfg_memory cfg, sb_actual = cfg_length cfg,
           sb_affinity = cfg_affinity cfg, sb_user_index = cfg_user_index cfg,
           sb_token = cfg_token cfg, sb_offset = 0, sb_length = cfg_length cfg,
           sb_last = w_junk w\<rparr>, w))"

lemma heap_allocator_aligned:
  assumes "heap_allocator cfg w = (cfg', w')"
  shows "w_brk w \<le> cfg_memory cfg' \<and> cfg_memory cfg' mod 64 = 0
       \<and> cfg_memory cfg' + cfg_length cfg' \<le> w_brk w' \<and> cfg_length cfg' = cfg_length cfg"
proof -
  let ?x = "w_brk w + max_alignment - 1"
  have m: "cfg' = cfg\<lparr>cfg_memory := ?x - ?x mod 64, cfg_has_deleter := True\<rparr>"
    and w: "w_brk w' = w_brk w + cfg_length cfg + 63"
    using assms by (auto simp: heap_allocator_def max_alignment_def Let_def)
  have "w_brk w \<le> ?x - ?x mod 64"
    using mod_less_divisor [of 64 ?x] by (simp add: max_alignment_def)
  moreover have "(?x - ?x mod 64) mod 64 = 0"
    by (metis minus_mod_eq_mult_div mod_mult_self1_is_0)
  moreover have "?x - ?x mod 64 \<le> w_brk w + 63"
    by (simp add: max_alignment_def)
  ultimately show ?thesis by (simp add: m w)
qed

section \<open>Releasing a reference\<close>

text \<open>
  \<open>SBufferImpl\<close> as \<open>intrusive_ptr_add_ref\<close> and \<open>intrusive_ptr_release\<close> see it. A
  release that reaches zero hands a fresh handle to the token's function if the token is
  still alive, to the deleter if one is set, and otherwise deletes the impl. That handle
  lives until the end of its block, so its destruction is a release of its own. \<open>alive\<close> says
  whether the weak token can be locked, \<open>keeps\<close> how many references the token's function
  retains (a queue's \<open>push_back\<close> and a message to an actor retain one).
\<close>

record impl_state =
  im_count :: nat
  im_deleter :: bool

datatype release_event = Token_Called | Deleter_Called | Impl_Deleted

definition add_ref :: "impl_state \<Rightarrow> impl_state" where
  "add_ref im = im\<lparr>im_count := Suc (im_count im)\<rparr>"

partial_function (option) release ::
  "bool \<Rightarrow> nat \<Rightarrow> impl_state \<Rightarrow> release_event list \<Rightarrow> (impl_state option \<times> release_event list) option"
where
  "release alive keeps im log =
     (let im = im\<lparr>im_count := im_count im - 1\<rparr>
      in if im_count im \<noteq> 0 then Some (Some im, log)
         else if alive then release alive keeps (im\<lparr>im_count := 1 + keeps\<rparr>) (log @ [Token_Called])
         else if im_deleter im
              then release alive keeps (im\<lparr>im_count := 1, im_deleter := False\<rparr>) (log @ [Deleter_Called])
         else Some (None, log @ [Impl_Deleted]))"

lemma release_shared: "1 < im_count im \<Longrightarrow>
    release alive keeps im log = Some (Some (im\<lparr>im_count := im_count im - 1\<rparr>), log)"
  by (subst release.simps) simp

text \<open>A live token whose function keeps a reference: the impl survives, one call, no deletion.\<close>

lemma release_token:
  "im_count im = 1 \<Longrightarrow> 0 < keeps \<Longrightarrow>
     release True keeps im log = Some (Some (im\<lparr>im_count := keeps\<rparr>), log @ [Token_Called])"
  by (subst release.simps) (simp add: release_shared)

text \<open>No live token: the deleter runs exactly once and the impl is deleted after it.\<close>

lemma release_dead_token:
  "im_count im = 1 \<Longrightarrow>
     release False keeps im log =
       Some (None, log @ (if im_deleter im then [Deleter_Called] else []) @ [Impl_Deleted])"
  by (subst release.simps, subst release.simps) simp

text \<open>A live token whose function keeps nothing is called again and again: no result.\<close>

lemma release_no_keeper:
  assumes "im_count im = 1"
  shows "release True 0 im log = None"
proof -
  have never: "alive \<longrightarrow> keeps = 0 \<longrightarrow> im_count im \<noteq> 1"
    if ret: "release alive keeps im log = Some r" for alive keeps im log r
  proof (rule release.raw_induct [where P = "\<lambda>alive keeps im log r. alive \<longrightarrow> keeps = 0 \<longrightarrow> im_count im \<noteq> 1", OF _ ret])
    fix f :: "bool \<Rightarrow> nat \<Rightarrow> impl_state \<Rightarrow> release_event list
        \<Rightarrow> (impl_state option \<times> release_event list) option"
      and alive :: bool and keeps :: nat and im :: impl_state and log r
    assume IH: "\<And>alive keeps im log r. f alive keeps im log = Some r \<Longrightarrow>
        alive \<longrightarrow> keeps = 0 \<longrightarrow> im_count im \<noteq> (1::nat)"
    show "(let im = im\<lparr>im_count := im_count im - 1\<rparr>
       in if im_count im \<noteq> 0 then Some (Some im, log)
          else if alive then f alive keeps (im\<lparr>im_count := 1 + keeps\<rparr>) (log @ [Token_Called])
          else if im_deleter im
               then f alive keeps (im\<lparr>im_count := 1, im_deleter := False\<rparr>) (log @ [Deleter_Called])
          else Some (None, log @ [Impl_Deleted])) = Some r \<Longrightarrow>
        alive \<longrightarrow> keeps = 0 \<longrightarrow> im_count im \<noteq> 1"
      using IH [of True 0 "im\<lparr>im_count := 1\<rparr>" "log @ [Token_Called]" r] by (auto simp: Let_def)
  qed
  with assms show ?thesis by (cases "release True 0 im log") blast+
qed

end
