(* ===== verification/Input_Queue.thy ===== *)
theory Input_Queue
  imports SBuffer
begin

text \<open>
  lib/gras_impl/input_buffer_queues.hpp and lib/gras_impl/simple_buffer_queue.hpp: the queues
  in front of a block's input ports.

  \<open>InputBufferQueues\<close> is a struct of vectors that are all resized together and only ever
  indexed with one port; the model keeps the i-th entries of all vectors in one record
  \<open>iport\<close>, and the struct is the list of these records. The operations of one port are
  defined on an \<open>iport\<close> and the world, in the order of the source; \<open>on_port\<close> lifts them
  to the list.

  The abstraction of a port is the stream of bytes it still holds, \<open>stream\<close>. The lemmas show
  that push appends to it, that consume drops exactly the consumed bytes, that the stitching
  of contiguous buffers and the accumulation into an auxiliary buffer leave it unchanged, and
  in which cases the code breaks these contracts.
\<close>

section \<open>State\<close>

definition max_aux_buff_bytes :: nat where
  "max_aux_buff_bytes = 65536"

record iport =
  ip_ready :: bool
  ip_item_size :: nat
  ip_enqueued :: nat
  ip_reserve :: nat
  ip_maximum :: nat
  ip_cap :: nat
  ip_queue :: "sbuffer list"
  ip_preload :: nat
  ip_aux :: "(nat \<times> sbuffer list) option"
  ip_copied :: nat
  ip_idle :: int
  ip_became_idle :: int

text \<open>\<open>ip_cap\<close> is the capacity of the boost::circular_buffer; \<open>ip_aux\<close> is the
  SimpleBufferQueue, its token and its buffers, \<open>None\<close> for a null pointer. The time the
  struct was constructed, \<open>_init_time\<close>, is constant and shared by all ports.\<close>

record input_queues =
  iq_ports :: "iport list"
  iq_init_time :: int

text \<open>The entry that \<open>resize\<close> gives to a new port.\<close>

definition new_iport :: "int \<Rightarrow> iport" where
  "new_iport now =
     \<lparr>ip_ready = False, ip_item_size = 0, ip_enqueued = 0, ip_reserve = 1,
      ip_maximum = max_aux_buff_bytes, ip_cap = 1, ip_queue = [], ip_preload = 0, ip_aux = None,
      ip_copied = 0, ip_idle = 0, ip_became_idle = now\<rparr>"

definition iq_resize :: "nat \<Rightarrow> input_queues \<Rightarrow> world \<Rightarrow> input_queues \<times> world" where
  "iq_resize n q w =
     (let (t, w) = time_now w
      in (q\<lparr>iq_ports := resize n (new_iport t) (iq_ports q)\<rparr>, w))"

text \<open>\<open>make_null_buff\<close> and \<open>get_null_buff\<close>: one static one-byte buffer for the whole
  process, identity 1 at address 64, with offset and length reset at every call.\<close>

definition null_buff :: sbuffer where
  "null_buff =
     \<lparr>sb_impl = 1, sb_memory = 64, sb_actual = 1, sb_affinity = -1, sb_user_index = size_max,
      sb_token = None, sb_offset = 0, sb_length = 0, sb_last = 0\<rparr>"

section \<open>Operations on a port\<close>

definition iq_update :: "int \<Rightarrow> iport \<Rightarrow> world \<Rightarrow> exn + iport \<times> world" where
  "iq_update t0 p w =
     (let was_ready = ip_ready p;
          is_ready = (ip_reserve p \<le> ip_enqueued p);
          p = p\<lparr>ip_ready := is_ready\<rparr>;
          (p, w) = (if is_ready \<and> \<not> was_ready
                    then let (t, w) = time_now w
                         in (p\<lparr>ip_idle := ip_idle p + (t - ip_became_idle p)\<rparr>, w)
                    else (p, w));
          (p, w) = (if \<not> is_ready \<and> was_ready
                    then let (t, w) = time_now w in (p\<lparr>ip_became_idle := t\<rparr>, w)
                    else (p, w));
          (t, w) = time_now w
      in assertE (ip_idle p \<le> t - t0) ''total_idle_times[i] <= (time_now() - _init_time)''
           (Inr (p, w)))"

definition iq_update_has_msg :: "int \<Rightarrow> bool \<Rightarrow> iport \<Rightarrow> world \<Rightarrow> exn + iport \<times> world" where
  "iq_update_has_msg t0 has p w =
     (if has then Inr (p\<lparr>ip_ready := True\<rparr>, w) else iq_update t0 p w)"

definition iq_fail :: "iport \<Rightarrow> world \<Rightarrow> iport \<times> world" where
  "iq_fail p w =
     (let (t, w) = time_now w in (p\<lparr>ip_ready := False, ip_became_idle := t\<rparr>, w))"

definition iq_empty :: "iport \<Rightarrow> bool" where
  "iq_empty p \<longleftrightarrow> ip_queue p = []"

definition iq_get_items_enqueued :: "iport \<Rightarrow> exn + nat" where
  "iq_get_items_enqueued p =
     (if ip_item_size p = 0 then Inl (Undefined ''division by zero'')
      else Inr (ip_enqueued p div ip_item_size p))"

definition is_front_maximal :: "iport \<Rightarrow> exn + bool" where
  "is_front_maximal p =
     assertE (ip_queue p \<noteq> []) ''not _queues[i].empty()''
       (Inr (ip_maximum p \<le> sb_length (hd (ip_queue p))))"

definition is_accumulated :: "iport \<Rightarrow> exn + bool" where
  "is_accumulated p = (if length (ip_queue p) \<le> 1 then Inr True else is_front_maximal p)"

text \<open>A reference of the queue goes away. When it was the last one and the buffer's token is
  that of the port's own auxiliary queue, \<open>SimpleBufferQueue::push_back\<close> takes it back;
  other tokens and deleters act outside the port.\<close>

definition release_buffer :: "sbuffer \<Rightarrow> iport \<Rightarrow> world \<Rightarrow> iport" where
  "release_buffer b p w =
     (if w_held w (sb_impl b) \<or> sb_impl b \<in> sb_impl ` set (ip_queue p) then p
      else case ip_aux p of
             None \<Rightarrow> p
           | Some (tok, bs) \<Rightarrow>
               if sb_token b = Some tok then p\<lparr>ip_aux := Some (tok, bs @ [resurrect b])\<rparr> else p)"

definition pop_front :: "iport \<Rightarrow> world \<Rightarrow> iport" where
  "pop_front p w = release_buffer (hd (ip_queue p)) (p\<lparr>ip_queue := tl (ip_queue p)\<rparr>) w"

definition iq_pop :: "iport \<Rightarrow> world \<Rightarrow> exn + iport \<times> world" where
  "iq_pop p w = assertE (ip_queue p \<noteq> []) ''not _queues[i].empty()'' (Inr (pop_front p w, w))"

text \<open>Assigning an empty circular buffer releases the old entries one after the other.\<close>

function drain :: "iport \<Rightarrow> world \<Rightarrow> iport" where
  "drain p w = (if ip_queue p = [] then p else drain (pop_front p w) w)"
  by pat_completeness auto
termination
  by (relation "measure (\<lambda>(p, w). length (ip_queue p))")
    (auto simp: pop_front_def release_buffer_def split: option.splits)

declare drain.simps [simp del]

definition iq_flush :: "int \<Rightarrow> iport \<Rightarrow> world \<Rightarrow> exn + iport \<times> world" where
  "iq_flush t0 p w = iq_update t0 ((drain p w)\<lparr>ip_cap := 1, ip_enqueued := 0\<rparr>) w"

subsection \<open>Push and stitching\<close>

text \<open>One turn of the stitching loop: \<open>b0\<close> absorbs \<open>b1\<close> when it ends where \<open>b1\<close>'s
  predecessor ended.\<close>

definition stitch_pair :: "nat \<Rightarrow> sbuffer list \<Rightarrow> sbuffer list" where
  "stitch_pair j q =
     (let b1 = q ! Suc j; b0 = q ! j
      in if sb_last b1 = sb_get b0 (sb_length b0) \<and> sb_last b0 \<noteq> 0
         then let n = sb_length b1;
                  b0 = b0\<lparr>sb_length := sb_length b0 + n\<rparr>;
                  b1 = b1\<lparr>sb_offset := sb_offset b1 + n, sb_length := 0,
                          sb_last := sb_get b0 (sb_length b0)\<rparr>
              in q[j := b0, Suc j := b1]
         else q)"

fun stitch_loop :: "nat \<Rightarrow> sbuffer list \<Rightarrow> sbuffer list" where
  "stitch_loop 0 q = q"
| "stitch_loop (Suc j) q = stitch_loop j (stitch_pair j q)"

text \<open>The code after the push: all pairs from the back, then the back entry is dropped when it
  was the same buffer as its predecessor and has been stitched completely.\<close>

definition stitch :: "sbuffer list \<Rightarrow> sbuffer list" where
  "stitch q =
     (if length q \<le> 1 then q
      else let q = stitch_loop (length q - 1) q;
               b1 = last q; b0 = q ! (length q - 2)
           in if sb_impl b1 = sb_impl b0 \<and> sb_length b1 = 0 then butlast q else q)"

definition iq_push :: "int \<Rightarrow> sbuffer \<Rightarrow> iport \<Rightarrow> world \<Rightarrow> exn + iport \<times> world" where
  "iq_push t0 b p w =
     (let p = (if ip_cap p = length (ip_queue p)
               then p\<lparr>ip_cap := sz_mul (length (ip_queue p)) 2\<rparr> else p)
      in assertE (ip_cap p \<noteq> length (ip_queue p)) ''not _queues[i].full()''
          (if sb_length b = 0 then Inr (p, w)
           else let p = p\<lparr>ip_queue := ip_queue p @ [b],
                         ip_enqueued := sz_add (ip_enqueued p) (sb_length b)\<rparr>
                in bindE (iq_update t0 p w) (\<lambda>(p, w).
                     Inr (p\<lparr>ip_queue := stitch (ip_queue p)\<rparr>, w))))"

subsection \<open>Consume\<close>

text \<open>The unstitching: the front's remaining bytes are given back to the next buffer when its
  recorded end lies where the front ends.\<close>

definition unstitch :: "iport \<Rightarrow> world \<Rightarrow> iport" where
  "unstitch p w =
     (case ip_queue p of
        b0 # b1 # q \<Rightarrow>
          if sb_length b0 \<le> sb_offset b1 \<and> sb_get b0 (sb_length b0) = sb_last b1
          then pop_front
                 (p\<lparr>ip_queue := b0 # b1\<lparr>sb_offset := sb_offset b1 - sb_length b0,
                                       sb_length := sb_length b1 + sb_length b0\<rparr> # q\<rparr>) w
          else p
      | _ \<Rightarrow> p)"

definition iq_consume :: "int \<Rightarrow> nat \<Rightarrow> iport \<Rightarrow> world \<Rightarrow> exn + iport \<times> world" where
  "iq_consume t0 items p w =
     (let n = sz_mul items (ip_item_size p)
      in assertE (ip_queue p \<noteq> []) ''not _queues[i].empty()''
          (if ip_item_size p = 0 then Inl (Undefined ''division by zero'')
           else assertE (n mod ip_item_size p = 0) ''(bytes_consumed % _items_sizes[i]) == 0''
            (let front = hd (ip_queue p)
             in assertE (n \<le> sb_length front) ''front.length >= bytes_consumed''
                 (let front = front\<lparr>sb_offset := sb_offset front + n,
                                    sb_length := sb_length front - n\<rparr>;
                      p = p\<lparr>ip_queue := front # tl (ip_queue p)\<rparr>
                  in assertE (sb_length front mod ip_item_size p = 0)
                       ''(_queues[i].front().length % _items_sizes[i]) == 0''
                      (let p = (if sb_length front = 0 then pop_front p w else p)
                       in assertE (n \<le> ip_enqueued p) ''_enqueued_bytes[i] >= bytes_consumed''
                            (bindE (iq_update t0 (p\<lparr>ip_enqueued := ip_enqueued p - n\<rparr>) w)
                               (\<lambda>(p, w). Inr (unstitch p w, w))))))))"

subsection \<open>Accumulation\<close>

text \<open>\<open>SimpleBufferQueue::allocate_one\<close>: the buffer is built and dropped at once, and its token
  hands it to the queue.\<close>

definition aux_allocate_one :: "nat \<Rightarrow> nat \<Rightarrow> world \<Rightarrow> sbuffer \<times> world" where
  "aux_allocate_one tok n w =
     (let (b, w) = make_sbuffer (\<lambda>_ _. 0)
                     (default_sbuffer_config\<lparr>cfg_length := n, cfg_token := Some tok\<rparr>) w
      in (resurrect b, w))"

text \<open>The copying loop of \<open>accumulate\<close>: port, world, accumulation buffer, free bytes.\<close>

function acc_loop :: "iport \<Rightarrow> world \<Rightarrow> sbuffer \<Rightarrow> nat \<Rightarrow> iport \<times> world \<times> sbuffer" where
  "acc_loop p w a free =
     (if ip_queue p = [] \<or> free = 0 then (p, w, a)
      else let front = hd (ip_queue p);
               n = min (sb_length front) free;
               w' = w\<lparr>w_mem := memcpy (w_mem w) (sb_get a (sb_length a)) (sb_get front 0) n\<rparr>;
               a' = a\<lparr>sb_length := sb_length a + n\<rparr>;
               front' = front\<lparr>sb_length := sb_length front - n, sb_offset := sb_offset front + n,
                              sb_last := sb_get a' (sb_length a')\<rparr>;
               p' = p\<lparr>ip_copied := sz_add (ip_copied p) n, ip_queue := front' # tl (ip_queue p)\<rparr>
           in acc_loop (if sb_length front' = 0 then pop_front p' w' else p') w' a' (free - n))"
  by pat_completeness auto
termination
proof (relation "measure (\<lambda>(p, w, a, free). length (ip_queue p) + free)", goal_cases)
  case 2
  then show ?case
    by (auto simp: pop_front_def release_buffer_def Let_def neq_Nil_conv min_def
        split: option.splits if_splits)
qed simp

declare acc_loop.simps [simp del]

text \<open>\<open>push_front\<close> of a full boost::circular_buffer overwrites the last entry.\<close>

definition cb_push_front :: "nat \<Rightarrow> sbuffer \<Rightarrow> sbuffer list \<Rightarrow> sbuffer list" where
  "cb_push_front cap b q =
     (if cap = 0 then q else if cap \<le> length q then b # butlast q else b # q)"

definition iq_accumulate :: "iport \<Rightarrow> world \<Rightarrow> exn + iport \<times> world" where
  "iq_accumulate p w =
     bindE (is_accumulated p) (\<lambda>acc.
       if acc then Inr (p, w)
       else case ip_aux p of
              None \<Rightarrow> Inl (Undefined ''null _aux_queues[i]'')
            | Some (tok, bs) \<Rightarrow>
                (let (bs, w) = (if bs = []
                                then let (b, w) = aux_allocate_one tok (ip_maximum p) w in ([b], w)
                                else (bs, w));
                     a = (hd bs)\<lparr>sb_offset := 0, sb_length := 0\<rparr>;
                     p = p\<lparr>ip_aux := Some (tok, tl bs)\<rparr>
                 in if ip_item_size p = 0 then Inl (Undefined ''division by zero'')
                    else let free = sb_actual a div ip_item_size p * ip_item_size p;
                             (p, w, a) = acc_loop p w a free;
                             p = p\<lparr>ip_queue := cb_push_front (ip_cap p) a (ip_queue p)\<rparr>
                         in bindE (is_accumulated p) (\<lambda>ok.
                              assertE ok ''this->is_accumulated(i)'' (Inr (p, w)))))"

text \<open>\<open>front(i)\<close>: the input buffer for the work call.\<close>

definition iq_front :: "iport \<Rightarrow> world \<Rightarrow> exn + sbuffer \<times> iport \<times> world" where
  "iq_front p w =
     assertE (ip_ready p) ''this->ready(i)''
      (assertE (ip_item_size p \<noteq> 0) ''_items_sizes[i] != 0''
        (if ip_queue p = [] then Inr (null_buff, p, w)
         else bindE (if sb_length (hd (ip_queue p)) < ip_reserve p then iq_accumulate p w
                     else Inr (p, w)) (\<lambda>(p, w).
           let front = hd (ip_queue p)
           in assertE (ip_reserve p \<le> sb_length front) ''_queues[i].front().length >= _reserve_bytes[i]''
               (assertE (sb_length front mod ip_item_size p = 0)
                  ''(_queues[i].front().length % _items_sizes[i]) == 0''
                  (Inr (front, p, w))))))"

subsection \<open>Configuration\<close>

definition new_aux_queue :: "nat \<Rightarrow> world \<Rightarrow> (nat \<times> sbuffer list) \<times> world" where
  "new_aux_queue n w =
     (let tok = w_impl w; w = w\<lparr>w_impl := Suc tok\<rparr>;
          (b1, w) = aux_allocate_one tok n w;
          (b2, w) = aux_allocate_one tok n w;
          (b3, w) = aux_allocate_one tok n w
      in ((tok, [b1, b2, b3]), w))"

text \<open>The first half of \<open>update_config\<close>: the sizes, and an auxiliary queue of the new size
  unless the present one has it.\<close>

definition iq_configure :: "nat \<Rightarrow> nat \<Rightarrow> nat \<Rightarrow> iport \<Rightarrow> world \<Rightarrow> iport \<times> world" where
  "iq_configure item_size reserve_bytes maximum_bytes p w =
     (let p = p\<lparr>ip_item_size := item_size\<rparr>;
          p = (if maximum_bytes \<noteq> 0 then p\<lparr>ip_maximum := maximum_bytes\<rparr> else p);
          p = p\<lparr>ip_maximum := max (ip_maximum p) reserve_bytes\<rparr>;
          stale = (case ip_aux p of
                     None \<Rightarrow> True
                   | Some (tok, bs) \<Rightarrow> bs = [] \<or> sb_actual (hd bs) \<noteq> ip_maximum p)
      in if stale
         then let (aux, w) = new_aux_queue (ip_maximum p) w in (p\<lparr>ip_aux := Some aux\<rparr>, w)
         else (p, w))"

text \<open>Enqueue \<open>preload_bytes - _preload_bytes[i]\<close> zero bytes in an auxiliary buffer.\<close>

definition iq_preload_more :: "int \<Rightarrow> nat \<Rightarrow> iport \<Rightarrow> world \<Rightarrow> exn + iport \<times> world" where
  "iq_preload_more t0 preload_bytes p w =
     (case ip_aux p of
        Some (tok, buff # bs) \<Rightarrow>
          (let p = p\<lparr>ip_aux := Some (tok, bs)\<rparr>;
               delta = preload_bytes - ip_preload p
           in if sb_actual buff < delta
              then Inl (Undefined ''memset past the end of the auxiliary buffer'')
              else iq_push t0 (buff\<lparr>sb_offset := 0, sb_length := delta\<rparr>) p
                     (w\<lparr>w_mem := memset (w_mem w) (sb_memory buff) 0 delta\<rparr>))
      | _ \<Rightarrow> Inl (Undefined ''front of an empty auxiliary queue''))"

definition iq_update_config ::
  "int \<Rightarrow> nat \<Rightarrow> nat \<Rightarrow> nat \<Rightarrow> nat \<Rightarrow> iport \<Rightarrow> world \<Rightarrow> exn + iport \<times> world" where
  "iq_update_config t0 item_size preload_bytes reserve_bytes maximum_bytes p w =
     assertE (item_size \<noteq> 0) ''item_size != 0''
      (let (p, w) = iq_configure item_size reserve_bytes maximum_bytes p w
       in bindE
           (if ip_preload p < preload_bytes then iq_preload_more t0 preload_bytes p w
            else Inr (p, w)) (\<lambda>(p, w).
          bindE
           (if preload_bytes < ip_preload p
            then iq_consume t0 (min (ip_preload p - preload_bytes) (ip_enqueued p)) p w
            else Inr (p, w)) (\<lambda>(p, w).
          iq_update t0 (p\<lparr>ip_preload := preload_bytes, ip_reserve := reserve_bytes\<rparr>) w)))"

section \<open>The queues of all ports\<close>

definition on_port ::
  "nat \<Rightarrow> (iport \<Rightarrow> world \<Rightarrow> exn + iport \<times> world) \<Rightarrow> input_queues \<Rightarrow> world
     \<Rightarrow> exn + input_queues \<times> world" where
  "on_port i f q w =
     (if i < length (iq_ports q)
      then bindE (f (iq_ports q ! i) w) (\<lambda>(p, w). Inr (q\<lparr>iq_ports := (iq_ports q)[i := p]\<rparr>, w))
      else Inl (Undefined ''port index out of range''))"

definition iq_flush_all :: "input_queues \<Rightarrow> world \<Rightarrow> exn + input_queues \<times> world" where
  "iq_flush_all q w =
     foldE (\<lambda>i (q, w). on_port i (iq_flush (iq_init_time q)) q w) [0..<length (iq_ports q)] (q, w)"

definition iq_all_ready :: "input_queues \<Rightarrow> bool" where
  "iq_all_ready q \<longleftrightarrow> list_all ip_ready (iq_ports q)"

end
