(* ===== verification/Input_Stream.thy ===== *)
theory Input_Stream
  imports Input_Queue
begin

text \<open>
  The byte stream held by an input port, and what the operations of
  lib/gras_impl/input_buffer_queues.hpp do to it.

  \<open>stream m p\<close> is the concatenation of the valid bytes of the queued buffers. A buffer's
  \<open>last\<close> is sound (\<open>good_link\<close>) when it is null or points to the buffer's own first byte,
  which is what BufferQueuePool::pop and BufferQueueCirc::front store there; the accumulation
  stores something else in the \<open>last\<close> of the buffer behind the accumulated one.
\<close>

section \<open>The stream of a port\<close>

definition qstream :: "memory \<Rightarrow> sbuffer list \<Rightarrow> byte list" where
  "qstream m q = concat (map (content m) q)"

definition qbytes :: "sbuffer list \<Rightarrow> nat" where
  "qbytes q = sum_list (map sb_length q)"

definition stream :: "memory \<Rightarrow> iport \<Rightarrow> byte list" where
  "stream m p = qstream m (ip_queue p)"

definition good_link :: "sbuffer \<Rightarrow> bool" where
  "good_link b \<longleftrightarrow> sb_last b = 0 \<or> sb_last b = sb_get b 0"

text \<open>Every queued buffer but the front one has a sound \<open>last\<close>, and memory is not at NULL.\<close>

definition linked :: "sbuffer list \<Rightarrow> bool" where
  "linked q \<longleftrightarrow> (\<forall>b \<in> set q. sb_memory b \<noteq> 0) \<and> (\<forall>b \<in> set (tl q). good_link b)"

text \<open>The weaker condition that also holds right after an accumulation: the front is an
  accumulation buffer, whose own \<open>last\<close> is null, and the buffer behind it may have any
  \<open>last\<close>.\<close>

definition sound_links :: "sbuffer list \<Rightarrow> bool" where
  "sound_links q \<longleftrightarrow>
     linked q \<or> (case q of [] \<Rightarrow> True | a # r \<Rightarrow> sb_last a = 0 \<and> sb_memory a \<noteq> 0 \<and> linked r)"

text \<open>The bookkeeping of a port: the byte counter is the number of queued bytes, and the
  circular buffer holds what it claims.\<close>

definition port_inv :: "iport \<Rightarrow> bool" where
  "port_inv p \<longleftrightarrow>
     ip_enqueued p = qbytes (ip_queue p) \<and> ip_enqueued p < size_mod
     \<and> 1 \<le> ip_cap p \<and> length (ip_queue p) \<le> ip_cap p"

lemma qstream_simps [simp]:
  "qstream m [] = []" "qstream m (b # q) = content m b @ qstream m q"
  "qstream m (q @ q') = qstream m q @ qstream m q'"
  by (simp_all add: qstream_def)

lemma qbytes_simps [simp]:
  "qbytes [] = 0" "qbytes (b # q) = sb_length b + qbytes q" "qbytes (q @ q') = qbytes q + qbytes q'"
  by (simp_all add: qbytes_def)

lemma length_qstream [simp]: "length (qstream m q) = qbytes q"
  by (induction q) simp_all

lemma linked_simps [simp]:
  "linked []" "linked [b] \<longleftrightarrow> sb_memory b \<noteq> 0"
  "linked (b # c # q) \<longleftrightarrow> sb_memory b \<noteq> 0 \<and> good_link c \<and> linked (c # q)"
  by (auto simp: linked_def)

lemma linked_tl: "linked q \<Longrightarrow> linked (tl q)"
  by (cases q; cases "tl q") auto

lemma linked_snoc:
  "linked (q @ [b]) \<longleftrightarrow> linked q \<and> sb_memory b \<noteq> 0 \<and> (q = [] \<or> good_link b)"
  by (cases q) (auto simp: linked_def)

lemma content_append:
  "content m (b\<lparr>sb_length := sb_length b + n\<rparr>) = content m b @ bytes m (sb_get b (sb_length b)) n"
  by (simp add: content_def sb_get_def bytes_add)

lemma content_drop:
  "n \<le> sb_length b \<Longrightarrow>
     content m (b\<lparr>sb_offset := sb_offset b + n, sb_length := sb_length b - n\<rparr>) = drop n (content m b)"
  by (simp add: content_def sb_get_def drop_bytes add.assoc)

lemma content_last [simp]: "content m (b\<lparr>sb_last := x\<rparr>) = content m b"
  by (simp add: content_def sb_get_def)

section \<open>Frame facts\<close>

lemma release_buffer_frame [simp]:
  "ip_queue (release_buffer b p w) = ip_queue p" "ip_enqueued (release_buffer b p w) = ip_enqueued p"
  "ip_cap (release_buffer b p w) = ip_cap p" "ip_item_size (release_buffer b p w) = ip_item_size p"
  "ip_reserve (release_buffer b p w) = ip_reserve p" "ip_maximum (release_buffer b p w) = ip_maximum p"
  "ip_ready (release_buffer b p w) = ip_ready p" "ip_preload (release_buffer b p w) = ip_preload p"
  "ip_idle (release_buffer b p w) = ip_idle p" "ip_copied (release_buffer b p w) = ip_copied p"
  "ip_became_idle (release_buffer b p w) = ip_became_idle p"
  by (simp_all add: release_buffer_def split: option.splits)

lemma pop_front_frame [simp]:
  "ip_queue (pop_front p w) = tl (ip_queue p)" "ip_enqueued (pop_front p w) = ip_enqueued p"
  "ip_cap (pop_front p w) = ip_cap p" "ip_item_size (pop_front p w) = ip_item_size p"
  "ip_reserve (pop_front p w) = ip_reserve p" "ip_maximum (pop_front p w) = ip_maximum p"
  "ip_ready (pop_front p w) = ip_ready p" "ip_preload (pop_front p w) = ip_preload p"
  "ip_idle (pop_front p w) = ip_idle p" "ip_copied (pop_front p w) = ip_copied p"
  "ip_became_idle (pop_front p w) = ip_became_idle p"
  by (simp_all add: pop_front_def)

lemma time_now_frame [simp]:
  "w_mem (snd (time_now w)) = w_mem w" "w_brk (snd (time_now w)) = w_brk w"
  "w_impl (snd (time_now w)) = w_impl w" "w_held (snd (time_now w)) = w_held w"
  "w_clock (snd (time_now w)) = w_clock w" "w_junk (snd (time_now w)) = w_junk w"
  by (simp_all add: time_now_def)

text \<open>\<open>__update\<close> only touches readiness, the idle accounting and the clock.\<close>

lemma iq_update_frame:
  assumes "iq_update t0 p w = Inr (p', w')"
  shows "ip_queue p' = ip_queue p \<and> ip_enqueued p' = ip_enqueued p \<and> ip_cap p' = ip_cap p
    \<and> ip_item_size p' = ip_item_size p \<and> ip_reserve p' = ip_reserve p
    \<and> ip_maximum p' = ip_maximum p \<and> ip_aux p' = ip_aux p \<and> ip_preload p' = ip_preload p
    \<and> ip_ready p' = (ip_reserve p \<le> ip_enqueued p) \<and> w_mem w' = w_mem w
    \<and> w_brk w' = w_brk w \<and> w_impl w' = w_impl w \<and> w_held w' = w_held w"
  using assms
  by (auto simp: iq_update_def time_now_def Let_def assertE_def split: if_splits)

section \<open>Stitching\<close>

lemma length_stitch_pair [simp]: "length (stitch_pair j q) = length q"
  by (simp add: stitch_pair_def Let_def)

lemma stitch_pair_append:
  "stitch_pair (length xs) (xs @ b0 # b1 # ys) = xs @ stitch_pair 0 (b0 # b1 # ys)"
  by (simp add: stitch_pair_def Let_def nth_append list_update_append)

lemma stitch_pair_split:
  assumes "Suc j < length q"
  shows "stitch_pair j q = take j q @ stitch_pair 0 (drop j q)"
proof -
  obtain xs b0 b1 ys where q: "q = xs @ b0 # b1 # ys" and j: "j = length xs"
    using list_nth2_split [OF assms] assms by (metis length_take less_imp_le_nat min.absorb2 Suc_lessD)
  show ?thesis by (simp add: q j stitch_pair_append)
qed

text \<open>A stitched pair carries the same bytes: a sound \<open>last\<close> equal to the end of \<open>b0\<close> means
  that \<open>b1\<close>'s bytes follow \<open>b0\<close>'s in memory.\<close>

lemma stitch_two:
  assumes "sb_memory b0 \<noteq> 0" and "good_link b1"
  shows "qstream m (stitch_pair 0 (b0 # b1 # q)) = qstream m (b0 # b1 # q)
    \<and> qbytes (stitch_pair 0 (b0 # b1 # q)) = qbytes (b0 # b1 # q)"
proof (cases "sb_last b1 = sb_get b0 (sb_length b0) \<and> sb_last b0 \<noteq> 0")
  case True
  with assms have "sb_get b1 0 = sb_get b0 (sb_length b0)"
    by (auto simp: good_link_def sb_get_def)
  with True show ?thesis
    by (simp add: stitch_pair_def Let_def content_append) (simp add: content_def)
qed (auto simp: stitch_pair_def Let_def)

lemma stitch_two_linked:
  assumes "linked (b0 # b1 # q)"
  shows "linked (stitch_pair 0 (b0 # b1 # q)) \<and> good_link (hd (tl (stitch_pair 0 (b0 # b1 # q))))
    \<and> (good_link (hd (stitch_pair 0 (b0 # b1 # q))) \<longleftrightarrow> good_link b0)"
proof (cases "sb_last b1 = sb_get b0 (sb_length b0) \<and> sb_last b0 \<noteq> 0")
  case True
  with assms have "sb_get b1 0 = sb_get b0 (sb_length b0)"
    by (auto simp: good_link_def sb_get_def)
  with True assms show ?thesis
    by (cases q) (auto simp: stitch_pair_def Let_def good_link_def sb_get_def)
qed (use assms in \<open>auto simp: stitch_pair_def Let_def\<close>)

lemma stitch_pair_two: "\<exists>c0 c1. stitch_pair 0 (b0 # b1 # ys) = c0 # c1 # ys"
  by (cases "sb_last b1 = sb_get b0 (sb_length b0) \<and> sb_last b0 \<noteq> 0")
    (simp_all add: stitch_pair_def Let_def)

lemma linked_append_iff:
  "linked (xs @ b # ys) \<longleftrightarrow>
     linked (xs @ [b]) \<and> linked (b # ys)"
  by (cases xs) (auto simp: linked_def)

lemma stitch_pair_stream:
  assumes "linked q" and "Suc j < length q"
  shows "linked (stitch_pair j q) \<and> qstream m (stitch_pair j q) = qstream m q
    \<and> qbytes (stitch_pair j q) = qbytes q"
proof -
  obtain xs b0 b1 ys where q: "q = xs @ b0 # b1 # ys" and j: "j = length xs"
    using list_nth2_split [OF assms(2)] assms(2)
    by (metis length_take less_imp_le_nat min.absorb2 Suc_lessD)
  have b: "linked (b0 # b1 # ys)" "linked (xs @ [b0])"
    using assms(1) linked_append_iff [of xs b0 "b1 # ys"] by (auto simp: q)
  obtain c0 c1 where s: "stitch_pair 0 (b0 # b1 # ys) = c0 # c1 # ys"
    using stitch_pair_two by blast
  have "linked (c0 # c1 # ys)" "good_link c0 \<longleftrightarrow> good_link b0"
    using stitch_two_linked [OF b(1)] by (auto simp: s)
  moreover from this b(2) have "linked (xs @ [c0])"
    by (auto simp: linked_snoc)
  ultimately have "linked (xs @ c0 # c1 # ys)"
    using linked_append_iff [of xs c0 "c1 # ys"] by blast
  moreover have "qstream m (c0 # c1 # ys) = qstream m (b0 # b1 # ys)"
    "qbytes (c0 # c1 # ys) = qbytes (b0 # b1 # ys)"
    using stitch_two [of b0 b1 m ys] b(1) by (auto simp: s)
  ultimately show ?thesis
    by (simp add: q j stitch_pair_append s)
qed

lemma stitch_loop_stream:
  assumes "linked q" and "j < length q"
  shows "linked (stitch_loop j q) \<and> qstream m (stitch_loop j q) = qstream m q
    \<and> qbytes (stitch_loop j q) = qbytes q \<and> length (stitch_loop j q) = length q"
  using assms
proof (induction j arbitrary: q)
  case (Suc j)
  then show ?case using stitch_pair_stream [of q j m] Suc.IH [of "stitch_pair j q"] by auto
qed simp

lemma butlast_stream:
  assumes "q \<noteq> []" and "sb_length (last q) = 0"
  shows "qstream m (butlast q) = qstream m q \<and> qbytes (butlast q) = qbytes q"
proof -
  have "qstream m q = qstream m (butlast q @ [last q])" "qbytes q = qbytes (butlast q @ [last q])"
    using assms(1) by simp_all
  then show ?thesis using assms(2) by (simp only: qstream_simps qbytes_simps) (simp add: content_def)
qed

lemma linked_butlast: "linked q \<Longrightarrow> linked (butlast q)"
  by (cases q rule: rev_cases) (auto simp: linked_snoc)

lemma stitch_stream:
  assumes "linked q"
  shows "linked (stitch q) \<and> qstream m (stitch q) = qstream m q \<and> qbytes (stitch q) = qbytes q
    \<and> length (stitch q) \<le> length q"
proof (cases "length q \<le> 1")
  case False
  define r where "r = stitch_loop (length q - 1) q"
  have r: "linked r" "qstream m r = qstream m q" "qbytes r = qbytes q" "length r = length q"
    using stitch_loop_stream [OF assms, of "length q - 1" m] False by (auto simp: r_def)
  moreover have "r \<noteq> []" using r(4) False by auto
  moreover have "stitch q = butlast r \<and> sb_length (last r) = 0 \<or> stitch q = r"
    using False by (auto simp: stitch_def Let_def r_def)
  ultimately show ?thesis
    using butlast_stream [of r m] linked_butlast [of r] by auto
qed (use assms in \<open>simp add: stitch_def\<close>)

text \<open>An accumulation buffer at the front is never stitched.\<close>

lemma stitch_pair_Cons: "stitch_pair (Suc j) (a # r) = a # stitch_pair j r"
  by (simp add: stitch_pair_def Let_def)

lemma stitch_loop_Cons:
  assumes "sb_last a = 0" and "j < length r"
  shows "stitch_loop (Suc j) (a # r) = a # stitch_loop j r"
  using assms(2)
proof (induction j arbitrary: r)
  case 0
  then show ?case using assms(1) by (simp add: stitch_pair_def Let_def)
next
  case (Suc j)
  then have "stitch_loop (Suc j) (a # stitch_pair j r) = a # stitch_loop j (stitch_pair j r)"
    by (intro Suc.IH) simp
  then show ?case by (simp only: stitch_loop.simps stitch_pair_Cons)
qed

lemma stitch_sound:
  assumes "sound_links q"
  shows "sound_links (stitch q) \<and> qstream m (stitch q) = qstream m q \<and> qbytes (stitch q) = qbytes q
    \<and> length (stitch q) \<le> length q"
proof (cases "linked q \<or> length q \<le> 1")
  case True
  then show ?thesis
    using stitch_stream [of q m] assms by (auto simp: sound_links_def stitch_def)
next
  case False
  then obtain a r where q: "q = a # r" and a: "sb_last a = 0" "sb_memory a \<noteq> 0" "linked r" and r: "r \<noteq> []"
    using assms by (auto simp: sound_links_def split: list.splits)
  define s where "s = stitch_loop (length r - 1) r"
  have s: "linked s" "qstream m s = qstream m r" "qbytes s = qbytes r" "length s = length r"
    using stitch_loop_stream [OF a(3), of "length r - 1" m] r by (auto simp: s_def)
  have "stitch_loop (length q - 1) q = a # s"
    using stitch_loop_Cons [OF a(1), of "length r - 1" r] r by (simp add: q s_def)
  then have "stitch q = a # butlast s \<and> sb_length (last s) = 0 \<or> stitch q = a # s"
    using r s(4) by (auto simp: stitch_def Let_def q)
  moreover have "s \<noteq> []" using r s(4) by auto
  ultimately show ?thesis
    using s a butlast_stream [of s m] linked_butlast [of s] by (auto simp: sound_links_def q)
qed

lemma sound_links_snoc:
  assumes "sound_links q" and "sb_memory b \<noteq> 0" and "q = [] \<or> good_link b"
  shows "sound_links (q @ [b])"
  using assms linked_snoc [of q b] linked_snoc [of "tl q" b] by (cases q) (auto simp: sound_links_def)

section \<open>The idle accounting\<close>

text \<open>With a clock that does not run backwards, the accounted idle time never exceeds the time
  since construction; while a port is not ready it does not exceed the time up to the moment
  it became idle. The ASSERT in \<open>__update\<close> states the first half.\<close>

definition time_inv :: "int \<Rightarrow> iport \<Rightarrow> world \<Rightarrow> bool" where
  "time_inv t0 p w \<longleftrightarrow>
     monotone_clock w \<and> ip_idle p \<le> w_clock w (w_reads w) - t0
     \<and> ip_became_idle p \<le> w_clock w (w_reads w) \<and> t0 \<le> ip_became_idle p
     \<and> (\<not> ip_ready p \<longrightarrow> ip_idle p \<le> ip_became_idle p - t0)"

lemma monotone_clock_frame: "w_clock w' = w_clock w \<Longrightarrow> monotone_clock w' \<longleftrightarrow> monotone_clock w"
  by (simp add: monotone_clock_def)

lemma monotone_clock_reads [simp]: "monotone_clock (w\<lparr>w_reads := n\<rparr>) \<longleftrightarrow> monotone_clock w"
  by (simp add: monotone_clock_def)

lemma iq_update_total:
  assumes "time_inv t0 p w"
  shows "\<exists>p' w'. iq_update t0 p w = Inr (p', w') \<and> time_inv t0 p' w'"
proof -
  let ?n = "w_reads w"
  have m: "w_clock w ?n \<le> w_clock w (Suc ?n)" "w_clock w ?n \<le> w_clock w (Suc (Suc ?n))"
    "w_clock w (Suc ?n) \<le> w_clock w (Suc (Suc ?n))"
    using assms by (auto simp: time_inv_def monotone_clock_def)
  show ?thesis
    using assms m
    by (cases "ip_ready p"; cases "ip_reserve p \<le> ip_enqueued p")
      (auto simp: iq_update_def time_now_def time_inv_def Let_def assertE_def)
qed

lemma iq_update_time_inv:
  "time_inv t0 p w \<Longrightarrow> iq_update t0 p w = Inr (p', w') \<Longrightarrow> time_inv t0 p' w'"
  using iq_update_total by fastforce

text \<open>Fields outside the accounting, and a forced readiness, do not matter to it.\<close>

lemma time_inv_cong:
  assumes "time_inv t0 p w" and "ip_idle p' = ip_idle p" and "ip_became_idle p' = ip_became_idle p"
    and "ip_ready p' = ip_ready p \<or> ip_ready p'" and "w_clock w' = w_clock w" and "w_reads w' = w_reads w"
  shows "time_inv t0 p' w'"
  using assms monotone_clock_frame [of w' w] by (auto simp: time_inv_def)

lemma iq_fail_time_inv:
  assumes "time_inv t0 p w" and "iq_fail p w = (p', w')"
  shows "time_inv t0 p' w'"
proof -
  have "w_clock w (w_reads w) \<le> w_clock w (Suc (w_reads w))"
    using assms(1) by (auto simp: time_inv_def monotone_clock_def)
  then show ?thesis
    using assms by (auto simp: iq_fail_def time_now_def time_inv_def)
qed

section \<open>Push\<close>

text \<open>What a successful push does to the data.\<close>

lemma iq_push_effect:
  assumes "iq_push t0 b p w = Inr (p', w')"
    and "port_inv p" and "sound_links (ip_queue p)" and "ip_queue p = [] \<or> good_link b"
    and "sb_memory b \<noteq> 0"
    and "ip_enqueued p + sb_length b < size_mod" and "length (ip_queue p) * 2 < size_mod"
  shows "stream (w_mem w') p' = stream (w_mem w) p @ content (w_mem w) b
    \<and> port_inv p' \<and> sound_links (ip_queue p') \<and> (linked (ip_queue p) \<longrightarrow> linked (ip_queue p'))
    \<and> w_mem w' = w_mem w"
proof (cases "sb_length b = 0")
  case True
  with assms show ?thesis
    by (auto simp: iq_push_def Let_def res_simps stream_def content_def port_inv_def sz_mul_exact
        split: if_splits)
next
  case False
  define p1 where "p1 = (if ip_cap p = length (ip_queue p)
     then p\<lparr>ip_cap := sz_mul (length (ip_queue p)) 2\<rparr> else p)"
  define p2 where "p2 = p1\<lparr>ip_queue := ip_queue p @ [b],
     ip_enqueued := ip_enqueued p + sb_length b\<rparr>"
  have q1: "ip_queue p1 = ip_queue p" "ip_enqueued p1 = ip_enqueued p"
    by (simp_all add: p1_def)
  have cap: "length (ip_queue p) < ip_cap p1"
    using assms by (auto simp: p1_def port_inv_def sz_mul_exact)
  obtain p3 where u: "iq_update t0 p2 w = Inr (p3, w')"
    and p': "p' = p3\<lparr>ip_queue := stitch (ip_queue p3)\<rparr>"
    using assms(1,6) False cap
    by (auto simp: iq_push_def res_simps Let_def p2_def q1 exact_sz simp flip: p1_def)
  note f = iq_update_frame [OF u]
  have q2: "ip_queue p2 = ip_queue p @ [b]" by (simp add: p2_def)
  have l: "sound_links (ip_queue p2)" "linked (ip_queue p) \<Longrightarrow> linked (ip_queue p2)"
    using assms(3-5) sound_links_snoc by (auto simp: q2 linked_snoc)
  show ?thesis
    using stitch_sound [OF l(1), of "w_mem w"] stitch_stream [OF l(2), of "w_mem w"] f cap assms(2,6)
    by (auto simp: p' stream_def p2_def port_inv_def)
qed

lemma iq_push_total:
  assumes "time_inv t0 p w" and "port_inv p" and "length (ip_queue p) * 2 < size_mod"
  shows "\<exists>p' w'. iq_push t0 b p w = Inr (p', w') \<and> time_inv t0 p' w'"
proof -
  define p1 where "p1 = (if ip_cap p = length (ip_queue p)
     then p\<lparr>ip_cap := sz_mul (length (ip_queue p)) 2\<rparr> else p)"
  have cap: "ip_cap p1 \<noteq> length (ip_queue p1)"
    using assms by (auto simp: p1_def port_inv_def sz_mul_exact)
  define p2 where "p2 = p1\<lparr>ip_queue := ip_queue p1 @ [b],
     ip_enqueued := sz_add (ip_enqueued p1) (sb_length b)\<rparr>"
  have t: "time_inv t0 p1 w" "time_inv t0 p2 w"
    using assms(1) by (auto simp: p1_def p2_def elim!: time_inv_cong)
  obtain p3 w3 where u: "iq_update t0 p2 w = Inr (p3, w3)" "time_inv t0 p3 w3"
    using iq_update_total [OF t(2)] by blast
  have "time_inv t0 (p3\<lparr>ip_queue := stitch (ip_queue p3)\<rparr>) w3"
    using u(2) by (auto elim: time_inv_cong)
  then show ?thesis
    using cap t(1) u by (auto simp: iq_push_def Let_def simp flip: p1_def p2_def)
qed

section \<open>Consume\<close>

text \<open>The unstitching moves the bytes of the front into the next buffer, which is right
  when the bytes just before the next buffer's first byte are those of the front.\<close>

lemma unstitch_stream:
  assumes q: "ip_queue p = b0 # b1 # q"
    and fits: "sb_length b0 \<le> sb_offset b1" and link: "sb_get b0 (sb_length b0) = sb_last b1"
  shows "stream m (unstitch p w) =
     bytes m (sb_get b1 0 - sb_length b0) (sb_length b0) @ content m b1 @ qstream m q"
proof -
  have "sb_get b1 0 - sb_length b0 + sb_length b0 = sb_get b1 0"
    using fits by (simp add: sb_get_def)
  then have "content m (b1\<lparr>sb_offset := sb_offset b1 - sb_length b0,
        sb_length := sb_length b1 + sb_length b0\<rparr>)
      = bytes m (sb_get b1 0 - sb_length b0) (sb_length b0) @ content m b1"
    using fits bytes_add [of m "sb_get b1 0 - sb_length b0" "sb_length b0" "sb_length b1"]
    by (simp add: content_def sb_get_def add.commute)
  then show ?thesis using q fits link by (simp add: unstitch_def stream_def)
qed

lemma unstitch_linked:
  assumes "linked (ip_queue p)"
  shows "stream m (unstitch p w) = stream m p \<and> qbytes (ip_queue (unstitch p w)) = qbytes (ip_queue p)
    \<and> linked (ip_queue (unstitch p w)) \<and> length (ip_queue (unstitch p w)) \<le> length (ip_queue p)"
proof (cases "\<exists>b0 b1 q. ip_queue p = b0 # b1 # q \<and> sb_length b0 \<le> sb_offset b1
    \<and> sb_get b0 (sb_length b0) = sb_last b1")
  case True
  then obtain b0 b1 q where q: "ip_queue p = b0 # b1 # q" "sb_length b0 \<le> sb_offset b1"
    "sb_get b0 (sb_length b0) = sb_last b1" by blast
  with assms have "sb_get b1 0 = sb_get b0 (sb_length b0)"
    by (auto simp: good_link_def sb_get_def)
  then have "sb_get b1 0 - sb_length b0 = sb_get b0 0"
    by (simp add: sb_get_def)
  then have "stream m (unstitch p w) = stream m p"
    using unstitch_stream [OF q, of m w] by (simp add: stream_def q(1)) (simp add: content_def)
  moreover have "linked (ip_queue (unstitch p w))"
    using assms q by (cases q) (auto simp: unstitch_def)
  ultimately show ?thesis using q by (auto simp: unstitch_def)
next
  case False
  then have "unstitch p w = p"
    by (auto simp: unstitch_def split: list.splits)
  with assms show ?thesis by simp
qed

lemma unstitch_frame [simp]:
  "ip_enqueued (unstitch p w) = ip_enqueued p" "ip_cap (unstitch p w) = ip_cap p"
  "ip_item_size (unstitch p w) = ip_item_size p" "ip_reserve (unstitch p w) = ip_reserve p"
  "ip_ready (unstitch p w) = ip_ready p" "ip_idle (unstitch p w) = ip_idle p"
  "ip_became_idle (unstitch p w) = ip_became_idle p"
  by (simp_all add: unstitch_def split: list.splits)

text \<open>The port after the front has been advanced by \<open>n\<close> bytes, before \<open>__update\<close>.\<close>

definition advanced :: "nat \<Rightarrow> iport \<Rightarrow> world \<Rightarrow> iport" where
  "advanced n p w =
     (let front = hd (ip_queue p);
          front = front\<lparr>sb_offset := sb_offset front + n, sb_length := sb_length front - n\<rparr>;
          p = p\<lparr>ip_queue := front # tl (ip_queue p)\<rparr>
      in (if sb_length front = 0 then pop_front p w else p)\<lparr>ip_enqueued := ip_enqueued p - n\<rparr>)"

lemma iq_consume_eq_Inr:
  "iq_consume t0 items p w = Inr r \<longleftrightarrow>
     (let n = sz_mul items (ip_item_size p)
      in ip_queue p \<noteq> [] \<and> ip_item_size p \<noteq> 0 \<and> n mod ip_item_size p = 0
         \<and> n \<le> sb_length (hd (ip_queue p))
         \<and> (sb_length (hd (ip_queue p)) - n) mod ip_item_size p = 0 \<and> n \<le> ip_enqueued p
         \<and> bindE (iq_update t0 (advanced n p w) w) (\<lambda>(p, w). Inr (unstitch p w, w)) = Inr r)"
  by (auto simp: iq_consume_def advanced_def Let_def assertE_def)

lemma advanced_stream:
  assumes "port_inv p" and "linked (ip_queue p)" and "ip_queue p \<noteq> []"
    and "n \<le> sb_length (hd (ip_queue p))"
  shows "stream m (advanced n p w) = drop n (stream m p) \<and> port_inv (advanced n p w)
    \<and> linked (ip_queue (advanced n p w))"
proof -
  obtain b q where q: "ip_queue p = b # q" using assms(3) by (cases "ip_queue p") auto
  have n: "n \<le> sb_length b" using assms(4) q by simp
  have "linked (b\<lparr>sb_offset := x, sb_length := y\<rparr> # q)" "linked q" for x y
    using assms(2) q by (cases q; auto)+
  moreover have "drop n (stream m p) = drop n (content m b) @ qstream m q"
    using n by (simp add: stream_def q)
  moreover have "n = sb_length b \<Longrightarrow> drop n (content m b) = []"
    by simp
  ultimately show ?thesis
    using assms(1) n content_drop [OF n, of m]
    by (auto simp: advanced_def Let_def q stream_def port_inv_def)
qed

text \<open>A successful consume drops exactly the consumed bytes, when every link is sound.\<close>

lemma iq_consume_effect:
  assumes "iq_consume t0 items p w = Inr (p', w')" and "port_inv p" and "linked (ip_queue p)"
  shows "stream (w_mem w') p' = drop (sz_mul items (ip_item_size p)) (stream (w_mem w) p)
    \<and> port_inv p' \<and> linked (ip_queue p') \<and> w_mem w' = w_mem w"
proof -
  let ?n = "sz_mul items (ip_item_size p)"
  obtain p1 where u: "iq_update t0 (advanced ?n p w) w = Inr (p1, w')" and p': "p' = unstitch p1 w'"
    and c: "ip_queue p \<noteq> []" "?n \<le> sb_length (hd (ip_queue p))"
    using assms(1) by (auto simp: iq_consume_eq_Inr Let_def res_simps)
  note f = iq_update_frame [OF u]
  note a = advanced_stream [OF assms(2,3) c, of "w_mem w" w]
  have "linked (ip_queue p1)" "port_inv p1" "stream (w_mem w') p1 = drop ?n (stream (w_mem w) p)"
    using f a by (auto simp: port_inv_def stream_def)
  with unstitch_linked [of p1 "w_mem w'" w'] f show ?thesis
    by (auto simp: p' port_inv_def)
qed

lemma hd_le_qbytes: "q \<noteq> [] \<Longrightarrow> sb_length (hd q) \<le> qbytes q"
  by (cases q) auto

lemma advanced_time_inv: "time_inv t0 p w \<Longrightarrow> time_inv t0 (advanced n p w) w"
  by (rule time_inv_cong [of t0 p w]) (auto simp: advanced_def Let_def)

lemma iq_consume_total:
  assumes "time_inv t0 p w" and "port_inv p" and "ip_queue p \<noteq> []" and "ip_item_size p \<noteq> 0"
    and "items * ip_item_size p \<le> sb_length (hd (ip_queue p))"
    and "sb_length (hd (ip_queue p)) mod ip_item_size p = 0"
  shows "\<exists>p' w'. iq_consume t0 items p w = Inr (p', w') \<and> time_inv t0 p' w'"
proof -
  let ?n = "items * ip_item_size p"
  have n: "?n \<le> ip_enqueued p" "?n < size_mod"
    using assms(2,3,5) hd_le_qbytes [of "ip_queue p"] by (auto simp: port_inv_def)
  have z: "sz_mul items (ip_item_size p) = ?n"
    using n(2) by (simp add: sz_mul_exact)
  have m: "(sb_length (hd (ip_queue p)) - ?n) mod ip_item_size p = 0"
    using assms(5,6) by (metis dvd_diff_nat dvd_imp_mod_0 dvd_triv_right mod_0_imp_dvd)
  obtain p1 w1 where u: "iq_update t0 (advanced ?n p w) w = Inr (p1, w1)" "time_inv t0 p1 w1"
    using iq_update_total [OF advanced_time_inv [OF assms(1)]] by blast
  have "time_inv t0 (unstitch p1 w1) w1"
    using u(2) by (rule time_inv_cong) simp_all
  moreover have "iq_consume t0 items p w = Inr (unstitch p1 w1, w1)"
    using assms n m u(1) by (auto simp: iq_consume_eq_Inr Let_def z)
  ultimately show ?thesis by blast
qed

end
