(* ===== verification/Input_Accumulate.thy ===== *)
theory Input_Accumulate
  imports Input_Stream
begin

text \<open>
  \<open>InputBufferQueues::accumulate\<close>: the queued buffers are copied into one auxiliary buffer,
  which is put back at the front. The stream is preserved when the auxiliary memory is apart
  from the queued data; the closing \<open>ASSERT(this->is_accumulated(i))\<close> holds when the
  maximum size is a multiple of the item size, and fails otherwise as soon as more than the
  rounded-down maximum is queued.
\<close>

section \<open>The copying loop\<close>

text \<open>The free part and the valid part of the accumulation buffer share no byte with any queued
  buffer.\<close>

definition acc_apart :: "sbuffer \<Rightarrow> nat \<Rightarrow> sbuffer list \<Rightarrow> bool" where
  "acc_apart a n q \<longleftrightarrow> (\<forall>b \<in> set q. apart (sb_get b 0) (sb_length b) (sb_get a 0) n)"

lemma qstream_memcpy_apart:
  "\<forall>b \<in> set q. apart (sb_get b 0) (sb_length b) d n \<Longrightarrow> qstream (memcpy m d s n) q = qstream m q"
  by (induction q) (auto simp: content_def bytes_memcpy_apart)

text \<open>One turn moves the first bytes of the front to the end of the accumulation buffer.\<close>

lemma acc_turn_stream:
  fixes m :: memory
  assumes ap: "acc_apart a (sb_length a + free) (f # q)" and n: "n \<le> sb_length f" "n \<le> free"
  defines "m' \<equiv> memcpy m (sb_get a (sb_length a)) (sb_get f 0) n"
  defines "a' \<equiv> a\<lparr>sb_length := sb_length a + n\<rparr>"
  defines "f' \<equiv> f\<lparr>sb_offset := sb_offset f + n, sb_length := sb_length f - n\<rparr>"
  shows "content m' a' @ qstream m' (f' # q) = content m a @ qstream m (f # q)"
proof -
  have d: "apart (sb_get b x) k (sb_get a (sb_length a)) n"
    if "b \<in> set (f # q)" "x + k \<le> sb_length b" for b x k
    using ap that n(2) unfolding acc_apart_def
    by (auto simp: sb_get_def intro: apart_sub)
  have "content m' a' = content m a @ bytes m (sb_get f 0) n"
    unfolding a'_def m'_def content_append
    by (simp add: content_def bytes_memcpy_apart apart_def sb_get_def)
  moreover have "content m' f' = bytes m (sb_get f 0 + n) (sb_length f - n)"
    using d [of f n "sb_length f - n"] n(1)
    by (simp add: f'_def m'_def content_def sb_get_def bytes_memcpy_apart add.assoc)
  moreover have "qstream m' q = qstream m q"
    unfolding m'_def using d [of _ 0] by (intro qstream_memcpy_apart) auto
  moreover have "content m f = bytes m (sb_get f 0) n @ bytes m (sb_get f 0 + n) (sb_length f - n)"
    using n(1) by (simp add: content_def bytes_split)
  ultimately show ?thesis by simp
qed

lemma acc_loop_stop: "ip_queue p = [] \<or> free = 0 \<Longrightarrow> acc_loop p w a free = (p, w, a)"
  by (subst acc_loop.simps) simp

text \<open>The unfolding of one turn, with the names of the parts.\<close>

definition acc_front :: "sbuffer \<Rightarrow> sbuffer \<Rightarrow> nat \<Rightarrow> sbuffer" where
  "acc_front a f n =
     f\<lparr>sb_length := sb_length f - n, sb_offset := sb_offset f + n,
       sb_last := sb_get a (sb_length a + n)\<rparr>"

definition acc_turn :: "iport \<Rightarrow> world \<Rightarrow> sbuffer \<Rightarrow> nat \<Rightarrow> iport" where
  "acc_turn p w a n =
     (let f = acc_front a (hd (ip_queue p)) n;
          p = p\<lparr>ip_copied := sz_add (ip_copied p) n, ip_queue := f # tl (ip_queue p)\<rparr>
      in if sb_length f = 0 then pop_front p w else p)"

lemma acc_loop_step:
  assumes "ip_queue p = f # q" and "free \<noteq> 0" and "n = min (sb_length f) free"
  shows "acc_loop p w a free =
    acc_loop
      (acc_turn p (w\<lparr>w_mem := memcpy (w_mem w) (sb_get a (sb_length a)) (sb_get f 0) n\<rparr>) a n)
      (w\<lparr>w_mem := memcpy (w_mem w) (sb_get a (sb_length a)) (sb_get f 0) n\<rparr>)
      (a\<lparr>sb_length := sb_length a + n\<rparr>) (free - n)"
proof -
  have g: "sb_get (a\<lparr>sb_length := k\<rparr>) x = sb_get a x" for k x
    by (simp add: sb_get_def)
  show ?thesis
    by (subst acc_loop.simps) (simp add: assms Let_def acc_turn_def acc_front_def g)
qed

lemma acc_turn_queue:
  "ip_queue p = f # q \<Longrightarrow>
     ip_queue (acc_turn p w a n) = (if sb_length f - n = 0 then q else acc_front a f n # q)"
  by (simp add: acc_turn_def Let_def acc_front_def)

lemma acc_turn_frame [simp]:
  "ip_enqueued (acc_turn p w a n) = ip_enqueued p" "ip_cap (acc_turn p w a n) = ip_cap p"
  "ip_item_size (acc_turn p w a n) = ip_item_size p" "ip_reserve (acc_turn p w a n) = ip_reserve p"
  "ip_maximum (acc_turn p w a n) = ip_maximum p" "ip_ready (acc_turn p w a n) = ip_ready p"
  "ip_idle (acc_turn p w a n) = ip_idle p" "ip_became_idle (acc_turn p w a n) = ip_became_idle p"
  "ip_preload (acc_turn p w a n) = ip_preload p"
  by (simp_all add: acc_turn_def Let_def)

text \<open>An induction rule for the loop in terms of \<open>acc_turn\<close>.\<close>

lemma acc_loop_induct [case_names stop turn]:
  assumes stop: "\<And>p w a free. ip_queue p = [] \<or> free = 0 \<Longrightarrow> P p w a free (p, w, a)"
    and turn: "\<And>p w a free f q n m r.
      ip_queue p = f # q \<Longrightarrow> free \<noteq> 0 \<Longrightarrow> n = min (sb_length f) free \<Longrightarrow>
      m = memcpy (w_mem w) (sb_get a (sb_length a)) (sb_get f 0) n \<Longrightarrow>
      P (acc_turn p (w\<lparr>w_mem := m\<rparr>) a n) (w\<lparr>w_mem := m\<rparr>) (a\<lparr>sb_length := sb_length a + n\<rparr>) (free - n) r
      \<Longrightarrow> P p w a free r"
  shows "P p w a free (acc_loop p w a free)"
proof (induction "length (ip_queue p) + free" arbitrary: p w a free rule: less_induct)
  case less
  show ?case
  proof (cases "ip_queue p = [] \<or> free = 0")
    case True
    then show ?thesis using stop by (simp add: acc_loop_stop)
  next
    case False
    then obtain f q where q: "ip_queue p = f # q" by (cases "ip_queue p") auto
    define n where "n = min (sb_length f) free"
    define m where "m = memcpy (w_mem w) (sb_get a (sb_length a)) (sb_get f 0) n"
    let ?p = "acc_turn p (w\<lparr>w_mem := m\<rparr>) a n"
    have "length (ip_queue ?p) + (free - n) < length (ip_queue p) + free"
      using False by (auto simp: acc_turn_queue [OF q] q n_def min_def)
    from less [OF this] have
      "P ?p (w\<lparr>w_mem := m\<rparr>) (a\<lparr>sb_length := sb_length a + n\<rparr>) (free - n)
         (acc_loop ?p (w\<lparr>w_mem := m\<rparr>) (a\<lparr>sb_length := sb_length a + n\<rparr>) (free - n))" .
    from turn [OF q _ n_def m_def this] False show ?thesis
      by (simp add: acc_loop_step [OF q _ n_def] m_def)
  qed
qed

section \<open>Result of the copying loop\<close>

lemma acc_loop_frame:
  "case acc_loop p w a free of (p', w', a') \<Rightarrow>
     ip_enqueued p' = ip_enqueued p \<and> ip_cap p' = ip_cap p \<and> ip_item_size p' = ip_item_size p
     \<and> ip_reserve p' = ip_reserve p \<and> ip_maximum p' = ip_maximum p \<and> ip_ready p' = ip_ready p
     \<and> ip_idle p' = ip_idle p \<and> ip_became_idle p' = ip_became_idle p \<and> ip_preload p' = ip_preload p
     \<and> w_brk w' = w_brk w \<and> w_clock w' = w_clock w \<and> w_reads w' = w_reads w
     \<and> w_held w' = w_held w \<and> w_impl w' = w_impl w"
  by (rule acc_loop_induct [where P = "\<lambda>p w a free r. case r of (p', w', a') \<Rightarrow>
     ip_enqueued p' = ip_enqueued p \<and> ip_cap p' = ip_cap p \<and> ip_item_size p' = ip_item_size p
     \<and> ip_reserve p' = ip_reserve p \<and> ip_maximum p' = ip_maximum p \<and> ip_ready p' = ip_ready p
     \<and> ip_idle p' = ip_idle p \<and> ip_became_idle p' = ip_became_idle p \<and> ip_preload p' = ip_preload p
     \<and> w_brk w' = w_brk w \<and> w_clock w' = w_clock w \<and> w_reads w' = w_reads w
     \<and> w_held w' = w_held w \<and> w_impl w' = w_impl w"]) auto

text \<open>How much is copied, and what is left in the queue.\<close>

lemma acc_loop_amount:
  "case acc_loop p w a free of (p', w', a') \<Rightarrow>
     a' = a\<lparr>sb_length := sb_length a + min free (qbytes (ip_queue p))\<rparr>
     \<and> qbytes (ip_queue p') = qbytes (ip_queue p) - free
     \<and> length (ip_queue p') \<le> length (ip_queue p)
     \<and> (qbytes (ip_queue p) < free \<longrightarrow> ip_queue p' = [])
     \<and> (linked (ip_queue p) \<longrightarrow> linked (ip_queue p'))"
proof (induction rule: acc_loop_induct)
  case (stop p w a free)
  then show ?case by auto
next
  case (turn p w a free f q n m r)
  have l: "linked (ip_queue (acc_turn p (w\<lparr>w_mem := m\<rparr>) a n))" if "linked (ip_queue p)"
    using that turn.hyps(1) by (cases q) (auto simp: acc_turn_queue acc_front_def)
  have b: "qbytes (ip_queue (acc_turn p (w\<lparr>w_mem := m\<rparr>) a n)) = qbytes (ip_queue p) - n"
    using turn.hyps(1,3) by (simp add: acc_turn_queue acc_front_def)
  have n: "n \<le> qbytes (ip_queue p)" "n \<le> free"
    using turn.hyps(1,3) by auto
  have len: "length (ip_queue (acc_turn p (w\<lparr>w_mem := m\<rparr>) a n)) \<le> length (ip_queue p)"
    using turn.hyps(1) by (simp add: acc_turn_queue)
  show ?case
    using turn.IH n len l unfolding b
    by (auto simp: min_def split: prod.splits if_splits)
qed

text \<open>The front buffer, if it fits, is copied and popped.\<close>

lemma acc_loop_pops:
  assumes "ip_queue p = f # q" and "free \<noteq> 0" and "sb_length f \<le> free"
  shows "case acc_loop p w a free of (p', w', a') \<Rightarrow>
     length (ip_queue p') < length (ip_queue p) \<and> (linked q \<longrightarrow> linked (ip_queue p'))"
proof -
  define n where "n = min (sb_length f) free"
  define m where "m = memcpy (w_mem w) (sb_get a (sb_length a)) (sb_get f 0) n"
  have "ip_queue (acc_turn p (w\<lparr>w_mem := m\<rparr>) a n) = q"
    using assms by (simp add: acc_turn_queue n_def)
  then show ?thesis
    using acc_loop_step [OF assms(1,2) n_def, of w a]
      acc_loop_amount [where p = "acc_turn p (w\<lparr>w_mem := m\<rparr>) a n" and w = "w\<lparr>w_mem := m\<rparr>"
        and a = "a\<lparr>sb_length := sb_length a + n\<rparr>" and free = "free - n"]
    by (auto simp: assms(1) simp flip: m_def split: prod.splits)
qed

text \<open>The bytes of the accumulation buffer followed by those of the queue do not change.\<close>

lemma acc_loop_stream:
  "acc_apart a (sb_length a + free) (ip_queue p) \<longrightarrow>
   (case acc_loop p w a free of (p', w', a') \<Rightarrow>
     content (w_mem w') a' @ stream (w_mem w') p' = content (w_mem w) a @ stream (w_mem w) p)"
proof (induction rule: acc_loop_induct)
  case (stop p w a free)
  then show ?case by simp
next
  case (turn p w a free f q n m r)
  show ?case
  proof
    assume ap: "acc_apart a (sb_length a + free) (ip_queue p)"
    have n: "n \<le> sb_length f" "n \<le> free" using turn.hyps(3) by auto
    let ?a = "a\<lparr>sb_length := sb_length a + n\<rparr>"
    have front: "content m' (acc_front a f n) =
        content m' (f\<lparr>sb_offset := sb_offset f + n, sb_length := sb_length f - n\<rparr>)" for m'
      by (simp add: acc_front_def content_def sb_get_def)
    have "acc_apart ?a (sb_length ?a + (free - n)) (ip_queue (acc_turn p (w\<lparr>w_mem := m\<rparr>) a n))"
      using ap n turn.hyps(1)
      by (auto simp: acc_apart_def acc_turn_queue acc_front_def sb_get_def intro: apart_sub)
    then have "case r of (p', w', a') \<Rightarrow> content (w_mem w') a' @ stream (w_mem w') p'
        = content m ?a @ stream m (acc_turn p (w\<lparr>w_mem := m\<rparr>) a n)"
      using turn.IH by simp
    moreover have "content m ?a @ qstream m (acc_front a f n # q)
        = content (w_mem w) a @ qstream (w_mem w) (f # q)"
      using acc_turn_stream [OF _ n, of a q "w_mem w"] ap
      by (simp add: turn.hyps(1,4) front)
    moreover have "stream m (acc_turn p (w\<lparr>w_mem := m\<rparr>) a n) = qstream m (acc_front a f n # q)"
      by (auto simp: stream_def acc_turn_queue [OF turn.hyps(1)]) (simp add: content_def acc_front_def)
    ultimately show "case r of (p', w', a') \<Rightarrow> content (w_mem w') a' @ stream (w_mem w') p'
        = content (w_mem w) a @ stream (w_mem w) p"
      by (simp add: stream_def turn.hyps(1))
  qed
qed

section \<open>accumulate\<close>

text \<open>What \<open>accumulate\<close> relies on: an auxiliary queue of buffers of the maximum size whose memory
  is apart from the queued data, and queued data below the heap's break.\<close>

definition aux_inv :: "iport \<Rightarrow> world \<Rightarrow> bool" where
  "aux_inv p w \<longleftrightarrow>
     0 < w_brk w \<and> (\<forall>b \<in> set (ip_queue p). sb_get b 0 + sb_length b \<le> w_brk w)
     \<and> (case ip_aux p of None \<Rightarrow> False
        | Some (tok, bs) \<Rightarrow> \<forall>a \<in> set bs. sb_memory a \<noteq> 0 \<and> sb_last a = 0 \<and> sb_actual a = ip_maximum p
            \<and> (\<forall>b \<in> set (ip_queue p). apart (sb_get b 0) (sb_length b) (sb_memory a) (sb_actual a)))"

definition acc_free :: "iport \<Rightarrow> nat" where
  "acc_free p = ip_maximum p div ip_item_size p * ip_item_size p"

lemma acc_free_le: "acc_free p \<le> ip_maximum p"
  by (simp add: acc_free_def)

lemma acc_free_fits:
  assumes "n mod ip_item_size p = 0" and "n \<le> ip_maximum p"
  shows "n \<le> acc_free p"
  using assms div_le_mono [OF assms(2), of "ip_item_size p"]
  by (metis acc_free_def div_mult_mod_eq add.right_neutral mult_le_mono1)

lemma aux_allocate_one_fresh:
  assumes "aux_allocate_one tok n w = (b, w')"
  shows "w_brk w \<le> sb_memory b \<and> sb_memory b + n \<le> w_brk w' \<and> sb_actual b = n
    \<and> sb_offset b = 0 \<and> sb_length b = 0 \<and> sb_last b = 0 \<and> sb_token b = Some tok
    \<and> w_mem w' = w_mem w \<and> w_clock w' = w_clock w \<and> w_reads w' = w_reads w \<and> w_held w' = w_held w"
proof -
  let ?c = "default_sbuffer_config\<lparr>cfg_length := n, cfg_token := Some tok\<rparr>"
  let ?w = "w\<lparr>w_impl := Suc (w_impl w)\<rparr>"
  obtain c' w2 where h: "heap_allocator ?c ?w = (c', w2)" by fastforce
  have "w_mem w2 = w_mem w" "w_clock w2 = w_clock w" "w_reads w2 = w_reads w" "w_held w2 = w_held w"
    "cfg_token c' = Some tok"
    using h by (auto simp: heap_allocator_def Let_def)
  with heap_allocator_aligned [OF h] h assms show ?thesis
    by (auto simp: aux_allocate_one_def make_sbuffer_def default_allocator_def default_sbuffer_config_def
        Let_def split: prod.splits)
qed

text \<open>The buffer \<open>accumulate\<close> copies into, and the port and world with it taken out.\<close>

definition take_aux :: "iport \<Rightarrow> world \<Rightarrow> sbuffer \<times> iport \<times> world" where
  "take_aux p w =
     (let (tok, bs) = the (ip_aux p);
          (bs, w) = (if bs = []
                     then let (b, w) = aux_allocate_one tok (ip_maximum p) w in ([b], w)
                     else (bs, w))
      in ((hd bs)\<lparr>sb_offset := 0, sb_length := 0\<rparr>, p\<lparr>ip_aux := Some (tok, tl bs)\<rparr>, w))"

lemma take_aux_inv:
  assumes "aux_inv p w" and "take_aux p w = (a, p', w')"
  shows "sb_memory a \<noteq> 0 \<and> sb_last a = 0 \<and> sb_offset a = 0 \<and> sb_length a = 0 \<and> sb_actual a = ip_maximum p
    \<and> acc_apart a (ip_maximum p) (ip_queue p) \<and> w_mem w' = w_mem w
    \<and> w_clock w' = w_clock w \<and> w_reads w' = w_reads w \<and> w_held w' = w_held w"
proof -
  obtain tok bs where aux: "ip_aux p = Some (tok, bs)"
    using assms(1) by (auto simp: aux_inv_def split: option.splits)
  show ?thesis
  proof (cases bs)
    case Nil
    obtain b w1 where b: "aux_allocate_one tok (ip_maximum p) w = (b, w1)" by fastforce
    from assms(2) have eq: "a = b\<lparr>sb_offset := 0, sb_length := 0\<rparr>" "w' = w1"
      by (auto simp: take_aux_def aux Nil b)
    note f = aux_allocate_one_fresh [OF b]
    have "apart (sb_get x 0) (sb_length x) (sb_memory b) (ip_maximum p)" if "x \<in> set (ip_queue p)" for x
      using assms(1) that f by (fastforce simp: aux_inv_def apart_def)
    moreover have "0 < w_brk w" using assms(1) by (simp add: aux_inv_def)
    ultimately show ?thesis using f by (auto simp: eq acc_apart_def sb_get_def)
  next
    case (Cons b r)
    with assms aux show ?thesis
      by (auto simp: take_aux_def aux_inv_def acc_apart_def sb_get_def)
  qed
qed

lemma take_aux_frame:
  assumes "take_aux p w = (a, p', w')"
  shows "ip_queue p' = ip_queue p \<and> ip_item_size p' = ip_item_size p \<and> ip_cap p' = ip_cap p
    \<and> ip_enqueued p' = ip_enqueued p \<and> ip_maximum p' = ip_maximum p \<and> ip_reserve p' = ip_reserve p
    \<and> ip_ready p' = ip_ready p \<and> ip_idle p' = ip_idle p \<and> ip_became_idle p' = ip_became_idle p"
  using assms by (auto simp: take_aux_def Let_def split: prod.splits)

text \<open>The port before the closing ASSERT.\<close>

definition accumulated :: "iport \<Rightarrow> world \<Rightarrow> iport \<times> world" where
  "accumulated p w =
     (let (a, p, w) = take_aux p w;
          (p, w, a) = acc_loop p w a (acc_free p)
      in (p\<lparr>ip_queue := cb_push_front (ip_cap p) a (ip_queue p)\<rparr>, w))"

lemma is_accumulated_eq:
  "is_accumulated p =
     Inr (length (ip_queue p) \<le> 1 \<or> ip_maximum p \<le> sb_length (hd (ip_queue p)))"
  by (auto simp: is_accumulated_def is_front_maximal_def assertE_def)

lemma iq_accumulate_eq:
  assumes "aux_inv p w" and "ip_item_size p \<noteq> 0"
  shows "iq_accumulate p w =
    (if length (ip_queue p) \<le> 1 \<or> ip_maximum p \<le> sb_length (hd (ip_queue p)) then Inr (p, w)
     else let (p', w') = accumulated p w
          in assertE (length (ip_queue p') \<le> 1 \<or> ip_maximum p' \<le> sb_length (hd (ip_queue p')))
               ''this->is_accumulated(i)'' (Inr (p', w')))"
proof -
  obtain tok bs where aux: "ip_aux p = Some (tok, bs)"
    using assms(1) by (auto simp: aux_inv_def split: option.splits)
  obtain a p1 w1 where t: "take_aux p w = (a, p1, w1)" by (metis prod_cases3)
  have f: "ip_item_size p1 = ip_item_size p" "ip_maximum p1 = ip_maximum p"
    using take_aux_frame [OF t] by auto
  have s: "sb_actual a = ip_maximum p" using take_aux_inv [OF assms(1) t] by simp
  show ?thesis
    using t f s assms(2)
    by (auto simp: iq_accumulate_def aux is_accumulated_eq accumulated_def take_aux_def Let_def
        acc_free_def split: prod.splits)
qed

text \<open>A port on which \<open>accumulate\<close> has work to do, with an item-aligned front.\<close>

definition accumulable :: "iport \<Rightarrow> world \<Rightarrow> bool" where
  "accumulable p w \<longleftrightarrow>
     aux_inv p w \<and> port_inv p \<and> sound_links (ip_queue p) \<and> ip_item_size p \<noteq> 0 \<and> acc_free p \<noteq> 0
     \<and> 1 < length (ip_queue p) \<and> sb_length (hd (ip_queue p)) mod ip_item_size p = 0
     \<and> sb_length (hd (ip_queue p)) < ip_maximum p"

lemma accumulated_effect:
  assumes ok: "accumulable p w" and acc: "accumulated p w = (p', w')"
  shows "stream (w_mem w') p' = stream (w_mem w) p \<and> port_inv p' \<and> sound_links (ip_queue p')
    \<and> sb_length (hd (ip_queue p')) = min (acc_free p) (ip_enqueued p)
    \<and> (ip_enqueued p < acc_free p \<longrightarrow> length (ip_queue p') = 1)
    \<and> (acc_free p < ip_enqueued p \<longrightarrow> 1 < length (ip_queue p'))
    \<and> ip_maximum p' = ip_maximum p \<and> ip_enqueued p' = ip_enqueued p \<and> ip_queue p' \<noteq> []"
proof -
  obtain f q where q: "ip_queue p = f # q" using ok by (cases "ip_queue p") (auto simp: accumulable_def)
  obtain a p1 w1 where t: "take_aux p w = (a, p1, w1)" by (metis prod_cases3)
  obtain p2 w2 a2 where l: "acc_loop p1 w1 a (acc_free p) = (p2, w2, a2)" by (metis prod_cases3)
  have aux: "aux_inv p w" and inv: "port_inv p" and fit: "sb_length f \<le> acc_free p" and z: "acc_free p \<noteq> 0"
    and total: "ip_enqueued p = qbytes (ip_queue p)"
    using ok acc_free_fits [of "sb_length f" p] by (auto simp: accumulable_def q port_inv_def)
  note ta = take_aux_inv [OF aux t] and tf = take_aux_frame [OF t]
  have q1: "ip_queue p1 = f # q" using tf q by simp
  note fr = acc_loop_frame [of p1 w1 a "acc_free p", unfolded l prod.case]
  note am = acc_loop_amount [where p = p1 and w = w1 and a = a and free = "acc_free p", unfolded l prod.case]
  note po = acc_loop_pops [OF q1 z fit, of w1 a, unfolded l prod.case]
  have "acc_apart a (sb_length a + acc_free p) (ip_queue p1)"
    using ta acc_free_le [of p] by (auto simp: acc_apart_def q1 q intro: apart_sub)
  then have st: "content (w_mem w2) a2 @ stream (w_mem w2) p2 = stream (w_mem w) p"
    using acc_loop_stream [of a "acc_free p" p1 w1] l ta tf by (simp add: stream_def content_def)
  have cap: "length (ip_queue p2) < ip_cap p2"
    using po inv fr tf by (auto simp: port_inv_def)
  have "acc_free p1 = acc_free p" using tf by (simp add: acc_free_def)
  then have p': "p' = p2\<lparr>ip_queue := a2 # ip_queue p2\<rparr>" and w': "w' = w2"
    using acc t l cap by (auto simp: accumulated_def cb_push_front_def)
  have "linked q" using ok by (cases q) (auto simp: accumulable_def sound_links_def q)
  then have lk: "sound_links (a2 # ip_queue p2)" using po am ta by (simp add: sound_links_def)
  have len: "sb_length a2 = min (acc_free p) (qbytes (ip_queue p))" "qbytes (ip_queue p2) = qbytes (ip_queue p) - acc_free p"
    using am ta tf by simp_all
  show ?thesis
    using st lk len am fr tf cap inv total by (auto simp: p' w' stream_def port_inv_def)
qed

text \<open>\<open>accumulate\<close> on a maximum size that is a multiple of the item size always succeeds.\<close>

lemma iq_accumulate_ok:
  assumes ok: "accumulable p w" and dvd: "ip_item_size p dvd ip_maximum p"
  shows "iq_accumulate p w = Inr (accumulated p w)"
proof -
  obtain p' w' where acc: "accumulated p w = (p', w')" by fastforce
  have "acc_free p = ip_maximum p" using dvd by (simp add: acc_free_def)
  moreover note accumulated_effect [OF ok acc]
  ultimately have "length (ip_queue p') \<le> 1 \<or> ip_maximum p' \<le> sb_length (hd (ip_queue p'))" by auto
  then show ?thesis
    using ok iq_accumulate_eq [of p w] by (auto simp: accumulable_def acc assertE_def)
qed

text \<open>Otherwise the closing ASSERT throws as soon as the data do not fit the rounded-down
  maximum.\<close>

lemma iq_accumulate_asserts:
  assumes ok: "accumulable p w" and ndvd: "\<not> ip_item_size p dvd ip_maximum p"
    and much: "acc_free p < ip_enqueued p"
  shows "iq_accumulate p w = Inl (Assert_Fail ''this->is_accumulated(i)'')"
proof -
  obtain p' w' where acc: "accumulated p w = (p', w')" by fastforce
  have "acc_free p \<noteq> ip_maximum p"
    using ndvd by (metis acc_free_def dvd_triv_right)
  then have "acc_free p < ip_maximum p"
    using acc_free_le [of p] by simp
  moreover note accumulated_effect [OF ok acc]
  ultimately have "\<not> (length (ip_queue p') \<le> 1 \<or> ip_maximum p' \<le> sb_length (hd (ip_queue p')))"
    using much by auto
  then show ?thesis
    using ok iq_accumulate_eq [of p w] by (auto simp: accumulable_def acc)
qed

end
