(* ===== verification/Input_Config.thy ===== *)
theory Input_Config
  imports Input_Accumulate
begin

text \<open>
  \<open>update_config\<close> and \<open>front\<close> of lib/gras_impl/input_buffer_queues.hpp: the auxiliary queue
  that \<open>update_config\<close> sets up, the zero bytes of a larger preload, the items a smaller
  preload consumes, and when \<open>front\<close> has a buffer for the work call.
\<close>

section \<open>Setting up the auxiliary queue\<close>

text \<open>The part of \<open>aux_inv\<close> that a port has from the start: buffers of an auxiliary queue, if
  there is one, are apart from the queued data.\<close>

definition aux_apart :: "iport \<Rightarrow> world \<Rightarrow> bool" where
  "aux_apart p w \<longleftrightarrow>
     0 < w_brk w \<and> (\<forall>b \<in> set (ip_queue p). sb_get b 0 + sb_length b \<le> w_brk w)
     \<and> (case ip_aux p of None \<Rightarrow> True
        | Some (tok, bs) \<Rightarrow> \<forall>a \<in> set bs. sb_memory a \<noteq> 0 \<and> sb_last a = 0
            \<and> sb_actual a = sb_actual (hd bs)
            \<and> (\<forall>b \<in> set (ip_queue p). apart (sb_get b 0) (sb_length b) (sb_memory a) (sb_actual a)))"

definition new_maximum :: "nat \<Rightarrow> nat \<Rightarrow> iport \<Rightarrow> nat" where
  "new_maximum reserve_bytes maximum_bytes p =
     max (if maximum_bytes \<noteq> 0 then maximum_bytes else ip_maximum p) reserve_bytes"

lemma new_aux_queue_fresh:
  assumes "new_aux_queue n w = ((tok, bs), w')"
  shows "length bs = 3 \<and> (\<forall>a \<in> set bs. w_brk w \<le> sb_memory a \<and> sb_actual a = n \<and> sb_last a = 0)
    \<and> w_brk w \<le> w_brk w' \<and> w_mem w' = w_mem w \<and> w_clock w' = w_clock w \<and> w_reads w' = w_reads w
    \<and> w_held w' = w_held w"
proof -
  let ?w = "w\<lparr>w_impl := Suc (w_impl w)\<rparr>"
  obtain b1 w1 where 1: "aux_allocate_one (w_impl w) n ?w = (b1, w1)" by fastforce
  obtain b2 w2 where 2: "aux_allocate_one (w_impl w) n w1 = (b2, w2)" by fastforce
  obtain b3 w3 where 3: "aux_allocate_one (w_impl w) n w2 = (b3, w3)" by fastforce
  have eq: "bs = [b1, b2, b3]" "w' = w3"
    using assms 1 2 3 by (auto simp: new_aux_queue_def Let_def)
  have w: "w_brk ?w = w_brk w" "w_mem ?w = w_mem w" "w_clock ?w = w_clock w" "w_reads ?w = w_reads w"
    "w_held ?w = w_held w" by simp_all
  show ?thesis
    using aux_allocate_one_fresh [OF 1, unfolded w] aux_allocate_one_fresh [OF 2]
      aux_allocate_one_fresh [OF 3]
    by (auto simp: eq)
qed

lemma iq_configure_effect:
  assumes "iq_configure item reserve maximum p w = (p', w')" and "aux_apart p w"
  shows "ip_item_size p' = item \<and> ip_maximum p' = new_maximum reserve maximum p
    \<and> ip_queue p' = ip_queue p \<and> ip_cap p' = ip_cap p \<and> ip_enqueued p' = ip_enqueued p
    \<and> ip_preload p' = ip_preload p \<and> ip_idle p' = ip_idle p \<and> ip_became_idle p' = ip_became_idle p
    \<and> ip_ready p' = ip_ready p \<and> w_mem w' = w_mem w \<and> w_clock w' = w_clock w
    \<and> w_reads w' = w_reads w \<and> w_held w' = w_held w \<and> aux_inv p' w'
    \<and> (\<exists>tok a bs. ip_aux p' = Some (tok, a # bs))"
proof -
  define p1 where "p1 = p\<lparr>ip_item_size := item, ip_maximum := new_maximum reserve maximum p\<rparr>"
  have cfg: "iq_configure item reserve maximum p w =
     (if case ip_aux p of None \<Rightarrow> True
         | Some (tok, bs) \<Rightarrow> bs = [] \<or> sb_actual (hd bs) \<noteq> new_maximum reserve maximum p
      then let (aux, w) = new_aux_queue (new_maximum reserve maximum p) w in (p1\<lparr>ip_aux := Some aux\<rparr>, w)
      else (p1, w))"
    by (cases "ip_aux p"; cases "maximum = 0") (auto simp: iq_configure_def Let_def new_maximum_def p1_def)
  show ?thesis
  proof (cases "case ip_aux p of None \<Rightarrow> True
         | Some (tok, bs) \<Rightarrow> bs = [] \<or> sb_actual (hd bs) \<noteq> new_maximum reserve maximum p")
    case True
    obtain tok bs w1 where n: "new_aux_queue (new_maximum reserve maximum p) w = ((tok, bs), w1)"
      by (metis prod.exhaust)
    note f = new_aux_queue_fresh [OF n]
    have eq: "p' = p1\<lparr>ip_aux := Some (tok, bs)\<rparr>" "w' = w1"
      using assms(1) True by (simp_all add: cfg n)
    obtain a r where bs: "bs = a # r" using f by (cases bs) auto
    have "apart (sb_get b 0) (sb_length b) (sb_memory x) (sb_actual x)"
      if "b \<in> set (ip_queue p)" "x \<in> set bs" for b x
      using assms(2) f that by (fastforce simp: aux_apart_def apart_def)
    moreover have "0 < w_brk w1" "\<forall>b \<in> set (ip_queue p). sb_get b 0 + sb_length b \<le> w_brk w1"
      using assms(2) f unfolding aux_apart_def by (meson less_le_trans, meson le_trans)
    moreover have "\<forall>x \<in> set bs. sb_memory x \<noteq> 0"
      using assms(2) f unfolding aux_apart_def by (metis le_zero_eq less_numeral_extra(3))
    ultimately have "aux_inv p' w'"
      using f by (simp add: eq p1_def aux_inv_def)
    with f show ?thesis by (simp add: eq p1_def bs)
  next
    case False
    then obtain tok a bs where aux: "ip_aux p = Some (tok, a # bs)"
      "sb_actual a = new_maximum reserve maximum p"
      by (auto split: option.splits) (metis list.exhaust list.sel(1))
    have eq: "p' = p1" "w' = w" using assms(1) False by (simp_all add: cfg)
    show ?thesis
    proof -
      have "aux_inv p' w'"
        using assms(2) aux by (simp add: eq p1_def aux_inv_def aux_apart_def) metis
      then show ?thesis by (simp add: eq p1_def aux(1))
    qed
  qed
qed

section \<open>Preload\<close>

text \<open>A larger preload enqueues zero bytes, as many as it grows by.\<close>

lemma iq_preload_more_effect:
  assumes ok: "time_inv t0 p w" "port_inv p" "sound_links (ip_queue p)" "aux_inv p w"
    and aux: "ip_aux p = Some (tok, a # bs)"
    and more: "ip_preload p < preload" and fits: "preload - ip_preload p \<le> ip_maximum p"
    and room: "ip_enqueued p + ip_maximum p < size_mod" "length (ip_queue p) * 2 < size_mod"
  shows "\<exists>p' w'. iq_preload_more t0 preload p w = Inr (p', w') \<and> time_inv t0 p' w' \<and> port_inv p'
    \<and> sound_links (ip_queue p')
    \<and> stream (w_mem w') p' = stream (w_mem w) p @ replicate (preload - ip_preload p) 0"
proof -
  let ?d = "preload - ip_preload p"
  let ?b = "a\<lparr>sb_offset := 0, sb_length := ?d\<rparr>"
  let ?p = "p\<lparr>ip_aux := Some (tok, bs)\<rparr>"
  let ?m = "memset (w_mem w) (sb_memory a) 0 ?d"
  let ?w = "w\<lparr>w_mem := ?m\<rparr>"
  have a: "sb_memory a \<noteq> 0" "sb_last a = 0" "sb_actual a = ip_maximum p"
    "\<forall>b \<in> set (ip_queue p). apart (sb_get b 0) (sb_length b) (sb_memory a) (sb_actual a)"
    using ok(4) aux by (auto simp: aux_inv_def)
  have p: "time_inv t0 ?p ?w" "port_inv ?p" "length (ip_queue ?p) * 2 < size_mod"
    using ok(1,2) room(2) by (auto simp: port_inv_def elim!: time_inv_cong)
  have e: "iq_preload_more t0 preload p w = iq_push t0 ?b ?p ?w"
    using fits a(3) by (simp add: iq_preload_more_def aux Let_def)
  obtain p' w' where push: "iq_push t0 ?b ?p ?w = Inr (p', w')" and t: "time_inv t0 p' w'"
    using iq_push_total [OF p] by blast
  have "content ?m ?b = replicate ?d 0"
    by (simp add: content_def sb_get_def)
  moreover have "qstream ?m (ip_queue p) = qstream (w_mem w) (ip_queue p)"
  proof -
    have "content ?m b = content (w_mem w) b" if "b \<in> set (ip_queue p)" for b
      using a(4) that fits unfolding content_def a(3)
      by (intro bytes_memset_apart) (auto intro: apart_sub)
    then show ?thesis by (simp add: qstream_def cong: map_cong)
  qed
  moreover have "stream (w_mem w') p' = stream (w_mem ?w) ?p @ content (w_mem ?w) ?b
      \<and> port_inv p' \<and> sound_links (ip_queue p')"
  proof -
    have "sound_links (ip_queue ?p)" "ip_queue ?p = [] \<or> good_link ?b" "sb_memory ?b \<noteq> 0"
      "ip_enqueued ?p + sb_length ?b < size_mod"
      using ok(3) a fits room by (simp_all add: good_link_def)
    from iq_push_effect [OF push p(2) this p(3)] show ?thesis by blast
  qed
  ultimately show ?thesis using e push t by (auto simp: stream_def)
qed

lemma iq_preload_more_overflow:
  assumes "aux_inv p w" and "ip_aux p = Some (tok, a # bs)"
    and "ip_maximum p < preload - ip_preload p"
  shows "iq_preload_more t0 preload p w = Inl (Undefined ''memset past the end of the auxiliary buffer'')"
  using assms by (auto simp: iq_preload_more_def aux_inv_def)

section \<open>front\<close>

lemma iq_front_empty:
  "ip_ready p \<Longrightarrow> ip_item_size p \<noteq> 0 \<Longrightarrow> ip_queue p = [] \<Longrightarrow> iq_front p w = Inr (null_buff, p, w)"
  by (simp add: iq_front_def)

lemma qbytes_dvd: "\<forall>b \<in> set q. n dvd sb_length b \<Longrightarrow> n dvd qbytes q"
  by (induction q) auto

text \<open>With whole items queued, at least the reserve of them, \<open>front\<close> gives a buffer of at least
  the reserve that holds the first bytes of the stream, and the stream is unchanged.\<close>

lemma iq_front_effect:
  assumes ok: "port_inv p" "sound_links (ip_queue p)" "aux_inv p w" "ip_ready p"
    and item: "ip_item_size p \<noteq> 0" "ip_item_size p dvd ip_maximum p" "ip_maximum p \<noteq> 0"
      "\<forall>b \<in> set (ip_queue p). ip_item_size p dvd sb_length b"
    and res: "ip_reserve p \<le> ip_enqueued p" "ip_reserve p \<le> ip_maximum p" and ne: "ip_queue p \<noteq> []"
  shows "\<exists>b p' w'. iq_front p w = Inr (b, p', w') \<and> ip_queue p' \<noteq> [] \<and> b = hd (ip_queue p')
    \<and> ip_reserve p \<le> sb_length b \<and> ip_item_size p dvd sb_length b
    \<and> stream (w_mem w') p' = stream (w_mem w) p \<and> port_inv p' \<and> sound_links (ip_queue p')"
proof (cases "sb_length (hd (ip_queue p)) < ip_reserve p")
  case False
  then show ?thesis using ok item res ne
    by (auto simp: iq_front_def Let_def mod_eq_0_iff_dvd neq_Nil_conv)
next
  case True
  have free: "acc_free p = ip_maximum p" using item(2) by (simp add: acc_free_def)
  have len: "1 < length (ip_queue p)"
  proof (rule ccontr)
    assume "\<not> 1 < length (ip_queue p)"
    then obtain b where "ip_queue p = [b]" using ne by (cases "ip_queue p"; cases "tl (ip_queue p)") auto
    then show False using True res ok(1) by (simp add: port_inv_def)
  qed
  have "accumulable p w"
    using ok item res True ne len free
    by (auto simp: accumulable_def mod_eq_0_iff_dvd neq_Nil_conv)
  moreover obtain p' w' where acc: "accumulated p w = (p', w')" by fastforce
  ultimately have r: "iq_accumulate p w = Inr (p', w')"
    and e: "stream (w_mem w') p' = stream (w_mem w) p" "port_inv p'" "sound_links (ip_queue p')"
      "sb_length (hd (ip_queue p')) = min (ip_maximum p) (ip_enqueued p)" "ip_queue p' \<noteq> []"
    using iq_accumulate_ok [of p w] accumulated_effect [of p w p' w'] item(2) free by auto
  have fr: "ip_reserve p' = ip_reserve p \<and> ip_item_size p' = ip_item_size p"
  proof -
    obtain a p1 w1 where t: "take_aux p w = (a, p1, w1)" by (metis prod_cases3)
    show ?thesis
      using acc acc_loop_frame [of p1 w1 a "acc_free p1"] take_aux_frame [OF t]
      by (auto simp: accumulated_def t split: prod.splits)
  qed
  have "ip_item_size p dvd ip_enqueued p"
    using ok(1) qbytes_dvd [OF item(4)] by (simp add: port_inv_def)
  with item(2) have "ip_item_size p dvd min (ip_maximum p) (ip_enqueued p)"
    by (simp add: min_def)
  then show ?thesis
    using True ok(4) item(1) res ne r e fr
    by (auto simp: iq_front_def Let_def mod_eq_0_iff_dvd)
qed

end
