(* ===== verification/Input_Fifo.thy ===== *)
theory Input_Fifo
  imports Input_Config
begin

text \<open>
  The contract under which a block uses an input port (task_main and the input handlers of
  lib/): a byte FIFO. \<open>byte_fifo\<close> states it as laws of one \<open>put\<close> and one \<open>take\<close>; the
  lemmas of the locale follow any sequence of the two; the interpretation shows that push and
  consume of lib/gras_impl/input_buffer_queues.hpp satisfy the laws.
\<close>

section \<open>The interface\<close>

datatype 'b fifo_op = Put 'b | Take nat

fun fifo_step :: "('b \<Rightarrow> 's \<Rightarrow> exn + 's) \<Rightarrow> (nat \<Rightarrow> 's \<Rightarrow> exn + 's) \<Rightarrow> 'b fifo_op \<Rightarrow> 's \<Rightarrow> exn + 's" where
  "fifo_step put tak (Put b) s = put b s"
| "fifo_step put tak (Take n) s = tak n s"

fun fifo_puts :: "'b fifo_op list \<Rightarrow> 'b list" where
  "fifo_puts [] = []"
| "fifo_puts (Put b # ops) = b # fifo_puts ops"
| "fifo_puts (Take n # ops) = fifo_puts ops"

fun fifo_taken :: "'b fifo_op list \<Rightarrow> nat" where
  "fifo_taken [] = 0"
| "fifo_taken (Put b # ops) = fifo_taken ops"
| "fifo_taken (Take n # ops) = n + fifo_taken ops"

text \<open>\<open>view\<close> is the abstract content, \<open>data\<close> the bytes of a buffer, \<open>unit\<close> the item size,
  \<open>cost\<close> and \<open>weight\<close> bound what a state holds so that no \<open>size_t\<close> wraps.\<close>

locale byte_fifo =
  fixes inv :: "'s \<Rightarrow> bool" and view :: "'s \<Rightarrow> 'a list" and data :: "'b \<Rightarrow> 'a list"
    and good :: "'b \<Rightarrow> bool" and put :: "'b \<Rightarrow> 's \<Rightarrow> exn + 's" and tak :: "nat \<Rightarrow> 's \<Rightarrow> exn + 's"
    and item :: nat and cost :: "'s \<Rightarrow> nat" and weight :: "'b \<Rightarrow> nat" and limit :: nat
  assumes put_law: "inv s \<Longrightarrow> good b \<Longrightarrow> cost s + weight b \<le> limit \<Longrightarrow>
      \<exists>s'. put b s = Inr s' \<and> inv s' \<and> view s' = view s @ data b \<and> cost s' \<le> cost s + weight b"
    and take_law: "inv s \<Longrightarrow> n * item < limit \<Longrightarrow> tak n s = Inr s' \<Longrightarrow>
      inv s' \<and> n * item \<le> length (view s) \<and> view s' = drop (n * item) (view s) \<and> cost s' \<le> cost s"
begin

text \<open>Whatever was put comes out in the order it was put, less what was taken.\<close>

lemma delivered:
  assumes "inv s" and "\<forall>b \<in> set (fifo_puts ops). good b"
    and "cost s + sum_list (map weight (fifo_puts ops)) \<le> limit"
    and "\<forall>n. Take n \<in> set ops \<longrightarrow> n * item < limit"
    and "foldE (fifo_step put tak) ops s = Inr s'"
  shows "inv s' \<and> fifo_taken ops * item \<le> length (view s @ concat (map data (fifo_puts ops)))
    \<and> view s' = drop (fifo_taken ops * item) (view s @ concat (map data (fifo_puts ops)))"
  using assms
proof (induction ops arbitrary: s)
  case Nil
  then show ?case by simp
next
  case (Cons x ops)
  show ?case
  proof (cases x)
    case (Put b)
    obtain t where t: "put b s = Inr t" "inv t" "view t = view s @ data b" "cost t \<le> cost s + weight b"
      using put_law [of s b] Cons.prems by (auto simp: Put)
    show ?thesis
      using Cons.IH [of t] Cons.prems t by (simp add: Put)
  next
    case (Take n)
    then obtain t where t: "tak n s = Inr t" "foldE (fifo_step put tak) ops t = Inr s'"
      using Cons.prems(5) by (auto simp: res_simps)
    have "inv t \<and> n * item \<le> length (view s) \<and> view t = drop (n * item) (view s) \<and> cost t \<le> cost s"
      using take_law [OF Cons.prems(1) _ t(1)] Cons.prems(4) by (simp add: Take)
    with Cons.IH [of t] Cons.prems t show ?thesis
      by (auto simp: Take algebra_simps)
  qed
qed

text \<open>A put never fails, so only a take can stop a run.\<close>

lemma puts_succeed:
  assumes "inv s" and "\<forall>b \<in> set bs. good b" and "cost s + sum_list (map weight bs) \<le> limit"
  shows "\<exists>s'. foldE (fifo_step put tak) (map Put bs) s = Inr s' \<and> inv s'
    \<and> view s' = view s @ concat (map data bs)"
  using assms
proof (induction bs arbitrary: s)
  case (Cons b bs)
  obtain t where t: "put b s = Inr t" "inv t" "view t = view s @ data b" "cost t \<le> cost s + weight b"
    using put_law [of s b] Cons.prems by auto
  then show ?case using Cons.IH [of t] Cons.prems by auto
qed simp

end

section \<open>An input port provides it\<close>

definition port_state :: "int \<Rightarrow> memory \<Rightarrow> nat \<Rightarrow> iport \<times> world \<Rightarrow> bool" where
  "port_state t0 m item = (\<lambda>(p, w). time_inv t0 p w \<and> port_inv p \<and> linked (ip_queue p)
     \<and> w_mem w = m \<and> ip_item_size p = item)"

definition port_cost :: "iport \<times> world \<Rightarrow> nat" where
  "port_cost = (\<lambda>(p, w). ip_enqueued p + 2 * length (ip_queue p))"

definition queueable :: "sbuffer \<Rightarrow> bool" where
  "queueable b \<longleftrightarrow> good_link b \<and> sb_memory b \<noteq> 0"

definition port_step :: "int \<Rightarrow> sbuffer fifo_op \<Rightarrow> iport \<times> world \<Rightarrow> exn + iport \<times> world" where
  "port_step t0 = fifo_step (\<lambda>b. case_prod (iq_push t0 b)) (\<lambda>n. case_prod (iq_consume t0 n))"

lemma iq_push_length:
  assumes "iq_push t0 b p w = Inr (p', w')" and "ip_enqueued p + sb_length b < size_mod"
  shows "length (ip_queue p') \<le> Suc (length (ip_queue p)) \<and> ip_enqueued p' = ip_enqueued p + sb_length b
    \<and> ip_item_size p' = ip_item_size p"
proof -
  have len: "length (stitch q) \<le> length q" for q
  proof -
    have "length (stitch_loop j q) = length q" for j
      by (induction j q rule: stitch_loop.induct) simp_all
    then show ?thesis by (auto simp: stitch_def Let_def)
  qed
  from assms show ?thesis
    by (auto simp: iq_push_def Let_def res_simps sz_add_exact dest!: iq_update_frame split: if_splits)
      (use len le_trans in \<open>metis length_append_singleton\<close>)+
qed

lemma iq_consume_length:
  assumes "iq_consume t0 n p w = Inr (p', w')"
  shows "length (ip_queue p') \<le> length (ip_queue p) \<and> ip_enqueued p' \<le> ip_enqueued p
    \<and> ip_item_size p' = ip_item_size p \<and> sz_mul n (ip_item_size p) \<le> sb_length (hd (ip_queue p))
    \<and> ip_queue p \<noteq> []"
proof -
  have u: "length (ip_queue (unstitch q v)) \<le> length (ip_queue q)" for q v
    by (auto simp: unstitch_def split: list.splits)
  have a: "length (ip_queue (advanced k p w)) \<le> length (ip_queue p)" "ip_enqueued (advanced k p w) \<le> ip_enqueued p"
    "ip_item_size (advanced k p w) = ip_item_size p" if "ip_queue p \<noteq> []" for k
    using that by (auto simp: advanced_def Let_def neq_Nil_conv)
  from assms show ?thesis
    by (auto simp: iq_consume_eq_Inr Let_def res_simps a dest!: iq_update_frame)
      (metis a(1) le_trans u)+
qed

interpretation port: byte_fifo "port_state t0 m item" "\<lambda>(p, w). stream m p" "content m" queueable
    "\<lambda>b. case_prod (iq_push t0 b)" "\<lambda>n. case_prod (iq_consume t0 n)" item
    port_cost "\<lambda>b. sb_length b + 2" "size_mod - 1" for t0 m item
proof (unfold_locales, goal_cases)
  case (1 s b)
  obtain p w where s: "s = (p, w)" by fastforce
  have bounds: "ip_enqueued p + sb_length b < size_mod" "length (ip_queue p) * 2 < size_mod"
    using 1(3) by (auto simp: s port_cost_def)
  obtain p' w' where push: "iq_push t0 b p w = Inr (p', w')" and t: "time_inv t0 p' w'"
    using iq_push_total [of t0 p w b] 1(1) bounds by (auto simp: s port_state_def)
  note e = iq_push_effect [OF push] and l = iq_push_length [OF push bounds(1)]
  have "sound_links (ip_queue p)" using 1(1) by (simp add: s port_state_def sound_links_def)
  then show ?case
    using e l t push 1 bounds by (auto simp: s port_state_def port_cost_def queueable_def)
next
  case (2 s n s')
  obtain p w where s: "s = (p, w)" by fastforce
  obtain p' w' where s': "s' = (p', w')" by fastforce
  have c: "iq_consume t0 n p w = Inr (p', w')" using 2(3) by (simp add: s s')
  have z: "sz_mul n item = n * item" using 2(2) by (simp add: sz_mul_exact)
  note l = iq_consume_length [OF c]
  have q: "length (stream m p) = qbytes (ip_queue p)" by (simp add: stream_def)
  have "time_inv t0 p' w'"
  proof -
    obtain p1 where u: "iq_update t0 (advanced (sz_mul n (ip_item_size p)) p w) w = Inr (p1, w')"
      "p' = unstitch p1 w'"
      using c by (auto simp: iq_consume_eq_Inr Let_def res_simps)
    have "time_inv t0 p1 w'"
      using iq_update_time_inv [OF advanced_time_inv u(1)] 2(1) by (simp add: s port_state_def)
    then show ?thesis unfolding u(2) by (rule time_inv_cong) simp_all
  qed
  with iq_consume_effect [OF c] l z 2(1) hd_le_qbytes [of "ip_queue p"] show ?case
    by (auto simp: s s' port_state_def port_cost_def q)
qed

end
