(* ===== verification/Samples.thy ===== *)
theory Samples
  imports SBuffer
begin

text \<open>
  The concrete world and buffers on which the witnesses of the properties evaluate the model.
\<close>

definition sample_world :: world where
  "sample_world =
     \<lparr>w_mem = (\<lambda>a. of_nat a), w_brk = 4096, w_impl = 100, w_clock = (\<lambda>n. int n), w_reads = 0,
      w_held = (\<lambda>_. False), w_junk = 0\<rparr>"

text \<open>A 64-byte buffer at a given address, with \<open>len\<close> valid bytes from \<open>off\<close> on.\<close>

definition sample_buff :: "nat \<Rightarrow> nat \<Rightarrow> nat \<Rightarrow> nat \<Rightarrow> nat \<Rightarrow> sbuffer" where
  "sample_buff im addr off len lst =
     \<lparr>sb_impl = im, sb_memory = addr, sb_actual = 64, sb_affinity = -1, sb_user_index = size_max,
      sb_token = Some 7, sb_offset = off, sb_length = len, sb_last = lst\<rparr>"

lemma sample_monotone [simp]: "monotone_clock sample_world"
  by (simp add: monotone_clock_def sample_world_def)

end
