(* ===== verification/Input_Props.thy ===== *)
theory Input_Props
  imports Input_Fifo Samples
begin

text \<open>
  The properties of the input queues (lib/gras_impl/input_buffer_queues.hpp), each with a
  witness on concrete ports, and the closed scenarios on which the queues break their
  contract.
\<close>

section \<open>Concrete ports\<close>

definition aux_buff :: sbuffer where
  "aux_buff =
     \<lparr>sb_impl = 90, sb_memory = 512, sb_actual = 8, sb_affinity = -1, sb_user_index = size_max,
      sb_token = Some 9, sb_offset = 0, sb_length = 0, sb_last = 0\<rparr>"

text \<open>A port with the given item size and queue, a maximum of 8 bytes and one auxiliary
  buffer.\<close>

definition sample_port :: "nat \<Rightarrow> sbuffer list \<Rightarrow> iport" where
  "sample_port item q =
     \<lparr>ip_ready = True, ip_item_size = item, ip_enqueued = qbytes q, ip_reserve = 1, ip_maximum = 8,
      ip_cap = 4, ip_queue = q, ip_preload = 0, ip_aux = Some (9, [aux_buff]), ip_copied = 0,
      ip_idle = 0, ip_became_idle = 0\<rparr>"

lemmas sample_defs = sample_world_def sample_buff_def aux_buff_def sample_port_def

lemma sample_time_inv: "time_inv 0 (sample_port item q) sample_world"
  by (simp add: time_inv_def sample_defs monotone_clock_def)

lemma sample_port_inv: "length q \<le> 4 \<Longrightarrow> qbytes q < size_mod \<Longrightarrow> port_inv (sample_port item q)"
  by (simp add: port_inv_def sample_port_def)

section \<open>Push and consume\<close>







section \<open>Accumulation\<close>

text \<open>C23 When the maximum is a multiple of the item size, accumulating the queued buffers into an
  auxiliary one always returns, keeps the port's bytes in order, and leaves a front buffer with
  everything queued, or with the maximum.\<close>

theorem input_accumulate_preserves:
  assumes "accumulable p w" and "ip_item_size p dvd ip_maximum p"
  shows "\<exists>p' w'. iq_accumulate p w = Inr (p', w') \<and> stream (w_mem w') p' = stream (w_mem w) p
    \<and> port_inv p' \<and> sound_links (ip_queue p')
    \<and> sb_length (hd (ip_queue p')) = min (ip_maximum p) (length (stream (w_mem w) p))"
proof -
  obtain p' w' where acc: "accumulated p w = (p', w')" by fastforce
  have "acc_free p = ip_maximum p" using assms(2) by (simp add: acc_free_def)
  moreover have "ip_enqueued p = length (stream (w_mem w) p)"
    using assms(1) by (simp add: accumulable_def port_inv_def stream_def)
  ultimately show ?thesis
    using iq_accumulate_ok [OF assms] accumulated_effect [OF assms(1) acc] acc by auto
qed

definition two_buffers :: "sbuffer list" where
  "two_buffers = [sample_buff 10 1000 0 4 0, sample_buff 11 2000 20 10 0]"

lemma sample_accumulable:
  "item = 1 \<or> item = 2 \<or> item = 4 \<Longrightarrow> accumulable (sample_port item two_buffers) sample_world"
  by (auto simp: accumulable_def aux_inv_def port_inv_def acc_free_def two_buffers_def sample_defs
      size_mod_def sb_get_def apart_def sound_links_def good_link_def)

lemma input_accumulate_preserves_witness:
  "\<exists>p' w'. iq_accumulate (sample_port 2 two_buffers) sample_world = Inr (p', w')
     \<and> stream (w_mem w') p' = stream (w_mem sample_world) (sample_port 2 two_buffers)"
  using input_accumulate_preserves [OF sample_accumulable, of 2]
  by (auto simp: sample_port_def)

text \<open>When the maximum is not a multiple of the item size (65536 and 12-byte items, say), the
  accumulation fills the auxiliary buffer only up to the last whole item, and its closing ASSERT,
  which asks for a full maximum, throws as soon as more than that is queued.\<close>

theorem input_accumulate_ragged:
  assumes "accumulable p w" and "\<not> ip_item_size p dvd ip_maximum p"
    and "acc_free p < length (stream (w_mem w) p)"
  shows "iq_accumulate p w = Inl (Assert_Fail ''this->is_accumulated(i)'')"
  using iq_accumulate_asserts [OF assms(1,2)] assms
  by (simp add: accumulable_def port_inv_def stream_def)

definition three_byte_items :: "sbuffer list" where
  "three_byte_items = [sample_buff 10 1000 0 3 0, sample_buff 11 2000 0 6 0]"

lemma input_accumulate_ragged_witness:
  "iq_accumulate (sample_port 3 three_byte_items) sample_world = Inl (Assert_Fail ''this->is_accumulated(i)'')"
proof (rule input_accumulate_ragged)
  show "accumulable (sample_port 3 three_byte_items) sample_world"
    by (auto simp: accumulable_def aux_inv_def port_inv_def acc_free_def three_byte_items_def sample_defs
        size_mod_def sb_get_def apart_def sound_links_def good_link_def)
qed (simp_all add: sample_defs acc_free_def three_byte_items_def stream_def)

text \<open>The unstitching after a consume trusts the \<open>last\<close> pointer of the second buffer, but
  \<open>accumulate\<close> stores the end of the accumulation buffer there: on this port, an accumulation
  keeps the bytes and the consume of one item after it replaces them by other memory.\<close>

theorem input_unstitch_corrupts:
  "\<exists>p1 w1 p2 w2. iq_accumulate (sample_port 1 two_buffers) sample_world = Inr (p1, w1)
     \<and> stream (w_mem w1) p1 = stream (w_mem sample_world) (sample_port 1 two_buffers)
     \<and> iq_consume 0 1 p1 w1 = Inr (p2, w2)
     \<and> length (stream (w_mem w2) p2) = 13
     \<and> stream (w_mem w2) p2 \<noteq> drop 1 (stream (w_mem w1) p1)"
proof -
  let ?a = "aux_buff\<lparr>sb_length := 8\<rparr>"
  let ?b = "(sample_buff 11 2000 24 6 520)"
  let ?m = "memcpy (memcpy word_of_nat 512 1000 4) 516 2020 4"
  let ?p1 = "(sample_port 1 [?a, ?b])\<lparr>ip_aux := Some (9, []), ip_copied := 8\<rparr>"
  let ?w1 = "sample_world\<lparr>w_mem := ?m\<rparr>"
  have acc: "iq_accumulate (sample_port 1 two_buffers) sample_world = Inr (?p1, ?w1)"
    by (simp add: iq_accumulate_def two_buffers_def sample_defs is_accumulated_eq Let_def acc_loop.simps
        pop_front_def release_buffer_def cb_push_front_def sb_get_def sz_add_def size_mod_def)
  let ?q = "[?b\<lparr>sb_offset := 17, sb_length := 13\<rparr>]"
  obtain p2 w2 where con: "iq_consume 0 1 ?p1 ?w1 = Inr (p2, w2)" and p2: "ip_queue p2 = ?q" "w_mem w2 = ?m"
    by (simp add: iq_consume_def sample_defs iq_update_def time_now_def Let_def unstitch_def sb_get_def
        pop_front_def release_buffer_def sz_mul_def size_mod_def)
  have "hd (stream (w_mem w2) p2) = ?m 2017" "length (stream (w_mem w2) p2) = 13"
    "hd (drop 1 (stream (w_mem ?w1) ?p1)) = ?m 513"
    by (simp_all add: stream_def p2 content_def sb_get_def bytes_def sample_defs upt_rec [of 512]
        upt_rec [of 2017])
  moreover have "?m 2017 \<noteq> ?m 513" by (simp add: memcpy_def)
  moreover have "stream (w_mem ?w1) ?p1 = stream (w_mem sample_world) (sample_port 1 two_buffers)"
    using iq_accumulate_ok [OF sample_accumulable, of 1] accumulated_effect [OF sample_accumulable, of 1] acc
    by (auto simp: sample_port_def)
  ultimately show ?thesis using acc con by metis
qed

section \<open>Reconfiguration\<close>

text \<open>A larger preload on an input port enqueues exactly as many zero bytes as it grows by, and
  keeps what is queued, when the growth fits the auxiliary buffers.\<close>

theorem input_preload_zeros:
  assumes "time_inv t0 p w" and "port_inv p" and "sound_links (ip_queue p)" and "aux_apart p w"
    and "item \<noteq> 0" and "ip_preload p < preload"
    and "preload - ip_preload p \<le> new_maximum reserve maximum p"
    and "ip_enqueued p + new_maximum reserve maximum p < size_mod" and "length (ip_queue p) * 2 < size_mod"
  shows "\<exists>p' w'. iq_update_config t0 item preload reserve maximum p w = Inr (p', w')
    \<and> stream (w_mem w') p' = stream (w_mem w) p @ replicate (preload - ip_preload p) 0
    \<and> port_inv p' \<and> ip_preload p' = preload \<and> ip_reserve p' = reserve
    \<and> ip_ready p' = (reserve \<le> ip_enqueued p')"
proof -
  obtain p1 w1 where c: "iq_configure item reserve maximum p w = (p1, w1)" by fastforce
  note e = iq_configure_effect [OF c assms(4)]
  obtain tok a bs where aux: "ip_aux p1 = Some (tok, a # bs)" using e by blast
  have ok: "time_inv t0 p1 w1" "port_inv p1" "sound_links (ip_queue p1)" "aux_inv p1 w1"
    using assms(1-3) e by (auto simp: port_inv_def elim!: time_inv_cong)
  obtain p2 w2 where m: "iq_preload_more t0 preload p1 w1 = Inr (p2, w2)" "time_inv t0 p2 w2"
      "port_inv p2" "stream (w_mem w2) p2 = stream (w_mem w1) p1 @ replicate (preload - ip_preload p1) 0"
    using iq_preload_more_effect [OF ok aux, of preload] assms e by auto
  have "ip_preload p2 = ip_preload p1"
    using m(1) aux by (auto simp: iq_preload_more_def iq_push_def Let_def res_simps
        dest!: iq_update_frame split: if_splits)
  have t: "time_inv t0 (p2\<lparr>ip_preload := preload, ip_reserve := reserve\<rparr>) w2"
    using m(2) by (rule time_inv_cong) simp_all
  obtain p3 w3 where u: "iq_update t0 (p2\<lparr>ip_preload := preload, ip_reserve := reserve\<rparr>) w2 = Inr (p3, w3)"
    using iq_update_total [OF t] by blast
  have "iq_update_config t0 item preload reserve maximum p w = Inr (p3, w3)"
    using assms(5,6) e u m \<open>ip_preload p2 = ip_preload p1\<close>
    by (simp add: iq_update_config_def c)
  then show ?thesis
    using iq_update_frame [OF u] m e by (auto simp: stream_def port_inv_def)
qed

lemma sample_aux_apart: "aux_apart (sample_port item [sample_buff 10 1000 0 4 0]) sample_world"
  by (auto simp: aux_apart_def sample_defs sb_get_def apart_def)

lemma input_preload_zeros_witness:
  "\<exists>p' w'. iq_update_config 0 2 6 1 0 (sample_port 2 [sample_buff 10 1000 0 4 0]) sample_world = Inr (p', w')
     \<and> stream (w_mem w') p' = stream (w_mem sample_world) (sample_port 2 [sample_buff 10 1000 0 4 0])
         @ replicate 6 0"
proof -
  let ?p = "sample_port 2 [sample_buff 10 1000 0 4 0]"
  have "port_inv ?p" "sound_links (ip_queue ?p)"
    by (simp_all add: sample_defs port_inv_def size_mod_def sound_links_def)
  from input_preload_zeros [OF sample_time_inv this sample_aux_apart, of 2 6 1 0] show ?thesis
    by (auto simp: sample_port_def sample_buff_def new_maximum_def size_mod_def)
qed

text \<open>When the preload grows by more than the auxiliary buffers hold, the zeroing writes past
  the end of the buffer: nothing checks the preload against the maximum.\<close>

theorem input_preload_overflow:
  assumes "aux_apart p w" and "item \<noteq> 0" and "ip_preload p < preload"
    and "new_maximum reserve maximum p < preload - ip_preload p"
  shows "iq_update_config t0 item preload reserve maximum p w
    = Inl (Undefined ''memset past the end of the auxiliary buffer'')"
proof -
  obtain p1 w1 where c: "iq_configure item reserve maximum p w = (p1, w1)" by fastforce
  note e = iq_configure_effect [OF c assms(1)]
  then obtain tok a bs where aux: "ip_aux p1 = Some (tok, a # bs)" by blast
  show ?thesis
    using iq_preload_more_overflow [of p1 w1, OF _ aux, of preload t0] assms e
    by (auto simp: iq_update_config_def c)
qed

lemma input_preload_overflow_witness:
  "iq_update_config 0 2 10 1 0 (sample_port 2 [sample_buff 10 1000 0 4 0]) sample_world
     = Inl (Undefined ''memset past the end of the auxiliary buffer'')"
  by (rule input_preload_overflow [OF sample_aux_apart]) (simp_all add: sample_port_def new_maximum_def)

text \<open>A smaller preload passes the number of bytes it shrinks by to \<open>consume\<close>, which counts
  items: it drops that many items from the stream, not that many bytes.\<close>

theorem input_preload_drops_items:
  assumes "time_inv t0 p w" and "port_inv p" and "linked (ip_queue p)" and "aux_apart p w"
    and "item \<noteq> 0" and "preload < ip_preload p" and "ip_queue p \<noteq> []"
    and "n = min (ip_preload p - preload) (ip_enqueued p)"
    and "n * item \<le> sb_length (hd (ip_queue p))" and "sb_length (hd (ip_queue p)) mod item = 0"
  shows "\<exists>p' w'. iq_update_config t0 item preload reserve maximum p w = Inr (p', w')
    \<and> stream (w_mem w') p' = drop (n * item) (stream (w_mem w) p) \<and> ip_preload p' = preload"
proof -
  obtain p1 w1 where c: "iq_configure item reserve maximum p w = (p1, w1)" by fastforce
  note e = iq_configure_effect [OF c assms(4)]
  have ok: "time_inv t0 p1 w1" "port_inv p1" "linked (ip_queue p1)"
    using assms(1-3) e by (auto simp: port_inv_def elim!: time_inv_cong)
  obtain p2 w2 where m: "iq_consume t0 n p1 w1 = Inr (p2, w2)" "time_inv t0 p2 w2"
    using iq_consume_total [OF ok(1,2), of n] assms e by auto
  have "n * item < size_mod"
    using assms(2,7,9) hd_le_qbytes [of "ip_queue p"] by (auto simp: port_inv_def)
  then have s: "stream (w_mem w2) p2 = drop (n * item) (stream (w_mem w1) p1)"
    using iq_consume_effect [OF m(1) ok(2,3), THEN conjunct1] e by (simp add: sz_mul_exact)
  have t: "time_inv t0 (p2\<lparr>ip_preload := preload, ip_reserve := reserve\<rparr>) w2"
    using m(2) by (rule time_inv_cong) simp_all
  obtain p3 w3 where u: "iq_update t0 (p2\<lparr>ip_preload := preload, ip_reserve := reserve\<rparr>) w2 = Inr (p3, w3)"
    using iq_update_total [OF t] by blast
  have "iq_update_config t0 item preload reserve maximum p w = Inr (p3, w3)"
    using assms(5,6,8) e u m by (simp add: iq_update_config_def c)
  then show ?thesis
    using iq_update_frame [OF u] s e by (auto simp: stream_def)
qed

definition preloaded_port :: iport where
  "preloaded_port = (sample_port 2 [sample_buff 10 1000 0 8 0])\<lparr>ip_preload := 4\<rparr>"

lemma input_preload_drops_items_witness:
  "\<exists>p' w'. iq_update_config 0 2 2 1 0 preloaded_port sample_world = Inr (p', w')
     \<and> stream (w_mem w') p' = drop 4 (stream (w_mem sample_world) preloaded_port)"
proof -
  have "time_inv 0 preloaded_port sample_world"
    using sample_time_inv by (rule time_inv_cong) (simp_all add: preloaded_port_def sample_port_def)
  moreover have "port_inv preloaded_port" "linked (ip_queue preloaded_port)"
    "aux_apart preloaded_port sample_world"
    by (auto simp: preloaded_port_def sample_defs port_inv_def size_mod_def aux_apart_def sb_get_def apart_def)
  ultimately show ?thesis
    using input_preload_drops_items [of 0 preloaded_port sample_world 2 2 2 1 0]
    by (auto simp: preloaded_port_def sample_port_def sample_buff_def)
qed

section \<open>front\<close>


definition reserving_port :: iport where
  "reserving_port = (sample_port 2 two_buffers)\<lparr>ip_reserve := 6\<rparr>"


text \<open>\<open>update_has_msg\<close> makes a port ready because it has a message, whatever is queued: when
  fewer bytes than the reserve are queued, in one buffer, the \<open>front\<close> of the next work call
  throws.\<close>

theorem input_front_after_message:
  assumes "ip_queue p = [b]" and "sb_length b < ip_reserve p" and "ip_item_size p \<noteq> 0"
  shows "bindE (iq_update_has_msg t0 True p w) (case_prod iq_front)
    = Inl (Assert_Fail ''_queues[i].front().length >= _reserve_bytes[i]'')"
  using assms by (simp add: iq_update_has_msg_def iq_front_def iq_accumulate_def is_accumulated_def Let_def)

lemma input_front_after_message_witness:
  "bindE (iq_update_has_msg 0 True ((sample_port 2 [sample_buff 10 1000 0 4 0])\<lparr>ip_reserve := 6\<rparr>) sample_world)
       (case_prod iq_front)
     = Inl (Assert_Fail ''_queues[i].front().length >= _reserve_bytes[i]'')"
  by (rule input_front_after_message [where b = "sample_buff 10 1000 0 4 0"])
    (simp_all add: sample_port_def sample_buff_def)

end
