(* ===== verification/Buffer_Queue.thy ===== *)
theory Buffer_Queue
  imports SBuffer
begin

text \<open>
  include/gras/buffer_queue.hpp, lib/buffer_queue_pool.cpp and lib/buffer_queue_circ.cpp: the
  queues of free output buffers.

  \<open>buffer_queue\<close> is the interface as the client, lib/gras_impl/output_buffer_queues.hpp, uses
  it: \<open>front\<close>, writing the produced bytes into the front handle (\<open>store\<close>), \<open>pop\<close>, and
  \<open>push\<close> of a returned buffer. Its interpretations on the pool and on the circular queue are in
  Pool_Queue and Circ_Queue.

  The vector of returned buffers of the circular queue is a list of options, \<open>None\<close> for a null
  handle. The boost::circular_buffers are lists with their capacity.
\<close>

section \<open>Shared\<close>

text \<open>\<open>push_back\<close> of a full boost::circular_buffer overwrites the first entry.\<close>

definition cb_push_back :: "nat \<Rightarrow> 'a \<Rightarrow> 'a list \<Rightarrow> 'a list" where
  "cb_push_back cap b q =
     (if cap = 0 then q else if cap \<le> length q then tl q @ [b] else q @ [b])"

lemma cb_push_back_room [simp]: "length q < cap \<Longrightarrow> cb_push_back cap b q = q @ [b]"
  by (simp add: cb_push_back_def)

section \<open>The pool\<close>

record pool_queue =
  pl_token :: "nat option"
  pl_cap :: nat
  pl_queue :: "sbuffer list"

definition pool_empty :: "pool_queue \<Rightarrow> bool" where
  "pool_empty q \<longleftrightarrow> pl_queue q = []"

definition pool_front :: "pool_queue \<Rightarrow> exn + sbuffer \<times> pool_queue" where
  "pool_front q =
     assertE (pl_queue q \<noteq> []) ''not _queue.empty()''
      (assertE (sb_nonnull (hd (pl_queue q))) ''_queue.front()'' (Inr (hd (pl_queue q), q)))"

text \<open>Writing through the reference that \<open>front\<close> returned.\<close>

definition pool_store :: "sbuffer \<Rightarrow> pool_queue \<Rightarrow> pool_queue" where
  "pool_store b q = q\<lparr>pl_queue := b # tl (pl_queue q)\<rparr>"

definition pool_pop :: "pool_queue \<Rightarrow> exn + pool_queue" where
  "pool_pop q =
     assertE (pl_queue q \<noteq> []) ''not _queue.empty()''
      (let buff = hd (pl_queue q)
       in if sb_actual buff div 2 < sb_offset buff
          then Inr (q\<lparr>pl_queue := tl (pl_queue q)\<rparr>)
          else Inr (q\<lparr>pl_queue := buff\<lparr>sb_last := sb_get buff 0\<rparr> # tl (pl_queue q)\<rparr>))"

text \<open>The token of the returned buffer, when it can be locked, is compared with the queue's.\<close>

definition pool_push :: "sbuffer \<Rightarrow> pool_queue \<Rightarrow> exn + pool_queue" where
  "pool_push b q =
     (if sb_token b \<noteq> pl_token q then Inr q
      else assertE (sb_user_index b = size_max) ''buff.get_user_index() == size_t(~0)''
             (Inr (q\<lparr>pl_queue := cb_push_back (pl_cap q) b (pl_queue q)\<rparr>)))"

text \<open>\<open>make_pool\<close>: the queue starts empty; each buffer is zeroed and dropped at once, which hands
  it to the token's function. The result is the queue and the buffers handed over.\<close>

fun pool_buffers ::
  "(int \<Rightarrow> nat \<Rightarrow> nat) \<Rightarrow> sbuffer_config \<Rightarrow> nat \<Rightarrow> world \<Rightarrow> sbuffer list \<times> world" where
  "pool_buffers numa cfg 0 w = ([], w)"
| "pool_buffers numa cfg (Suc n) w =
     (let (b, w) = make_sbuffer numa cfg w;
          w = w\<lparr>w_mem := memset (w_mem w) (sb_memory b) 0 (sb_actual b)\<rparr>;
          (bs, w) = pool_buffers numa cfg n w
      in (resurrect b # bs, w))"

definition make_pool ::
  "(int \<Rightarrow> nat \<Rightarrow> nat) \<Rightarrow> sbuffer_config \<Rightarrow> nat \<Rightarrow> world \<Rightarrow> (pool_queue \<times> sbuffer list) \<times> world" where
  "make_pool numa cfg n w =
     (let (bs, w) = pool_buffers numa cfg n w
      in ((\<lparr>pl_token = cfg_token cfg, pl_cap = n, pl_queue = []\<rparr>, bs), w))"

section \<open>The circular queue\<close>

record circ_queue =
  cq_token :: "nat option"
  cq_base :: nat
  cq_len :: nat
  cq_write :: nat
  cq_last :: nat
  cq_avail :: nat
  cq_ack :: nat
  cq_cap :: nat
  cq_available :: "sbuffer list"
  cq_returned :: "sbuffer option list"
  cq_outgone :: "nat list"

definition circ_empty :: "circ_queue \<Rightarrow> bool" where
  "circ_empty q \<longleftrightarrow> cq_avail q = 0 \<or> cq_available q = []"

text \<open>\<open>front\<close> moves the shared impl's memory to the write pointer.\<close>

definition circ_front :: "circ_queue \<Rightarrow> exn + sbuffer \<times> circ_queue" where
  "circ_front q =
     assertE (\<not> circ_empty q) ''not this->empty()''
      (assertE (sb_nonnull (hd (cq_available q))) ''front''
        (let f = (hd (cq_available q))\<lparr>sb_memory := cq_write q, sb_last := cq_last q\<rparr>
         in assertE (sb_offset f = 0) ''front.offset == 0''
             (assertE (cq_last q = cq_write q \<longrightarrow> sb_get f 0 = sb_last f) ''front.get() == front.last''
               (Inr (f, q\<lparr>cq_available := f # tl (cq_available q)\<rparr>)))))"

definition circ_store :: "sbuffer \<Rightarrow> circ_queue \<Rightarrow> circ_queue" where
  "circ_store b q = q\<lparr>cq_available := b # tl (cq_available q)\<rparr>"

definition circ_pop :: "circ_queue \<Rightarrow> exn + circ_queue" where
  "circ_pop q =
     assertE (\<not> circ_empty q) ''not this->empty()''
      (let front = hd (cq_available q)
       in assertE (sb_length front = 0) ''front.length == 0''
        (let n = sb_offset front
         in if length (cq_outgone q) \<le> sb_user_index front
            then Inl (Undefined ''_outgone_bytes index out of range'')
            else let w = cq_write q + n;
                     q = q\<lparr>cq_outgone := (cq_outgone q)[sb_user_index front := n],
                           cq_available := tl (cq_available q),
                           cq_last := w,
                           cq_write := (if cq_base q + cq_len q < w then w - cq_len q else w)\<rparr>
                 in assertE (n \<le> cq_avail q) ''_bytes_avail >= num_bytes''
                      (Inr (q\<lparr>cq_avail := cq_avail q - n\<rparr>))))"

text \<open>The loop of \<open>push\<close>: acknowledge returned buffers in the order they went out.\<close>

function circ_ack :: "circ_queue \<Rightarrow> exn + circ_queue" where
  "circ_ack q =
     (if length (cq_returned q) \<le> cq_ack q then Inl (Undefined ''_returned_buffers index out of range'')
      else case cq_returned q ! cq_ack q of
             None \<Rightarrow> Inr q
           | Some b \<Rightarrow>
               if length (cq_outgone q) \<le> cq_ack q then Inl (Undefined ''_outgone_bytes index out of range'')
               else circ_ack (q\<lparr>cq_avail := sz_add (cq_avail q) (cq_outgone q ! cq_ack q),
                           cq_available := cb_push_back (cq_cap q) b (cq_available q),
                           cq_returned := (cq_returned q)[cq_ack q := None],
                           cq_ack := (if Suc (cq_ack q) = length (cq_returned q) then 0
                                      else Suc (cq_ack q))\<rparr>))"
  by pat_completeness auto
termination
proof (relation "measure (\<lambda>q. length (filter (\<lambda>x. x \<noteq> None) (cq_returned q)))", goal_cases)
  case (2 q b)
  have "length (filter (\<lambda>x. x \<noteq> None) (xs[i := None])) < length (filter (\<lambda>x. x \<noteq> None) xs)"
    if "i < length xs" "xs ! i = Some b" for xs and i :: nat
    using that
  proof (induction xs arbitrary: i)
    case (Cons x xs)
    then show ?case by (cases i) auto
  qed simp
  with 2 show ?case by simp
qed simp

declare circ_ack.simps [simp del]

definition circ_push :: "sbuffer \<Rightarrow> circ_queue \<Rightarrow> exn + circ_queue" where
  "circ_push b q =
     (if sb_token b \<noteq> cq_token q then Inr q
      else assertE (sb_user_index b < length (cq_returned q)) ''buff.get_user_index() < _returned_buffers.size()''
             (circ_ack (q\<lparr>cq_returned := (cq_returned q)[sb_user_index b := Some b]\<rparr>)))"

text \<open>The constructor; \<open>(base, len)\<close> is the memory of \<open>make_circular_buffer\<close>. The second
  component are the buffers handed to the token's function, with user index \<open>0\<close> up.\<close>

fun circ_buffers :: "sbuffer_config \<Rightarrow> nat \<Rightarrow> nat \<Rightarrow> world \<Rightarrow> sbuffer list \<times> world" where
  "circ_buffers cfg i 0 w = ([], w)"
| "circ_buffers cfg i (Suc n) w =
     (let (b, w) = make_sbuffer (\<lambda>_ _. 0) (cfg\<lparr>cfg_user_index := i\<rparr>) w;
          (bs, w) = circ_buffers cfg (Suc i) n w
      in (resurrect b # bs, w))"

definition make_circ ::
  "nat \<times> nat \<Rightarrow> sbuffer_config \<Rightarrow> nat \<Rightarrow> world \<Rightarrow> (circ_queue \<times> sbuffer list) \<times> world" where
  "make_circ mem cfg n w =
     (let (base, len) = mem;
          (bs, w) = circ_buffers (cfg\<lparr>cfg_memory := base, cfg_has_deleter := True\<rparr>) 0 n w
      in ((\<lparr>cq_token = cfg_token cfg, cq_base = base, cq_len = len, cq_write = base, cq_last = 0,
            cq_avail = len, cq_ack = 0, cq_cap = n, cq_available = [],
            cq_returned = replicate n None, cq_outgone = replicate n 0\<rparr>, bs), w))"

section \<open>The interface\<close>

text \<open>\<open>room b\<close> are the bytes that can still be written into the buffer \<open>b\<close>; \<open>sent k b\<close> is the
  handle after \<open>k\<close> bytes were produced into it and its fields were advanced.\<close>

definition room :: "sbuffer \<Rightarrow> nat" where
  "room b = sb_actual b - sb_offset b"

definition sent :: "nat \<Rightarrow> sbuffer \<Rightarrow> sbuffer" where
  "sent k b = b\<lparr>sb_offset := sb_offset b + k, sb_length := 0\<rparr>"

locale buffer_queue =
  fixes inv :: "'q \<Rightarrow> bool" and emp :: "'q \<Rightarrow> bool" and frnt :: "'q \<Rightarrow> exn + sbuffer \<times> 'q"
    and store :: "sbuffer \<Rightarrow> 'q \<Rightarrow> 'q" and pop :: "'q \<Rightarrow> exn + 'q" and push :: "sbuffer \<Rightarrow> 'q \<Rightarrow> exn + 'q"
    and returnable :: "sbuffer \<Rightarrow> 'q \<Rightarrow> bool"
  assumes front_law: "inv q \<Longrightarrow> \<not> emp q \<Longrightarrow>
      \<exists>b q'. frnt q = Inr (b, q') \<and> inv q' \<and> \<not> emp q' \<and> sb_length b = 0 \<and> sb_offset b \<le> sb_actual b
        \<and> sb_actual b < size_mod"
    and pop_law: "inv q \<Longrightarrow> \<not> emp q \<Longrightarrow> frnt q = Inr (b, q') \<Longrightarrow> k \<le> room b \<Longrightarrow>
      \<exists>q''. pop (store (sent k b) q') = Inr q'' \<and> inv q''"
    and push_law: "inv q \<Longrightarrow> returnable b q \<Longrightarrow> \<exists>q'. push b q = Inr q' \<and> inv q'"
    and front_again: "inv q \<Longrightarrow> \<not> emp q \<Longrightarrow> frnt q = Inr (b, q') \<Longrightarrow>
      frnt (store (b\<lparr>sb_length := k\<rparr>) q') = Inr (b\<lparr>sb_length := k\<rparr>, store (b\<lparr>sb_length := k\<rparr>) q')
        \<and> \<not> emp (store (b\<lparr>sb_length := k\<rparr>) q') \<and> store b q' = q' \<and> frnt q' = Inr (b, q')"
    and store_store: "store c (store b q) = store c q"
begin

text \<open>Producing into the front buffer of a queue that has one never throws.\<close>

lemma produce_total:
  assumes "inv q" and "\<not> emp q"
  shows "\<exists>b q'. frnt q = Inr (b, q') \<and>
    (\<forall>k \<le> room b. \<exists>q''. pop (store (sent k b) q') = Inr q'' \<and> inv q'')"
proof -
  obtain b q' where f: "frnt q = Inr (b, q')" using front_law [OF assms] by blast
  with pop_law [OF assms f] show ?thesis by blast
qed

text \<open>The room of the front buffer of a queue that has one.\<close>

definition front_room :: "'q \<Rightarrow> nat \<Rightarrow> bool" where
  "front_room q n \<longleftrightarrow> \<not> emp q \<and> (\<exists>b q'. frnt q = Inr (b, q') \<and> n \<le> room b)"

lemma front_room_again:
  assumes "inv q" and "frnt q = Inr (b, q')" and "front_room q n"
  shows "front_room q' n"
proof -
  have ne: "\<not> emp q" and n: "n \<le> room b" using assms(2,3) by (auto simp: front_room_def)
  have "\<not> emp q'" using front_law [OF assms(1) ne] assms(2) by auto
  moreover have "frnt q' = Inr (b, q')" using front_again [OF assms(1) ne assms(2)] by blast
  ultimately show ?thesis using n by (auto simp: front_room_def)
qed

end

end
