(* ===== verification/Pool_Queue.thy ===== *)
theory Pool_Queue
  imports Buffer_Queue
begin

text \<open>
  The pool of lib/buffer_queue_pool.cpp provides the buffer queue interface; and the consequence
  of its half-consumed rule: which front buffers stay in the pool.
\<close>

definition pool_fresh :: "sbuffer \<Rightarrow> bool" where
  "pool_fresh b \<longleftrightarrow> sb_nonnull b \<and> sb_length b = 0 \<and> sb_offset b \<le> sb_actual b \<and> sb_actual b < size_mod"

definition pool_inv :: "pool_queue \<Rightarrow> bool" where
  "pool_inv q \<longleftrightarrow> (\<forall>b \<in> set (pl_queue q). pool_fresh b)"

definition pool_returnable :: "sbuffer \<Rightarrow> pool_queue \<Rightarrow> bool" where
  "pool_returnable b q \<longleftrightarrow> pool_fresh b \<and> sb_user_index b = size_max"

lemma pool_front_eq:
  assumes "pool_inv q" and "\<not> pool_empty q"
  shows "pool_front q = Inr (hd (pl_queue q), q)" and "pool_fresh (hd (pl_queue q))"
proof -
  show "pool_fresh (hd (pl_queue q))" using assms by (simp add: pool_inv_def pool_empty_def)
  then show "pool_front q = Inr (hd (pl_queue q), q)"
    using assms by (simp add: pool_front_def pool_fresh_def pool_empty_def)
qed

interpretation pool: buffer_queue pool_inv pool_empty pool_front pool_store pool_pop pool_push pool_returnable
proof (unfold_locales, goal_cases)
  case (1 q)
  then show ?case using pool_front_eq [OF 1] by (simp add: pool_fresh_def)
next
  case (2 q b q' k)
  note f = pool_front_eq [OF 2(1,2)]
  have "b = hd (pl_queue q)" "q' = q" using f 2(3) by simp_all
  moreover from this have "pool_fresh (sent k b)" "pool_fresh ((sent k b)\<lparr>sb_last := x\<rparr>)" for x
    using f(2) 2(4) by (auto simp: pool_fresh_def sent_def room_def sb_nonnull_def)
  moreover have "\<forall>b \<in> set (tl (pl_queue q)). pool_fresh b"
    using 2(1) by (simp add: pool_inv_def list.set_sel(2) pool_empty_def 2(2)[unfolded pool_empty_def])
  ultimately show ?case
    by (auto simp: pool_pop_def pool_store_def Let_def pool_inv_def)
next
  case (3 q b)
  then show ?case
    using list.set_sel(2) [of "pl_queue q"]
    by (cases "pl_queue q") (auto simp: pool_push_def pool_returnable_def pool_inv_def cb_push_back_def)
next
  case (4 q b q' k)
  note f = pool_front_eq [OF 4(1,2)]
  have "b = hd (pl_queue q)" "q' = q" using f 4(3) by simp_all
  with f 4(2) show ?case
    by (simp add: pool_store_def pool_front_def pool_fresh_def sb_nonnull_def pool_empty_def)
next
  case (5 c b q)
  then show ?case by (simp add: pool_store_def)
qed

text \<open>After \<open>k\<close> bytes went out of the front buffer, it is the front still exactly when no more than
  half of it is used.\<close>

lemma pool_pop_front:
  assumes "pl_queue q = b # bs" and "k \<le> room b"
  shows "\<exists>q'. pool_pop (pool_store (sent k b) q) = Inr q'
    \<and> pl_queue q' = (if sb_actual b div 2 < sb_offset b + k then bs
        else (sent k b)\<lparr>sb_last := sb_get (sent k b) 0\<rparr> # bs)
    \<and> pl_token q' = pl_token q \<and> pl_cap q' = pl_cap q"
  using assms by (auto simp: pool_pop_def pool_store_def Let_def sent_def)

end
