(* ===== verification/Circ_Queue.thy ===== *)
theory Circ_Queue
  imports Buffer_Queue
begin

text \<open>
  The invariant of the circular queue of lib/buffer_queue_circ.cpp, and that its front buffer
  never covers bytes that are still out: the buffers go out and are acknowledged in the cyclic
  order of their user index, the available bytes are the length less what is out, and the
  write pointer is the running total of bytes modulo the length.
\<close>

section \<open>The invariant\<close>

text \<open>Buffers that are out (downstream, or returned ahead of their turn): there are \<open>circ_out\<close>
  of them, the \<open>j\<close>-th oldest has user index \<open>circ_idx j\<close>, and \<open>circ_held j\<close> bytes are out
  from it on.\<close>

definition circ_out :: "circ_queue \<Rightarrow> nat" where
  "circ_out c = cq_cap c - length (cq_available c)"

definition circ_idx :: "circ_queue \<Rightarrow> nat \<Rightarrow> nat" where
  "circ_idx c j = (cq_ack c + j) mod cq_cap c"

definition circ_held :: "circ_queue \<Rightarrow> nat \<Rightarrow> nat" where
  "circ_held c j = (\<Sum>i = j..<circ_out c. cq_outgone c ! circ_idx c i)"

text \<open>A buffer of the queue as it is when nobody uses it.\<close>

definition circ_fresh :: "nat \<Rightarrow> nat \<Rightarrow> sbuffer \<Rightarrow> bool" where
  "circ_fresh clen i b \<longleftrightarrow>
     sb_user_index b = i \<and> sb_nonnull b \<and> sb_offset b = 0 \<and> sb_length b = 0 \<and> sb_actual b = clen"

definition circ_sizes :: "nat \<Rightarrow> circ_queue \<Rightarrow> bool" where
  "circ_sizes clen c \<longleftrightarrow>
     0 < clen \<and> 0 < cq_cap c \<and> length (cq_returned c) = cq_cap c \<and> length (cq_outgone c) = cq_cap c
     \<and> cq_ack c < cq_cap c \<and> length (cq_available c) \<le> cq_cap c
     \<and> cq_cap c * clen \<le> cq_len c \<and> cq_len c < size_mod
     \<and> cq_base c \<le> cq_write c \<and> cq_write c \<le> cq_base c + cq_len c
     \<and> (\<forall>i < cq_cap c. cq_outgone c ! i \<le> clen) \<and> cq_avail c + circ_held c 0 = cq_len c"

definition circ_buffs :: "nat \<Rightarrow> circ_queue \<Rightarrow> bool" where
  "circ_buffs clen c \<longleftrightarrow>
     (\<forall>j < length (cq_available c). circ_fresh clen (circ_idx c (circ_out c + j)) (cq_available c ! j))
     \<and> (\<forall>i < cq_cap c. \<forall>b. cq_returned c ! i = Some b \<longrightarrow>
          circ_fresh clen i b \<and> (\<exists>j < circ_out c. i = circ_idx c j))"

text \<open>The ghost part: \<open>written\<close> bytes were ever written, and \<open>addr i\<close> is the address at which the
  buffer with user index \<open>i\<close> last went out.\<close>

definition circ_ring :: "nat \<Rightarrow> (nat \<Rightarrow> nat) \<Rightarrow> circ_queue \<Rightarrow> bool" where
  "circ_ring written addr c \<longleftrightarrow>
     (cq_write c - cq_base c) mod cq_len c = written mod cq_len c \<and> circ_held c 0 \<le> written
     \<and> (\<forall>j < circ_out c. cq_outgone c ! circ_idx c j \<noteq> 0 \<longrightarrow>
          cq_base c \<le> addr (circ_idx c j)
          \<and> (addr (circ_idx c j) - cq_base c) mod cq_len c = (written - circ_held c j) mod cq_len c)"

definition circ_inv :: "nat \<Rightarrow> circ_queue \<Rightarrow> bool" where
  "circ_inv clen c \<longleftrightarrow> circ_sizes clen c \<and> circ_buffs clen c"

lemma mod_distinct:
  assumes "(a + i) mod n = (a + j) mod n" and "i < n" and "j < (n::nat)"
  shows "i = j"
proof -
  have "i \<le> j \<Longrightarrow> i < n \<Longrightarrow> j < n \<Longrightarrow> (a + i) mod n = (a + j) mod n \<Longrightarrow> i = j" for i j
    using mod_eq_dvd_iff_nat [of "a + i" "a + j" n] by (auto dest: dvd_imp_le)
  from this [of i j] this [of j i] show ?thesis using assms by force
qed

lemma circ_idx_distinct:
  "circ_idx c i = circ_idx c j \<Longrightarrow> i < cq_cap c \<Longrightarrow> j < cq_cap c \<Longrightarrow> i = j"
  unfolding circ_idx_def by (rule mod_distinct)

lemma circ_idx_less: "0 < cq_cap c \<Longrightarrow> circ_idx c j < cq_cap c"
  by (simp add: circ_idx_def)

lemma circ_held_le:
  assumes "circ_sizes clen c"
  shows "circ_held c j \<le> circ_out c * clen"
proof -
  have "circ_held c j \<le> (\<Sum>i = j..<circ_out c. clen)"
    unfolding circ_held_def
    by (rule sum_mono) (use assms in \<open>auto simp: circ_sizes_def circ_idx_def\<close>)
  also have "\<dots> \<le> circ_out c * clen" by simp
  finally show ?thesis .
qed

text \<open>A queue with a buffer has room for all of it.\<close>

lemma circ_room:
  assumes "circ_sizes clen c" and "cq_available c \<noteq> []"
  shows "clen \<le> cq_avail c"
proof -
  have "Suc (circ_out c) \<le> cq_cap c"
    using assms by (cases "cq_available c") (auto simp: circ_out_def circ_sizes_def)
  then have "Suc (circ_out c) * clen \<le> cq_cap c * clen" by (rule mult_le_mono1)
  then show ?thesis
    using circ_held_le [OF assms(1), of 0] assms(1) by (simp add: circ_sizes_def)
qed

lemma circ_empty_iff: "circ_sizes clen c \<Longrightarrow> circ_empty c \<longleftrightarrow> cq_available c = []"
  using circ_room [of clen c] by (cases "cq_available c = []") (auto simp: circ_empty_def circ_sizes_def)

lemma circ_held_split:
  assumes "j < circ_out c"
  shows "circ_held c j = cq_outgone c ! circ_idx c j + circ_held c (Suc j)"
  unfolding circ_held_def using assms by (simp add: sum.atLeast_Suc_lessThan)

lemma circ_held_antimono: "i \<le> j \<Longrightarrow> circ_held c j \<le> circ_held c i"
  unfolding circ_held_def by (rule sum_mono2) auto

section \<open>Sending a buffer\<close>

text \<open>Front, \<open>k\<close> bytes produced, pop.\<close>

definition circ_send :: "nat \<Rightarrow> circ_queue \<Rightarrow> exn + sbuffer \<times> circ_queue" where
  "circ_send k c = bindE (circ_front c) (\<lambda>(b, c). bindE (circ_pop (circ_store (sent k b) c)) (\<lambda>c. Inr (b, c)))"

lemma circ_front_eq:
  assumes "circ_inv clen c" and "cq_available c \<noteq> []"
  shows "circ_front c = Inr ((hd (cq_available c))\<lparr>sb_memory := cq_write c, sb_last := cq_last c\<rparr>,
    c\<lparr>cq_available := (hd (cq_available c))\<lparr>sb_memory := cq_write c, sb_last := cq_last c\<rparr>
        # tl (cq_available c)\<rparr>)"
    and "circ_fresh clen (circ_idx c (circ_out c)) (hd (cq_available c))"
proof -
  have "circ_fresh clen (circ_idx c (circ_out c + 0)) (cq_available c ! 0)"
    using assms unfolding circ_inv_def circ_buffs_def by blast
  then show f: "circ_fresh clen (circ_idx c (circ_out c)) (hd (cq_available c))"
    using assms(2) by (simp add: hd_conv_nth)
  show "circ_front c = Inr ((hd (cq_available c))\<lparr>sb_memory := cq_write c, sb_last := cq_last c\<rparr>,
    c\<lparr>cq_available := (hd (cq_available c))\<lparr>sb_memory := cq_write c, sb_last := cq_last c\<rparr>
        # tl (cq_available c)\<rparr>)"
    using assms f circ_empty_iff [of clen c]
    by (simp add: circ_front_def circ_inv_def circ_fresh_def sb_nonnull_def sb_get_def Let_def)
qed

definition circ_sent :: "nat \<Rightarrow> circ_queue \<Rightarrow> circ_queue" where
  "circ_sent k c =
     c\<lparr>cq_outgone := (cq_outgone c)[circ_idx c (circ_out c) := k],
       cq_available := tl (cq_available c), cq_last := cq_write c + k,
       cq_write := (if cq_base c + cq_len c < cq_write c + k then cq_write c + k - cq_len c
                    else cq_write c + k),
       cq_avail := cq_avail c - k\<rparr>"

lemma circ_send_eq:
  assumes "circ_inv clen c" and "cq_available c \<noteq> []" and "k \<le> clen"
  shows "\<exists>b. circ_send k c = Inr (b, circ_sent k c) \<and> sb_memory b = cq_write c
    \<and> sb_user_index b = circ_idx c (circ_out c) \<and> sb_offset b = 0 \<and> sb_actual b = clen \<and> sb_length b = 0"
proof -
  note f = circ_front_eq [OF assms(1,2)]
  have s: "circ_sizes clen c" using assms(1) by (simp add: circ_inv_def)
  have "circ_idx c (circ_out c) < cq_cap c"
    using s by (simp add: circ_sizes_def circ_idx_def)
  then show ?thesis
    using f assms s circ_room [OF s assms(2)]
    by (auto simp: circ_send_def circ_store_def circ_pop_def circ_fresh_def sent_def circ_empty_def
        circ_sizes_def circ_sent_def Let_def)
qed

lemma circ_out_le: "circ_sizes clen c \<Longrightarrow> cq_available c \<noteq> [] \<Longrightarrow> circ_out c < cq_cap c"
  by (cases "cq_available c") (auto simp: circ_out_def circ_sizes_def)

lemma circ_sent_out:
  assumes "circ_sizes clen c" and "cq_available c \<noteq> []"
  shows "circ_out (circ_sent k c) = Suc (circ_out c)" and "circ_idx (circ_sent k c) j = circ_idx c j"
    and "j \<le> circ_out c \<Longrightarrow> circ_held (circ_sent k c) j = circ_held c j + k"
    and "j < circ_out c \<Longrightarrow> cq_outgone (circ_sent k c) ! circ_idx c j = cq_outgone c ! circ_idx c j"
    and "cq_outgone (circ_sent k c) ! circ_idx c (circ_out c) = k"
proof -
  show o: "circ_out (circ_sent k c) = Suc (circ_out c)"
    using assms by (cases "cq_available c") (auto simp: circ_out_def circ_sent_def circ_sizes_def)
  show i: "circ_idx (circ_sent k c) j = circ_idx c j" for j
    by (simp add: circ_idx_def circ_sent_def)
  have n: "circ_out c < cq_cap c" using circ_out_le [OF assms] .
  have len: "circ_idx c j < length (cq_outgone c)" for j
    using assms(1) by (simp add: circ_sizes_def circ_idx_def)
  show g: "cq_outgone (circ_sent k c) ! circ_idx c j = cq_outgone c ! circ_idx c j" if "j < circ_out c" for j
  proof -
    have "circ_idx c (circ_out c) \<noteq> circ_idx c j"
      using circ_idx_distinct [of c "circ_out c" j] that n by auto
    then show ?thesis by (simp add: circ_sent_def)
  qed
  show h: "cq_outgone (circ_sent k c) ! circ_idx c (circ_out c) = k"
    by (simp add: circ_sent_def len)
  show "circ_held (circ_sent k c) j = circ_held c j + k" if "j \<le> circ_out c"
    using that g h by (simp add: circ_held_def o i)
qed

lemma circ_sent_inv:
  assumes "circ_inv clen c" and "cq_available c \<noteq> []" and "k \<le> clen"
  shows "circ_inv clen (circ_sent k c)"
proof -
  have s: "circ_sizes clen c" and b: "circ_buffs clen c" using assms(1) by (auto simp: circ_inv_def)
  note out = circ_sent_out [OF s assms(2), where k = k]
  have r: "k \<le> cq_avail c" using circ_room [OF s assms(2)] assms(3) by simp
  have "circ_held (circ_sent k c) 0 = circ_held c 0 + k" by (rule out(3)) simp
  moreover have "\<forall>i < cq_cap c. (cq_outgone c)[circ_idx c (circ_out c) := k] ! i \<le> clen"
    using s assms(3) by (simp add: circ_sizes_def nth_list_update circ_idx_less)
  ultimately have "circ_sizes clen (circ_sent k c)"
    using s r assms(3) by (auto simp: circ_sizes_def circ_sent_def)
  moreover have "circ_buffs clen (circ_sent k c)"
    unfolding circ_buffs_def
  proof (intro conjI allI impI)
    fix j assume "j < length (cq_available (circ_sent k c))"
    then have "Suc j < length (cq_available c)" by (simp add: circ_sent_def)
    with b have "circ_fresh clen (circ_idx c (circ_out c + Suc j)) (cq_available c ! Suc j)"
      unfolding circ_buffs_def by blast
    then show "circ_fresh clen (circ_idx (circ_sent k c) (circ_out (circ_sent k c) + j))
        (cq_available (circ_sent k c) ! j)"
      using \<open>Suc j < length (cq_available c)\<close> by (simp add: out) (simp add: circ_sent_def nth_tl)
  next
    fix i x assume "i < cq_cap (circ_sent k c)" "cq_returned (circ_sent k c) ! i = Some x"
    then have "circ_fresh clen i x \<and> (\<exists>j < circ_out c. i = circ_idx c j)"
      using b by (simp add: circ_buffs_def circ_sent_def)
    then show "circ_fresh clen i x" "\<exists>j < circ_out (circ_sent k c). i = circ_idx (circ_sent k c) j"
      by (auto simp: out less_Suc_eq)
  qed
  ultimately show ?thesis by (simp add: circ_inv_def)
qed

lemma circ_sent_ring:
  assumes "circ_inv clen c" and "cq_available c \<noteq> []" and "k \<le> clen" and "circ_ring written addr c"
  shows "circ_ring (written + k) (addr(circ_idx c (circ_out c) := cq_write c)) (circ_sent k c)"
proof -
  have s: "circ_sizes clen c" using assms(1) by (auto simp: circ_inv_def)
  note out = circ_sent_out [OF s assms(2), where k = k]
  have n: "circ_out c < cq_cap c" using circ_out_le [OF s assms(2)] .
  have base: "cq_base (circ_sent k c) = cq_base c" "cq_len (circ_sent k c) = cq_len c"
    by (simp_all add: circ_sent_def)
  have w: "(cq_write c - cq_base c) mod cq_len c = written mod cq_len c" "cq_base c \<le> cq_write c"
    using assms(4) s by (auto simp: circ_ring_def circ_sizes_def)
  have "(cq_write c + k - cq_base c) mod cq_len c = (written + k) mod cq_len c"
    using w by (metis Nat.add_diff_assoc2 mod_add_left_eq)
  moreover have "(cq_write c + k - cq_len c - cq_base c) mod cq_len c = (cq_write c + k - cq_base c) mod cq_len c"
    if "cq_base c + cq_len c < cq_write c + k"
  proof -
    have "cq_write c + k - cq_base c = (cq_write c + k - cq_len c - cq_base c) + cq_len c"
      using that by linarith
    then show ?thesis by simp
  qed
  ultimately have "(cq_write (circ_sent k c) - cq_base c) mod cq_len c = (written + k) mod cq_len c"
    by (simp add: circ_sent_def)
  moreover have "circ_held (circ_sent k c) 0 \<le> written + k"
    using assms(4) out(3) [of 0] by (simp add: circ_ring_def)
  moreover have "cq_base c \<le> (addr(circ_idx c (circ_out c) := cq_write c)) (circ_idx c j)
      \<and> ((addr(circ_idx c (circ_out c) := cq_write c)) (circ_idx c j) - cq_base c) mod cq_len c
        = (written + k - circ_held (circ_sent k c) j) mod cq_len c"
    if "j < Suc (circ_out c)" "cq_outgone (circ_sent k c) ! circ_idx c j \<noteq> 0" for j
  proof (cases "j = circ_out c")
    case True
    have "circ_held c (circ_out c) = 0" by (simp add: circ_held_def)
    then have "circ_held (circ_sent k c) j = k" using out(3) [of j] True by simp
    then show ?thesis using w True by simp
  next
    case False
    then have j: "j < circ_out c" using that(1) by simp
    then have "circ_idx c j \<noteq> circ_idx c (circ_out c)"
      using circ_idx_distinct [of c j "circ_out c"] n by auto
    then show ?thesis
      using assms(4) j that(2) out(3) [of j] out(4) [OF j] by (simp add: circ_ring_def)
  qed
  ultimately show ?thesis by (simp add: circ_ring_def base out)
qed

section \<open>Taking a buffer back\<close>

text \<open>One turn of the acknowledging loop: the oldest buffer that is out comes back.\<close>

definition circ_acked :: "sbuffer \<Rightarrow> circ_queue \<Rightarrow> circ_queue" where
  "circ_acked b c =
     c\<lparr>cq_avail := cq_avail c + cq_outgone c ! cq_ack c, cq_available := cq_available c @ [b],
       cq_returned := (cq_returned c)[cq_ack c := None],
       cq_ack := (if Suc (cq_ack c) = cq_cap c then 0 else Suc (cq_ack c))\<rparr>"

lemma circ_acked_out:
  assumes "circ_sizes clen c" and "0 < circ_out c"
  shows "Suc (circ_out (circ_acked b c)) = circ_out c"
    and "circ_idx (circ_acked b c) j = circ_idx c (Suc j)"
    and "circ_held (circ_acked b c) j = circ_held c (Suc j)"
    and "circ_idx c 0 = cq_ack c" and "cq_ack (circ_acked b c) < cq_cap c"
proof -
  show o: "Suc (circ_out (circ_acked b c)) = circ_out c"
    using assms(2) by (simp add: circ_out_def circ_acked_def)
  show "circ_idx c 0 = cq_ack c" "cq_ack (circ_acked b c) < cq_cap c"
    using assms(1) by (auto simp: circ_sizes_def circ_idx_def circ_acked_def)
  show i: "circ_idx (circ_acked b c) j = circ_idx c (Suc j)" for j
  proof (cases "Suc (cq_ack c) = cq_cap c")
    case True
    then have "(cq_ack c + Suc j) mod cq_cap c = j mod cq_cap c"
      by (metis add_Suc_right add_Suc mod_add_self1)
    with True show ?thesis by (simp add: circ_idx_def circ_acked_def)
  qed (simp add: circ_idx_def circ_acked_def)
  have g: "cq_outgone (circ_acked b c) = cq_outgone c" by (simp add: circ_acked_def)
  have "(\<Sum>i = j..<circ_out (circ_acked b c). cq_outgone c ! circ_idx c (Suc i))
      = (\<Sum>i = Suc j..<Suc (circ_out (circ_acked b c)). cq_outgone c ! circ_idx c i)"
    by (simp only: sum.shift_bounds_Suc_ivl)
  then show "circ_held (circ_acked b c) j = circ_held c (Suc j)"
    by (simp only: circ_held_def i g o)
qed

lemma circ_acked_inv:
  assumes "circ_inv clen c" and "cq_returned c ! cq_ack c = Some b"
  shows "circ_inv clen (circ_acked b c)" and "0 < circ_out c"
    and "cq_avail c + cq_outgone c ! cq_ack c < size_mod" and "length (cq_available c) < cq_cap c"
proof -
  have s: "circ_sizes clen c" and bf: "circ_buffs clen c" using assms(1) by (auto simp: circ_inv_def)
  have "circ_fresh clen (cq_ack c) b \<and> (\<exists>j < circ_out c. cq_ack c = circ_idx c j)"
    using bf assms(2) s by (auto simp: circ_buffs_def circ_sizes_def)
  then have fb: "circ_fresh clen (cq_ack c) b" and o: "0 < circ_out c" by auto
  note out = circ_acked_out [OF s o]
  show "0 < circ_out c" using o .
  have h: "circ_held c 0 = cq_outgone c ! cq_ack c + circ_held c (Suc 0)"
    using circ_held_split [OF o] out(4) by simp
  then show "cq_avail c + cq_outgone c ! cq_ack c < size_mod" using s by (simp add: circ_sizes_def)
  show a: "length (cq_available c) < cq_cap c" using o by (simp add: circ_out_def)
  have "circ_sizes clen (circ_acked b c)"
    using s a h out(5) unfolding circ_sizes_def out(3) by (simp add: circ_acked_def)
  moreover have "circ_buffs clen (circ_acked b c)"
    unfolding circ_buffs_def
  proof (intro conjI allI impI)
    fix j assume j: "j < length (cq_available (circ_acked b c))"
    have shift: "circ_idx (circ_acked b c) (circ_out (circ_acked b c) + j) = circ_idx c (circ_out c + j)"
      using out(1,2) by (metis add_Suc)
    show "circ_fresh clen (circ_idx (circ_acked b c) (circ_out (circ_acked b c) + j))
        (cq_available (circ_acked b c) ! j)"
    proof (cases "j = length (cq_available c)")
      case True
      have "circ_idx c (circ_out c + j) = cq_ack c"
        using a s True by (simp add: circ_idx_def circ_out_def circ_sizes_def)
      then show ?thesis using fb True unfolding shift by (simp add: circ_acked_def)
    next
      case False
      then have l: "j < length (cq_available c)" using j by (simp add: circ_acked_def)
      then have "circ_fresh clen (circ_idx c (circ_out c + j)) (cq_available c ! j)"
        using bf unfolding circ_buffs_def by blast
      then show ?thesis unfolding shift by (simp add: circ_acked_def nth_append l)
    qed
  next
    fix i x assume i: "i < cq_cap (circ_acked b c)" and r: "cq_returned (circ_acked b c) ! i = Some x"
    have ne: "i \<noteq> cq_ack c" using r i s by (auto simp: circ_acked_def circ_sizes_def)
    then have "cq_returned c ! i = Some x" "i < cq_cap c" using r i by (simp_all add: circ_acked_def)
    then obtain j where f: "circ_fresh clen i x" "j < circ_out c" "i = circ_idx c j"
      using bf unfolding circ_buffs_def by blast
    then have "j \<noteq> 0" using ne out(4) by metis
    then obtain j' where "j = Suc j'" by (cases j) auto
    moreover from this have "j' < circ_out (circ_acked b c)" using f(2) out(1) by (metis Suc_less_eq)
    ultimately show "circ_fresh clen i x"
      "\<exists>j < circ_out (circ_acked b c). i = circ_idx (circ_acked b c) j"
      using f out(2) by auto
  qed
  ultimately show "circ_inv clen (circ_acked b c)" by (simp add: circ_inv_def)
qed

lemma circ_acked_ring:
  assumes "circ_inv clen c" and "cq_returned c ! cq_ack c = Some b" and "circ_ring written addr c"
  shows "circ_ring written addr (circ_acked b c)"
proof -
  note inv = circ_acked_inv [OF assms(1,2)]
  have s: "circ_sizes clen c" using assms(1) by (simp add: circ_inv_def)
  note out = circ_acked_out [OF s inv(2)]
  have f: "cq_base (circ_acked b c) = cq_base c" "cq_len (circ_acked b c) = cq_len c"
    "cq_write (circ_acked b c) = cq_write c" "cq_outgone (circ_acked b c) = cq_outgone c"
    by (simp_all add: circ_acked_def)
  have "circ_held c (Suc 0) \<le> written"
    using assms(3) circ_held_antimono [of 0 "Suc 0" c] by (simp add: circ_ring_def)
  then show ?thesis
    using assms(3) out(1) unfolding circ_ring_def f out(2,3) by (metis Suc_less_eq)
qed

lemma circ_ack_total:
  "circ_inv clen c \<Longrightarrow> \<exists>c'. circ_ack c = Inr c' \<and> circ_inv clen c' \<and> circ_out c' \<le> circ_out c
    \<and> cq_base c' = cq_base c \<and> cq_len c' = cq_len c \<and> cq_token c' = cq_token c \<and> cq_cap c' = cq_cap c
    \<and> cq_returned c' ! cq_ack c' = None
    \<and> (circ_ring written addr c \<longrightarrow> circ_ring written addr c')"
proof (induction c rule: circ_ack.induct)
  case (1 c)
  have s: "circ_sizes clen c" using 1(2) by (simp add: circ_inv_def)
  have bd: "cq_ack c < length (cq_returned c)" "cq_ack c < length (cq_outgone c)"
    using s by (simp_all add: circ_sizes_def)
  show ?case
  proof (cases "cq_returned c ! cq_ack c")
    case None
    then have "circ_ack c = Inr c" using bd by (subst circ_ack.simps) simp
    with 1(2) None show ?thesis by blast
  next
    case (Some b)
    note inv = circ_acked_inv [OF 1(2) Some]
    have l: "length (cq_returned c) = cq_cap c" using s by (simp add: circ_sizes_def)
    have c': "c\<lparr>cq_avail := sz_add (cq_avail c) (cq_outgone c ! cq_ack c),
          cq_available := cb_push_back (cq_cap c) b (cq_available c),
          cq_returned := (cq_returned c)[cq_ack c := None],
          cq_ack := (if Suc (cq_ack c) = length (cq_returned c) then 0 else Suc (cq_ack c))\<rparr>
        = circ_acked b c"
      using inv(3,4) l by (simp add: circ_acked_def sz_add_exact)
    have e: "circ_ack c = circ_ack (circ_acked b c)"
      using bd Some c' by (subst circ_ack.simps) simp
    have "\<not> length (cq_returned c) \<le> cq_ack c" "\<not> length (cq_outgone c) \<le> cq_ack c" using bd by auto
    from 1(1) [OF this(1) Some this(2), unfolded c', OF inv(1)]
    obtain c'' where "circ_ack (circ_acked b c) = Inr c''" "circ_inv clen c''"
      "circ_out c'' \<le> circ_out (circ_acked b c)" "cq_base c'' = cq_base (circ_acked b c)"
      "cq_len c'' = cq_len (circ_acked b c)" "cq_token c'' = cq_token (circ_acked b c)"
      "cq_cap c'' = cq_cap (circ_acked b c)" "cq_returned c'' ! cq_ack c'' = None"
      "circ_ring written addr (circ_acked b c) \<longrightarrow> circ_ring written addr c''"
      by blast
    moreover have "circ_out (circ_acked b c) \<le> circ_out c"
      using circ_acked_out(1) [OF s inv(2), of b] by simp
    moreover have "cq_base (circ_acked b c) = cq_base c" "cq_len (circ_acked b c) = cq_len c"
      "cq_token (circ_acked b c) = cq_token c" "cq_cap (circ_acked b c) = cq_cap c"
      by (simp_all add: circ_acked_def)
    moreover have "circ_ring written addr c \<longrightarrow> circ_ring written addr (circ_acked b c)"
      using circ_acked_ring [OF 1(2) Some] by blast
    ultimately show ?thesis unfolding e by (metis le_trans)
  qed
qed

text \<open>A buffer that may come back: it is out, has not come back yet and is as the token's function
  leaves it.\<close>

definition circ_returnable :: "nat \<Rightarrow> sbuffer \<Rightarrow> circ_queue \<Rightarrow> bool" where
  "circ_returnable clen b c \<longleftrightarrow>
     sb_token b = cq_token c \<and> (\<exists>j < circ_out c. circ_fresh clen (circ_idx c j) b)
     \<and> cq_returned c ! sb_user_index b = None"

lemma circ_push_total:
  assumes "circ_inv clen c" and "circ_returnable clen b c"
  shows "\<exists>c'. circ_push b c = Inr c' \<and> circ_inv clen c' \<and> circ_out c' \<le> circ_out c
    \<and> cq_base c' = cq_base c \<and> cq_len c' = cq_len c \<and> cq_token c' = cq_token c \<and> cq_cap c' = cq_cap c
    \<and> cq_returned c' ! cq_ack c' = None
    \<and> (circ_ring written addr c \<longrightarrow> circ_ring written addr c')"
proof -
  have s: "circ_sizes clen c" and bf: "circ_buffs clen c" using assms(1) by (auto simp: circ_inv_def)
  obtain j where j: "j < circ_out c" "circ_fresh clen (circ_idx c j) b"
    using assms(2) by (auto simp: circ_returnable_def)
  have i: "sb_user_index b = circ_idx c j" "circ_idx c j < cq_cap c"
    using j(2) s by (auto simp: circ_fresh_def circ_sizes_def circ_idx_def)
  let ?c = "c\<lparr>cq_returned := (cq_returned c)[sb_user_index b := Some b]\<rparr>"
  have same: "circ_out ?c = circ_out c" "circ_idx ?c = circ_idx c" "circ_held ?c = circ_held c"
    by (simp_all add: circ_out_def circ_idx_def circ_held_def fun_eq_iff)
  have "circ_sizes clen ?c" using s by (simp add: circ_sizes_def same)
  moreover have "circ_buffs clen ?c"
    using bf j i s unfolding circ_buffs_def same
    by (simp add: nth_list_update circ_sizes_def) blast
  ultimately have "circ_inv clen ?c" by (simp add: circ_inv_def)
  moreover have "circ_ring written addr ?c = circ_ring written addr c" by (simp add: circ_ring_def same)
  moreover have "circ_push b c = circ_ack ?c"
    using assms(2) i s by (simp add: circ_push_def circ_returnable_def circ_sizes_def)
  ultimately show ?thesis using circ_ack_total [of clen ?c written addr] same(1) by auto
qed

section \<open>Reachable states\<close>

text \<open>The queue as the scheduler uses it: produce into the front buffer and pop it, or take back a
  buffer that is out. \<open>addr\<close> records where each buffer went out.\<close>

inductive circ_reach :: "nat \<Rightarrow> circ_queue \<Rightarrow> circ_queue \<Rightarrow> (nat \<Rightarrow> nat) \<Rightarrow> bool"
  for clen c0 where
  start: "circ_reach clen c0 c0 (\<lambda>_. 0)"
| send: "circ_reach clen c0 c addr \<Longrightarrow> k \<le> clen \<Longrightarrow> circ_send k c = Inr (b, c') \<Longrightarrow>
    circ_reach clen c0 c' (addr(sb_user_index b := sb_memory b))"
| giveback: "circ_reach clen c0 c addr \<Longrightarrow> circ_returnable clen b c \<Longrightarrow> circ_push b c = Inr c' \<Longrightarrow>
    circ_reach clen c0 c' addr"

lemma make_circ_inv:
  assumes "make_circ (base, len) cfg n w = ((c, bs), w')" and "0 < n" and "0 < cfg_length cfg"
    and "n * cfg_length cfg \<le> len" and "len < size_mod"
  shows "circ_inv (cfg_length cfg) c" and "circ_ring 0 addr c" and "cq_base c = base" and "cq_len c = len"
    and "circ_out c = n" and "cq_cap c = n"
proof -
  have c: "c = \<lparr>cq_token = cfg_token cfg, cq_base = base, cq_len = len, cq_write = base, cq_last = 0,
            cq_avail = len, cq_ack = 0, cq_cap = n, cq_available = [],
            cq_returned = replicate n None, cq_outgone = replicate n 0\<rparr>"
    using assms(1) by (auto simp: make_circ_def split: prod.splits)
  have h: "circ_held c j = 0" for j
    using assms(2) by (simp add: circ_held_def circ_idx_def c)
  show "circ_inv (cfg_length cfg) c" "circ_ring 0 addr c" "cq_base c = base" "cq_len c = len"
    "circ_out c = n" "cq_cap c = n"
    using assms h by (simp_all add: circ_inv_def circ_sizes_def circ_buffs_def circ_ring_def circ_idx_def
        circ_out_def) (simp_all add: c)
qed

lemma circ_send_sent:
  assumes "circ_inv clen c" and "k \<le> clen" and "circ_send k c = Inr (b, c')"
  shows "cq_available c \<noteq> [] \<and> c' = circ_sent k c \<and> sb_memory b = cq_write c
    \<and> sb_user_index b = circ_idx c (circ_out c)"
proof -
  have "cq_available c \<noteq> []"
    using assms(3) by (auto simp: circ_send_def circ_front_def circ_empty_def res_simps)
  with circ_send_eq [OF assms(1) this assms(2)] assms(3) show ?thesis by auto
qed

lemma circ_reach_inv:
  assumes "circ_reach clen c0 c addr" and "circ_inv clen c0" and "circ_ring 0 (\<lambda>_. 0) c0"
  shows "circ_inv clen c \<and> (\<exists>written. circ_ring written addr c) \<and> cq_base c = cq_base c0 \<and> cq_len c = cq_len c0"
  using assms
proof (induction rule: circ_reach.induct)
  case start
  then show ?case by blast
next
  case (send c addr k b c')
  then obtain written where ih: "circ_inv clen c" "circ_ring written addr c" "cq_base c = cq_base c0"
    "cq_len c = cq_len c0" by blast
  note s = circ_send_sent [OF ih(1) send.hyps(2,3)]
  show ?case
  proof -
    have "cq_base (circ_sent k c) = cq_base c" "cq_len (circ_sent k c) = cq_len c"
      by (simp_all add: circ_sent_def)
    then show ?thesis
      using s circ_sent_inv [OF ih(1) _ send.hyps(2)] circ_sent_ring [OF ih(1) _ send.hyps(2) ih(2)] ih(3,4)
      by metis
  qed
next
  case (giveback c addr b c')
  then obtain written where ih: "circ_inv clen c" "circ_ring written addr c" "cq_base c = cq_base c0"
    "cq_len c = cq_len c0" by blast
  then show ?case
    using circ_push_total [OF ih(1) giveback.hyps(2), of written addr] giveback.hyps(3) by auto
qed

text \<open>The bytes of the front buffer and the bytes that are out never share a place in the ring.\<close>

lemma circ_apart:
  assumes "circ_inv clen c" and "circ_ring written addr c" and "circ_front c = Inr (b, c')"
    and "j < circ_out c" and "x < clen" and "y < cq_outgone c ! circ_idx c j"
  shows "(sb_memory b + x - cq_base c) mod cq_len c \<noteq> (addr (circ_idx c j) + y - cq_base c) mod cq_len c"
proof
  assume eq: "(sb_memory b + x - cq_base c) mod cq_len c = (addr (circ_idx c j) + y - cq_base c) mod cq_len c"
  have s: "circ_sizes clen c" using assms(1) by (simp add: circ_inv_def)
  have ne: "cq_available c \<noteq> []"
    using assms(3) by (auto simp: circ_front_def circ_empty_def res_simps)
  have b: "sb_memory b = cq_write c" using assms(3) circ_front_eq(1) [OF assms(1) ne] by auto
  let ?h = "circ_held c j" and ?L = "cq_len c"
  have h: "cq_outgone c ! circ_idx c j \<le> ?h" using circ_held_split [OF assms(4)] by simp
  have "?h \<le> circ_held c 0" by (rule circ_held_antimono) simp
  with circ_room [OF s ne] s have fit: "?h + clen \<le> ?L" by (simp add: circ_sizes_def)
  have r: "(cq_write c - cq_base c) mod ?L = written mod ?L" "?h \<le> written"
    "cq_base c \<le> addr (circ_idx c j)" "(addr (circ_idx c j) - cq_base c) mod ?L = (written - ?h) mod ?L"
    "cq_base c \<le> cq_write c"
    using assms(2,4,6) s \<open>?h \<le> circ_held c 0\<close> by (auto simp: circ_ring_def circ_sizes_def)
  have "(cq_write c + x - cq_base c) mod ?L = (written + x) mod ?L"
    using r(1,5) by (metis Nat.add_diff_assoc2 mod_add_left_eq)
  moreover have "(addr (circ_idx c j) + y - cq_base c) mod ?L = (written - ?h + y) mod ?L"
    using r(3,4) by (metis Nat.add_diff_assoc2 mod_add_left_eq)
  ultimately have "(written - ?h + (?h + x)) mod ?L = (written - ?h + y) mod ?L"
    using eq r(2) by (simp add: b)
  from mod_distinct [OF this] fit assms(5,6) h show False by simp
qed

section \<open>The circular queue provides the interface\<close>

interpretation circ: buffer_queue "circ_inv clen" circ_empty circ_front circ_store circ_pop circ_push
    "circ_returnable clen" for clen
proof (unfold_locales, goal_cases)
  case (1 q)
  then have ne: "cq_available q \<noteq> []" by (auto simp: circ_inv_def circ_empty_iff)
  note f = circ_front_eq [OF 1(1) ne]
  let ?b = "(hd (cq_available q))\<lparr>sb_memory := cq_write q, sb_last := cq_last q\<rparr>"
  let ?q = "q\<lparr>cq_available := ?b # tl (cq_available q)\<rparr>"
  have same: "circ_out ?q = circ_out q" "circ_idx ?q = circ_idx q" "circ_held ?q = circ_held q"
    using ne by (auto simp: circ_out_def circ_idx_def circ_held_def fun_eq_iff neq_Nil_conv)
  have "circ_fresh clen (circ_idx q (circ_out q + j)) ((?b # tl (cq_available q)) ! j)"
    if "j < length (cq_available q)" for j
  proof (cases j)
    case 0
    then show ?thesis using f(2) by (simp add: circ_fresh_def sb_nonnull_def)
  next
    case (Suc i)
    then show ?thesis
      using 1(1) that ne by (auto simp: circ_inv_def circ_buffs_def nth_tl)
  qed
  then have "circ_inv clen ?q"
    using 1(1) ne by (auto simp: circ_inv_def circ_buffs_def circ_sizes_def same)
  moreover have "\<not> circ_empty ?q" using 1(2) by (simp add: circ_empty_def)
  moreover have "n * clen \<le> k \<Longrightarrow> 0 < n \<Longrightarrow> k < size_mod \<Longrightarrow> clen < size_mod" for n k
    using le_trans [of clen "n * clen" k] by (cases n) auto
  ultimately show ?case
    using f 1 by (auto simp: circ_fresh_def circ_inv_def circ_sizes_def)
next
  case (2 q b q' k)
  then have ne: "cq_available q \<noteq> []" by (auto simp: circ_inv_def circ_empty_iff)
  have "sb_offset b = 0 \<and> sb_actual b = clen"
    using circ_front_eq [OF 2(1) ne] 2(3) by (auto simp: circ_fresh_def)
  then have k: "k \<le> clen" using 2(4) by (simp add: room_def)
  from circ_send_eq [OF 2(1) ne k] 2(3)
  have "circ_pop (circ_store (sent k b) q') = Inr (circ_sent k q)"
    by (auto simp: circ_send_def res_simps)
  with circ_sent_inv [OF 2(1) ne k] show ?case by blast
next
  case (3 q b)
  then show ?case using circ_push_total by blast
next
  case (4 q b q' k)
  then have ne: "cq_available q \<noteq> []" by (auto simp: circ_inv_def circ_empty_iff)
  note f = circ_front_eq [OF 4(1) ne]
  have "b = (hd (cq_available q))\<lparr>sb_memory := cq_write q, sb_last := cq_last q\<rparr>"
    "q' = q\<lparr>cq_available := b # tl (cq_available q)\<rparr>"
    using f(1) 4(3) by auto
  with f(2) 4(2) show ?case
    by (cases "hd (cq_available q)")
      (simp add: circ_store_def circ_front_def circ_fresh_def sb_nonnull_def circ_empty_def sb_get_def Let_def)
next
  case (5 c b q)
  then show ?case by (simp add: circ_store_def)
qed

end
