(* ===== verification/Output_Queue.thy ===== *)
theory Output_Queue
  imports Pool_Queue Circ_Queue
begin

text \<open>
  lib/gras_impl/output_buffer_queues.hpp: the queues behind a block's output ports. As for the
  input queues, the i-th entries of all vectors are one record \<open>oport\<close>. The queue of a port is a
  pool or a circular queue behind the BufferQueue interface; \<open>bq_*\<close> is the virtual dispatch.
\<close>

section \<open>State\<close>

datatype bufq = PoolQ pool_queue | CircQ circ_queue

fun bq_empty :: "bufq \<Rightarrow> bool" where
  "bq_empty (PoolQ q) = pool_empty q"
| "bq_empty (CircQ q) = circ_empty q"

fun bq_front :: "bufq \<Rightarrow> exn + sbuffer \<times> bufq" where
  "bq_front (PoolQ q) = bindE (pool_front q) (\<lambda>(b, q). Inr (b, PoolQ q))"
| "bq_front (CircQ q) = bindE (circ_front q) (\<lambda>(b, q). Inr (b, CircQ q))"

fun bq_store :: "sbuffer \<Rightarrow> bufq \<Rightarrow> bufq" where
  "bq_store b (PoolQ q) = PoolQ (pool_store b q)"
| "bq_store b (CircQ q) = CircQ (circ_store b q)"

fun bq_pop :: "bufq \<Rightarrow> exn + bufq" where
  "bq_pop (PoolQ q) = bindE (pool_pop q) (\<lambda>q. Inr (PoolQ q))"
| "bq_pop (CircQ q) = bindE (circ_pop q) (\<lambda>q. Inr (CircQ q))"

fun bq_push :: "sbuffer \<Rightarrow> bufq \<Rightarrow> exn + bufq" where
  "bq_push b (PoolQ q) = bindE (pool_push b q) (\<lambda>q. Inr (PoolQ q))"
| "bq_push b (CircQ q) = bindE (circ_push b q) (\<lambda>q. Inr (CircQ q))"

record oport =
  op_ready :: bool
  op_queue :: "bufq option"
  op_reserve :: nat
  op_inline :: "sbuffer option"
  op_idle :: int
  op_became_idle :: int

record output_queues =
  oq_ports :: "oport list"
  oq_init_time :: int

definition new_oport :: "int \<Rightarrow> oport" where
  "new_oport now =
     \<lparr>op_ready = False, op_queue = None, op_reserve = 1, op_inline = None, op_idle = 0,
      op_became_idle = now\<rparr>"

definition oq_resize :: "nat \<Rightarrow> output_queues \<Rightarrow> world \<Rightarrow> output_queues \<times> world" where
  "oq_resize n q w =
     (let (t, w) = time_now w
      in (q\<lparr>oq_ports := resize n (new_oport t) (oq_ports q)\<rparr>, w))"

text \<open>\<open>resize(0)\<close> and back: everything of a port is reset, its reserve too.\<close>

definition oq_flush_all :: "output_queues \<Rightarrow> world \<Rightarrow> output_queues \<times> world" where
  "oq_flush_all q w =
     (let old = length (oq_ports q); (q, w) = oq_resize 0 q w in oq_resize old q w)"

section \<open>Operations on a port\<close>

text \<open>The accounting at the end of \<open>_update\<close>.\<close>

definition oq_account :: "int \<Rightarrow> bool \<Rightarrow> oport \<Rightarrow> world \<Rightarrow> exn + oport \<times> world" where
  "oq_account t0 was_ready p w =
     (let is_ready = op_ready p;
          (p, w) = (if is_ready \<and> \<not> was_ready
                    then let (t, w) = time_now w
                         in (p\<lparr>op_idle := op_idle p + (t - op_became_idle p)\<rparr>, w)
                    else (p, w));
          (p, w) = (if \<not> is_ready \<and> was_ready
                    then let (t, w) = time_now w in (p\<lparr>op_became_idle := t\<rparr>, w)
                    else (p, w));
          (t, w) = time_now w
      in assertE (op_idle p \<le> t - t0) ''total_idle_times[i] <= (time_now() - _init_time)''
           (Inr (p, w)))"

definition oq_update :: "int \<Rightarrow> oport \<Rightarrow> world \<Rightarrow> exn + oport \<times> world" where
  "oq_update t0 p w =
     bindE (case op_queue p of
              Some q \<Rightarrow>
                if bq_empty q then Inr (p\<lparr>op_ready := False\<rparr>)
                else bindE (bq_front q) (\<lambda>(front, q).
                  let avail = sz_sub (sz_sub (sb_actual front) (sb_offset front)) (sb_length front)
                  in Inr (p\<lparr>op_queue := Some q, op_ready := (op_reserve p \<le> avail)\<rparr>))
            | None \<Rightarrow> Inr (p\<lparr>op_ready := False\<rparr>)) (\<lambda>p'.
     oq_account t0 (op_ready p) p' w)"

definition set_buffer_queue :: "int \<Rightarrow> bufq option \<Rightarrow> oport \<Rightarrow> world \<Rightarrow> exn + oport \<times> world" where
  "set_buffer_queue t0 q p w = oq_update t0 (p\<lparr>op_queue := q\<rparr>) w"

definition set_reserve_bytes :: "int \<Rightarrow> nat \<Rightarrow> oport \<Rightarrow> world \<Rightarrow> exn + oport \<times> world" where
  "set_reserve_bytes t0 n p w =
     (let p = p\<lparr>op_reserve := n\<rparr>
      in if op_queue p = None then Inr (p, w) else oq_update t0 p w)"

definition oq_push :: "int \<Rightarrow> sbuffer \<Rightarrow> oport \<Rightarrow> world \<Rightarrow> exn + oport \<times> world" where
  "oq_push t0 b p w =
     (case op_queue p of
        None \<Rightarrow> Inr (p, w)
      | Some q \<Rightarrow> bindE (bq_push b q) (\<lambda>q. oq_update t0 (p\<lparr>op_queue := Some q\<rparr>) w))"

definition oq_empty :: "oport \<Rightarrow> bool" where
  "oq_empty p \<longleftrightarrow> op_inline p = None \<and> (case op_queue p of None \<Rightarrow> True | Some q \<Rightarrow> bq_empty q)"

definition oq_front :: "oport \<Rightarrow> exn + sbuffer \<times> oport" where
  "oq_front p =
     (case op_inline p of
        Some b \<Rightarrow> Inr (b, p)
      | None \<Rightarrow>
          assertE (\<not> oq_empty p) ''not this->empty(i)''
           (case op_queue p of
              None \<Rightarrow> Inl (Undefined ''null _queues[i]'')
            | Some q \<Rightarrow> bindE (bq_front q) (\<lambda>(b, q). Inr (b, p\<lparr>op_queue := Some q\<rparr>))))"

text \<open>Writing through the reference that \<open>front\<close> returned.\<close>

definition oq_store :: "sbuffer \<Rightarrow> oport \<Rightarrow> oport" where
  "oq_store b p =
     (case op_inline p of
        Some _ \<Rightarrow> p\<lparr>op_inline := Some b\<rparr>
      | None \<Rightarrow> p\<lparr>op_queue := map_option (bq_store b) (op_queue p)\<rparr>)"

definition oq_pop :: "int \<Rightarrow> oport \<Rightarrow> world \<Rightarrow> exn + oport \<times> world" where
  "oq_pop t0 p w =
     (if op_inline p \<noteq> None then Inr (p\<lparr>op_inline := None\<rparr>, w)
      else case op_queue p of
             None \<Rightarrow> Inl (Assert_Fail ''_queues[i]'')
           | Some q \<Rightarrow>
               assertE (\<not> bq_empty q) ''not _queues[i]->empty()''
                (bindE (bq_pop q) (\<lambda>q. oq_update t0 (p\<lparr>op_queue := Some q\<rparr>) w)))"

definition oq_consume :: "int \<Rightarrow> oport \<Rightarrow> world \<Rightarrow> exn + oport \<times> world" where
  "oq_consume t0 p w =
     (if op_inline p \<noteq> None then Inr (p\<lparr>op_inline := None\<rparr>, w)
      else assertE (\<not> oq_empty p) ''not this->empty(i)''
       (bindE (oq_front p) (\<lambda>(buff, p).
          if sb_length buff = 0 then Inr (p, w)
          else oq_pop t0 (oq_store (buff\<lparr>sb_offset := sb_offset buff + sb_length buff,
                                         sb_length := 0\<rparr>) p) w)))"

definition oq_fail :: "oport \<Rightarrow> world \<Rightarrow> oport \<times> world" where
  "oq_fail p w =
     (let (t, w) = time_now w in (p\<lparr>op_ready := False, op_became_idle := t\<rparr>, w))"

definition set_inline :: "sbuffer \<Rightarrow> oport \<Rightarrow> exn + oport" where
  "set_inline b p =
     assertE (op_inline p = None) ''not _inline_buffer[i]''
       (Inr (p\<lparr>op_inline := Some (b\<lparr>sb_length := 0\<rparr>), op_ready := True\<rparr>))"

definition oq_all_ready :: "output_queues \<Rightarrow> bool" where
  "oq_all_ready q \<longleftrightarrow> list_all op_ready (oq_ports q)"

definition on_oport ::
  "nat \<Rightarrow> (oport \<Rightarrow> world \<Rightarrow> exn + oport \<times> world) \<Rightarrow> output_queues \<Rightarrow> world
     \<Rightarrow> exn + output_queues \<times> world" where
  "on_oport i f q w =
     (if i < length (oq_ports q)
      then bindE (f (oq_ports q ! i) w) (\<lambda>(p, w). Inr (q\<lparr>oq_ports := (oq_ports q)[i := p]\<rparr>, w))
      else Inl (Undefined ''port index out of range''))"

section \<open>The queue of a port provides the interface\<close>

fun bq_inv :: "nat \<Rightarrow> bufq \<Rightarrow> bool" where
  "bq_inv clen (PoolQ q) = pool_inv q"
| "bq_inv clen (CircQ q) = circ_inv clen q"

fun bq_returnable :: "nat \<Rightarrow> sbuffer \<Rightarrow> bufq \<Rightarrow> bool" where
  "bq_returnable clen b (PoolQ q) = pool_returnable b q"
| "bq_returnable clen b (CircQ q) = circ_returnable clen b q"

interpretation bufq: buffer_queue "bq_inv clen" bq_empty bq_front bq_store bq_pop bq_push
    "bq_returnable clen" for clen
proof (unfold_locales, goal_cases)
  case (1 q)
  then show ?case
    using pool.front_law circ.front_law [of clen] by (cases q) fastforce+
next
  case (2 q b q' k)
  show ?case
  proof (cases q)
    case (PoolQ p)
    with 2(3) obtain p' where p': "q' = PoolQ p'" "pool_front p = Inr (b, p')"
      by (auto simp: res_simps)
    from pool.pop_law [OF _ _ p'(2) 2(4)] 2(1,2) PoolQ p'(1) show ?thesis by auto
  next
    case (CircQ p)
    with 2(3) obtain p' where p': "q' = CircQ p'" "circ_front p = Inr (b, p')"
      by (auto simp: res_simps)
    from circ.pop_law [OF _ _ p'(2) 2(4), of clen] 2(1,2) CircQ p'(1) show ?thesis by auto
  qed
next
  case (3 q b)
  then show ?case
    using pool.push_law circ.push_law [of clen] by (cases q) fastforce+
next
  case (4 q b q' k)
  show ?case
  proof (cases q)
    case (PoolQ p)
    with 4(3) obtain p' where p': "q' = PoolQ p'" "pool_front p = Inr (b, p')"
      by (auto simp: res_simps)
    from pool.front_again [OF _ _ p'(2), of k] 4(1,2) PoolQ p'(1) show ?thesis by auto
  next
    case (CircQ p)
    with 4(3) obtain p' where p': "q' = CircQ p'" "circ_front p = Inr (b, p')"
      by (auto simp: res_simps)
    from circ.front_again [OF _ _ p'(2), of clen k] 4(1,2) CircQ p'(1) show ?thesis by auto
  qed
next
  case (5 c b q)
  then show ?case using pool.store_store circ.store_store by (cases q) auto
qed

end
