(* ===== verification/Output_Props.thy ===== *)
theory Output_Props
  imports Output_Queue Samples
begin

text \<open>
  The output ports: readiness always means a buffer with the reserve to write into; producing
  into a ready port and returning buffers keep that; and the port that the pool's half-consumed
  rule leaves without a usable buffer.
\<close>

section \<open>The invariant of a port\<close>

definition otime_inv :: "int \<Rightarrow> oport \<Rightarrow> world \<Rightarrow> bool" where
  "otime_inv t0 p w \<longleftrightarrow>
     monotone_clock w \<and> op_idle p \<le> w_clock w (w_reads w) - t0
     \<and> op_became_idle p \<le> w_clock w (w_reads w) \<and> t0 \<le> op_became_idle p
     \<and> (\<not> op_ready p \<longrightarrow> op_idle p \<le> op_became_idle p - t0)"

definition queue_inv :: "nat \<Rightarrow> oport \<Rightarrow> bool" where
  "queue_inv clen p \<longleftrightarrow> (case op_queue p of None \<Rightarrow> True | Some q \<Rightarrow> bq_inv clen q)"

text \<open>A ready port has a queue whose front buffer has room for the reserve.\<close>

definition backed :: "oport \<Rightarrow> bool" where
  "backed p \<longleftrightarrow> (op_ready p \<longrightarrow> (\<exists>q. op_queue p = Some q \<and> bufq.front_room q (op_reserve p)))"

definition oport_inv :: "nat \<Rightarrow> int \<Rightarrow> oport \<Rightarrow> world \<Rightarrow> bool" where
  "oport_inv clen t0 p w \<longleftrightarrow> queue_inv clen p \<and> backed p \<and> otime_inv t0 p w"

lemma monotone_reads [simp]: "monotone_clock (w\<lparr>w_reads := n\<rparr>) \<longleftrightarrow> monotone_clock w"
  by (simp add: monotone_clock_def)

lemma oq_account_total:
  assumes "otime_inv t0 (p\<lparr>op_ready := was\<rparr>) w"
  shows "\<exists>p' w'. oq_account t0 was p w = Inr (p', w') \<and> otime_inv t0 p' w'
    \<and> op_queue p' = op_queue p \<and> op_ready p' = op_ready p \<and> op_reserve p' = op_reserve p
    \<and> op_inline p' = op_inline p"
proof -
  let ?n = "w_reads w"
  have m: "w_clock w ?n \<le> w_clock w (Suc ?n)" "w_clock w ?n \<le> w_clock w (Suc (Suc ?n))"
    "w_clock w (Suc ?n) \<le> w_clock w (Suc (Suc ?n))"
    using assms by (auto simp: otime_inv_def monotone_clock_def)
  show ?thesis
    using assms m
    by (cases "was"; cases "op_ready p")
      (auto simp: oq_account_def time_now_def otime_inv_def Let_def assertE_def)
qed

lemma sz_sub_room:
  "sb_length b = 0 \<Longrightarrow> sb_offset b \<le> sb_actual b \<Longrightarrow> sb_actual b < size_mod \<Longrightarrow>
     sz_sub (sz_sub (sb_actual b) (sb_offset b)) (sb_length b) = room b"
  by (simp add: sz_sub_exact room_def)

lemma oq_update_total:
  assumes "queue_inv clen p" and "otime_inv t0 p w"
  shows "\<exists>p' w'. oq_update t0 p w = Inr (p', w') \<and> oport_inv clen t0 p' w'
    \<and> op_reserve p' = op_reserve p \<and> op_inline p' = op_inline p
    \<and> op_ready p' = (case op_queue p of None \<Rightarrow> False | Some q \<Rightarrow> bufq.front_room q (op_reserve p))"
proof (cases "op_queue p = None \<or> bq_empty (the (op_queue p))")
  case True
  let ?p = "p\<lparr>op_ready := False\<rparr>"
  have "otime_inv t0 (?p\<lparr>op_ready := op_ready p\<rparr>) w" using assms(2) by simp
  from oq_account_total [OF this] obtain p' w' where
    "oq_account t0 (op_ready p) ?p w = Inr (p', w')" "otime_inv t0 p' w'" "op_queue p' = op_queue p"
    "\<not> op_ready p'" "op_reserve p' = op_reserve p" "op_inline p' = op_inline p" by auto
  then show ?thesis
    using True assms(1)
    by (auto simp: oq_update_def oport_inv_def queue_inv_def backed_def bufq.front_room_def split: option.splits)
next
  case False
  then obtain q where q: "op_queue p = Some q" "\<not> bq_empty q" by auto
  then have inv: "bq_inv clen q" using assms(1) by (simp add: queue_inv_def)
  obtain b q' where f: "bq_front q = Inr (b, q')" "bq_inv clen q'" "\<not> bq_empty q'" "sb_length b = 0"
    "sb_offset b \<le> sb_actual b" "sb_actual b < size_mod"
    using bufq.front_law [OF inv q(2)] by blast
  have again: "bq_front q' = Inr (b, q')" using bufq.front_again [OF inv q(2) f(1)] by blast
  let ?p = "p\<lparr>op_queue := Some q', op_ready := (op_reserve p \<le> room b)\<rparr>"
  have u: "oq_update t0 p w = oq_account t0 (op_ready p) ?p w"
    using q f sz_sub_room [of b] by (simp add: oq_update_def)
  have "otime_inv t0 (?p\<lparr>op_ready := op_ready p\<rparr>) w" using assms(2) by (simp add: otime_inv_def)
  from oq_account_total [OF this] obtain p' w' where
    "oq_account t0 (op_ready p) ?p w = Inr (p', w')" "otime_inv t0 p' w'" "op_queue p' = Some q'"
    "op_ready p' = (op_reserve p \<le> room b)" "op_reserve p' = op_reserve p" "op_inline p' = op_inline p"
    by auto
  then show ?thesis
    using f again q by (auto simp: u oport_inv_def queue_inv_def backed_def bufq.front_room_def)
qed

text \<open>A ready port with a pool of one 64-byte buffer, \<open>off\<close> bytes of it used.\<close>

definition sample_pool :: "nat \<Rightarrow> pool_queue" where
  "sample_pool off = \<lparr>pl_token = Some 7, pl_cap = 4, pl_queue = [sample_buff 10 1024 off 0 0]\<rparr>"

definition sample_oport :: "nat \<Rightarrow> nat \<Rightarrow> bool \<Rightarrow> oport" where
  "sample_oport off reserve ready =
     \<lparr>op_ready = ready, op_queue = Some (PoolQ (sample_pool off)), op_reserve = reserve,
      op_inline = None, op_idle = 0, op_became_idle = 0\<rparr>"

lemma sample_oport_inv: "oport_inv clen 0 (sample_oport 0 8 True) sample_world"
  by (simp add: oport_inv_def queue_inv_def backed_def otime_inv_def bufq.front_room_def sample_oport_def
      pool_inv_def pool_fresh_def pool_empty_def pool_front_def sample_pool_def sample_buff_def
      sb_nonnull_def room_def size_mod_def) (simp add: sample_world_def)

section \<open>Producing\<close>

text \<open>What a work call with \<open>k\<close> produced bytes does to a port: the bytes are recorded in the
  front buffer, and the port consumes it.\<close>

definition produce_on :: "int \<Rightarrow> nat \<Rightarrow> oport \<Rightarrow> world \<Rightarrow> exn + oport \<times> world" where
  "produce_on t0 k p w =
     bindE (oq_front p) (\<lambda>(b, p). oq_consume t0 (oq_store (b\<lparr>sb_length := k\<rparr>) p) w)"

lemma produce_on_queue:
  assumes inv: "oport_inv clen t0 p w" and inl: "op_inline p = None"
    and q: "op_queue p = Some q" "\<not> bq_empty q" and f: "bq_front q = Inr (b, q')" and k: "k \<le> room b"
  shows "\<exists>p' w'. produce_on t0 k p w = Inr (p', w') \<and> oport_inv clen t0 p' w'"
proof -
  have iq: "bq_inv clen q" and t: "otime_inv t0 p w"
    using inv q(1) by (auto simp: oport_inv_def queue_inv_def)
  note a = bufq.front_again [OF iq q(2) f]
  have fr: "oq_front p = Inr (b, p\<lparr>op_queue := Some q'\<rparr>)"
    using inl q f by (simp add: oq_front_def oq_empty_def)
  obtain b' q1 where fl: "bq_front q = Inr (b', q1)" "bq_inv clen q1" "sb_length b' = 0"
    using bufq.front_law [OF iq q(2)] by blast
  then have b0: "sb_length b = 0" and iq': "bq_inv clen q'" using f by auto
  have pr: "produce_on t0 k p w = oq_consume t0 (p\<lparr>op_queue := Some (bq_store (b\<lparr>sb_length := k\<rparr>) q')\<rparr>) w"
    by (simp add: produce_on_def fr oq_store_def inl)
  show ?thesis
  proof (cases "k = 0")
    case True
    have e: "b\<lparr>sb_length := 0\<rparr> = b" using b0 by (cases b) simp
    have s: "bq_store b q' = q'" "\<not> bq_empty q'" "bq_front q' = Inr (b, q')"
      using a [of 0] e by metis+
    have "produce_on t0 k p w = Inr (p\<lparr>op_queue := Some q'\<rparr>, w)"
      unfolding pr using True inl b0 by (simp add: e s oq_consume_def oq_empty_def oq_front_def)
    moreover have "oport_inv clen t0 (p\<lparr>op_queue := Some q'\<rparr>) w"
      using inv q iq' bufq.front_room_again [OF iq f]
      by (auto simp: oport_inv_def queue_inv_def backed_def otime_inv_def)
    ultimately show ?thesis by blast
  next
    case False
    let ?b = "b\<lparr>sb_length := k\<rparr>"
    obtain q2 where q2: "bq_pop (bq_store (sent k b) q') = Inr q2" "bq_inv clen q2"
      using bufq.pop_law [OF iq q(2) f k] by blast
    have s: "?b\<lparr>sb_offset := sb_offset ?b + sb_length ?b, sb_length := 0\<rparr> = sent k b"
      by (simp add: sent_def)
    have ne: "\<not> bq_empty (bq_store (sent k b) q')"
      using q2(1) by (cases "bq_store (sent k b) q'")
        (auto simp: res_simps pool_pop_def circ_pop_def pool_empty_def)
    have "produce_on t0 k p w = oq_update t0 (p\<lparr>op_queue := Some q2\<rparr>) w"
      using False a [of k] inl s ne q2(1)
      by (simp add: pr oq_store_def oq_consume_def oq_empty_def oq_front_def oq_pop_def bufq.store_store)
    moreover have "otime_inv t0 (p\<lparr>op_queue := Some q2\<rparr>) w" "queue_inv clen (p\<lparr>op_queue := Some q2\<rparr>)"
      using t q2(2) by (simp_all add: otime_inv_def queue_inv_def)
    ultimately show ?thesis using oq_update_total by (metis (no_types, lifting))
  qed
qed



text \<open>A buffer that comes back from downstream is taken back, or thrown away when it is not the
  queue's own or the block has no queue any more, without an exception, and the port is then
  ready exactly when its front buffer has room for the reserve.\<close>

theorem output_push_total:
  assumes "oport_inv clen t0 p w" and "\<forall>q. op_queue p = Some q \<longrightarrow> bq_returnable clen b q"
  shows "\<exists>p' w'. oq_push t0 b p w = Inr (p', w') \<and> oport_inv clen t0 p' w'
    \<and> op_reserve p' = op_reserve p \<and> op_inline p' = op_inline p"
proof (cases "op_queue p")
  case None
  with assms(1) show ?thesis by (simp add: oq_push_def)
next
  case (Some q)
  then obtain q' where q': "bq_push b q = Inr q'" "bq_inv clen q'"
    using assms bufq.push_law [of clen q b] by (auto simp: oport_inv_def queue_inv_def)
  have "queue_inv clen (p\<lparr>op_queue := Some q'\<rparr>)" "otime_inv t0 (p\<lparr>op_queue := Some q'\<rparr>) w"
    using q' assms(1) by (simp_all add: queue_inv_def oport_inv_def otime_inv_def)
  from oq_update_total [OF this] q' Some show ?thesis by (auto simp: oq_push_def)
qed

lemma output_push_total_witness:
  "\<exists>p' w'. oq_push 0 (sample_buff 11 2048 0 0 0) (sample_oport 0 8 True) sample_world = Inr (p', w')
     \<and> oport_inv 0 0 p' w'"
proof -
  have "\<forall>q. op_queue (sample_oport 0 8 True) = Some q \<longrightarrow> bq_returnable 0 (sample_buff 11 2048 0 0 0) q"
    by (simp add: sample_oport_def pool_returnable_def pool_fresh_def sample_buff_def sb_nonnull_def size_mod_def)
  from output_push_total [OF sample_oport_inv this] show ?thesis by blast
qed

section \<open>A port that never becomes ready again\<close>

text \<open>When a reserve of more than half a buffer is configured and a work call leaves the front
  buffer of the pool no more than half used but with less than the reserve, the pool keeps that
  buffer in front and the port stays not ready, however many other buffers come back.\<close>

theorem output_pool_starves:
  assumes "op_queue p = Some (PoolQ q)" and "pl_queue q = b # bs" and "pool_fresh b"
    and "sb_offset b \<le> sb_actual b div 2" and "room b < op_reserve p"
    and "op_ready p = False" and "otime_inv t0 p w"
    and "length (b # bs) + length rs \<le> pl_cap q" and "\<forall>r \<in> set rs. sb_user_index r = size_max"
  shows "\<exists>p' w'. foldE (\<lambda>r. case_prod (oq_push t0 r)) rs (p, w) = Inr (p', w') \<and> op_ready p' = False"
  using assms
proof (induction rs arbitrary: p q bs w)
  case Nil
  then show ?case by simp
next
  case (Cons r rs)
  obtain q1 bs1 where push: "pool_push r q = Inr q1" "pl_queue q1 = b # bs1"
    "length bs1 \<le> Suc (length bs)" "pl_cap q1 = pl_cap q"
  proof (cases "sb_token r = pl_token q")
    case True
    then have "pool_push r q = Inr (q\<lparr>pl_queue := b # (bs @ [r])\<rparr>)"
      using Cons.prems(2,8,9) by (simp add: pool_push_def)
    then show ?thesis by (rule that [of _ "bs @ [r]"]) simp_all
  next
    case False
    then have "pool_push r q = Inr q" by (simp add: pool_push_def)
    then show ?thesis by (rule that [of _ bs]) (simp_all add: Cons.prems(2))
  qed
  let ?p = "p\<lparr>op_queue := Some (PoolQ q1)\<rparr>"
  have "otime_inv t0 (?p\<lparr>op_ready := op_ready p\<rparr>) w" using Cons.prems(7) by (simp add: otime_inv_def)
  then have t: "otime_inv t0 ((?p\<lparr>op_ready := False\<rparr>)\<lparr>op_ready := op_ready p\<rparr>) w" by simp
  from oq_account_total [OF this] obtain p' w' where
    acc: "oq_account t0 (op_ready p) (?p\<lparr>op_ready := False\<rparr>) w = Inr (p', w')" "otime_inv t0 p' w'"
    "op_queue p' = Some (PoolQ q1)" "op_ready p' = False" "op_reserve p' = op_reserve p" by auto
  have "oq_push t0 r p w = oq_update t0 ?p w"
    using Cons.prems(1) push(1) by (simp add: oq_push_def)
  also have "\<dots> = oq_account t0 (op_ready p) (?p\<lparr>op_ready := False\<rparr>) w"
    using push(2) Cons.prems(3,5) sz_sub_room [of b]
    by (simp add: oq_update_def pool_empty_def pool_front_def pool_fresh_def)
  finally have step: "oq_push t0 r p w = Inr (p', w')" using acc(1) by simp
  have "\<exists>p2 w2. foldE (\<lambda>r. case_prod (oq_push t0 r)) rs (p', w') = Inr (p2, w2) \<and> op_ready p2 = False"
    by (rule Cons.IH [OF acc(3) push(2) Cons.prems(3,4)])
      (use Cons.prems acc push in auto)
  with step show ?case by simp
qed

lemma output_pool_starves_witness:
  "\<exists>p' w'. foldE (\<lambda>r. case_prod (oq_push 0 r)) [sample_buff 11 2048 0 0 0, sample_buff 12 3072 0 0 0]
     (sample_oport 32 48 False, sample_world) = Inr (p', w') \<and> op_ready p' = False"
proof (rule output_pool_starves)
  show "op_queue (sample_oport 32 48 False) = Some (PoolQ (sample_pool 32))"
    by (simp add: sample_oport_def)
  show "pl_queue (sample_pool 32) = sample_buff 10 1024 32 0 0 # []" by (simp add: sample_pool_def)
qed (simp_all add: pool_fresh_def sample_buff_def sb_nonnull_def size_mod_def room_def sample_oport_def
    sample_pool_def otime_inv_def, simp add: sample_world_def)

section \<open>The circular buffer\<close>

text \<open>C5 Whatever sequence of produced and returned buffers a circular queue has gone through, no
  byte of the buffer it offers next shares a place of the ring with a byte of a buffer that is
  still out.\<close>

theorem circ_front_apart:
  assumes "make_circ (base, len) cfg n w = ((c0, bs), w')" and "0 < n" and "0 < cfg_length cfg"
    and "n * cfg_length cfg \<le> len" and "len < size_mod"
    and "circ_reach (cfg_length cfg) c0 c addr" and "circ_front c = Inr (b, c1)"
    and "j < circ_out c" and "x < cfg_length cfg" and "y < cq_outgone c ! circ_idx c j"
  shows "(sb_memory b + x - base) mod len \<noteq> (addr (circ_idx c j) + y - base) mod len"
proof -
  note m = make_circ_inv [OF assms(1-5)]
  obtain written where "circ_inv (cfg_length cfg) c" "circ_ring written addr c" "cq_base c = base" "cq_len c = len"
    using circ_reach_inv [OF assms(6) m(1,2)] m(3,4) by blast
  with circ_apart [OF _ _ assms(7-10)] show ?thesis by blast
qed

definition sample_circ_cfg :: sbuffer_config where
  "sample_circ_cfg = default_sbuffer_config\<lparr>cfg_length := 4, cfg_token := Some 7\<rparr>"

definition sample_circ :: circ_queue where
  "sample_circ = \<lparr>cq_token = Some 7, cq_base = 4096, cq_len = 8, cq_write = 4096, cq_last = 0, cq_avail = 8,
     cq_ack = 0, cq_cap = 2, cq_available = [], cq_returned = [None, None], cq_outgone = [0, 0]\<rparr>"

definition circ_piece :: "nat \<Rightarrow> sbuffer" where
  "circ_piece i = (sample_buff (10 + i) 4096 0 0 0)\<lparr>sb_actual := 4, sb_user_index := i\<rparr>"

text \<open>A queue with one of its two buffers out.\<close>

lemma sample_circ_sent:
  "\<exists>c addr b c1. circ_reach 4 sample_circ c addr \<and> circ_front c = Inr (b, c1) \<and> 0 < circ_out c
     \<and> cq_outgone c ! circ_idx c 0 = 4"
proof -
  let ?c1 = "sample_circ\<lparr>cq_available := [circ_piece 0], cq_ack := 1\<rparr>"
  let ?c2 = "sample_circ\<lparr>cq_available := [circ_piece 0, circ_piece 1]\<rparr>"
  let ?c3 = "circ_sent 4 ?c2"
  have p: "circ_push (circ_piece 0) sample_circ = Inr ?c1" "circ_push (circ_piece 1) ?c1 = Inr ?c2"
    by (simp_all add: circ_push_def sample_circ_def circ_piece_def sample_buff_def circ_ack.simps
        sz_add_def size_mod_def)
  have r: "circ_returnable 4 (circ_piece 0) sample_circ" "circ_returnable 4 (circ_piece 1) ?c1"
    by (auto simp: circ_returnable_def circ_fresh_def circ_out_def circ_idx_def sample_circ_def circ_piece_def
        sample_buff_def sb_nonnull_def intro: exI [of _ 0])
  have "circ_reach 4 sample_circ ?c2 (\<lambda>_. 0)"
    using circ_reach.giveback [OF circ_reach.giveback [OF circ_reach.start r(1) p(1)] r(2) p(2)] .
  moreover have s: "circ_send 4 ?c2 = Inr ((circ_piece 0)\<lparr>sb_memory := 4096\<rparr>, ?c3)"
    by (simp add: circ_send_def circ_front_def circ_empty_def circ_store_def circ_pop_def sample_circ_def
        circ_piece_def sample_buff_def sb_nonnull_def sent_def sb_get_def circ_sent_def circ_idx_def
        circ_out_def Let_def)
  ultimately have reach: "circ_reach 4 sample_circ ?c3 ((\<lambda>_. 0)(0 := 4096))"
    using circ_reach.send [of 4 sample_circ ?c2 "\<lambda>_. 0" 4] by (simp add: circ_piece_def)
  obtain b c4 where f: "circ_front ?c3 = Inr (b, c4)"
    by (simp add: circ_front_def circ_empty_def sample_circ_def circ_piece_def sample_buff_def sb_nonnull_def
        sb_get_def circ_sent_def circ_idx_def circ_out_def Let_def)
  have "circ_out ?c3 = 1" "cq_outgone ?c3 ! circ_idx ?c3 0 = 4"
    by (simp_all add: circ_sent_def circ_idx_def circ_out_def sample_circ_def)
  with reach f show ?thesis by fastforce
qed

lemma circ_front_apart_witness:
  "\<exists>c addr b c1. circ_reach 4 sample_circ c addr \<and> circ_front c = Inr (b, c1) \<and> 0 < circ_out c
     \<and> (sb_memory b + 1 - 4096) mod 8 \<noteq> (addr (circ_idx c 0) + 2 - 4096) mod 8"
proof -
  obtain bs w' where "circ_buffers (sample_circ_cfg\<lparr>cfg_memory := 4096, cfg_has_deleter := True\<rparr>) 0 2 sample_world
      = (bs, w')" by fastforce
  then have mk: "make_circ (4096, 8) sample_circ_cfg 2 sample_world = ((sample_circ, bs), w')"
    by (simp add: make_circ_def sample_circ_def) (simp add: sample_circ_cfg_def numeral_2_eq_2)
  have l: "cfg_length sample_circ_cfg = 4" by (simp add: sample_circ_cfg_def)
  obtain c addr b c1 where r: "circ_reach 4 sample_circ c addr" "circ_front c = Inr (b, c1)" "0 < circ_out c"
    "cq_outgone c ! circ_idx c 0 = 4"
    using sample_circ_sent by blast
  have "(sb_memory b + 1 - 4096) mod 8 \<noteq> (addr (circ_idx c 0) + 2 - 4096) mod 8"
    by (rule circ_front_apart [OF mk _ _ _ _ r(1) [folded l] r(2,3)]) (simp_all add: l r(4) size_mod_def)
  with r show ?thesis by blast
qed

end
