(* ===== verification/Block_Config.thy ===== *)
theory Block_Config
  imports SBuffer
begin

text \<open>
  lib/block_config.cpp, include/gras/block_config.hpp, the config accessors of lib/block.cpp, the
  vector helpers of lib/topology_handler.cpp and the length computation of
  lib/block_allocator.cpp.

  A thread pool is the identity of the shared pointer, \<open>None\<close> when it is null.
\<close>

section \<open>Port and block configuration\<close>

record global_config =
  gc_maximum_output_items :: nat
  gc_buffer_affinity :: int
  gc_interruptible_work :: bool
  gc_thread_pool :: "nat option"

definition default_global_config :: global_config where
  "default_global_config =
     \<lparr>gc_maximum_output_items = 0, gc_buffer_affinity = -1, gc_interruptible_work = False,
      gc_thread_pool = None\<rparr>"

definition gc_merge :: "global_config \<Rightarrow> global_config \<Rightarrow> global_config" where
  "gc_merge this config =
     \<lparr>gc_maximum_output_items =
        (if gc_maximum_output_items this = 0 then gc_maximum_output_items config
         else gc_maximum_output_items this),
      gc_buffer_affinity =
        (if gc_buffer_affinity this = -1 then gc_buffer_affinity config else gc_buffer_affinity this),
      gc_interruptible_work =
        (if gc_interruptible_work this = False then gc_interruptible_work config
         else gc_interruptible_work this),
      gc_thread_pool =
        (if gc_thread_pool this = None then gc_thread_pool config else gc_thread_pool this)\<rparr>"

record input_config =
  ic_item_size :: nat
  ic_reserve_items :: nat
  ic_maximum_items :: nat
  ic_inline_buffer :: bool
  ic_preload_items :: nat

definition default_input_config :: input_config where
  "default_input_config =
     \<lparr>ic_item_size = 1, ic_reserve_items = 1, ic_maximum_items = 0, ic_inline_buffer = False,
      ic_preload_items = 0\<rparr>"

record output_config =
  oc_item_size :: nat
  oc_reserve_items :: nat
  oc_maximum_items :: nat

definition default_output_config :: output_config where
  "default_output_config = \<lparr>oc_item_size = 1, oc_reserve_items = 1, oc_maximum_items = 0\<rparr>"

section \<open>Vectors that grow on access\<close>

text \<open>\<open>resize_fill_grow\<close> and \<open>resize_fill_back\<close>; \<open>d\<close> is the value-initialised element of the
  vector's type.\<close>

definition resize_fill_grow :: "nat \<Rightarrow> 'a \<Rightarrow> 'a list \<Rightarrow> 'a list" where
  "resize_fill_grow n fill v = (if n \<le> length v then v else resize n fill v)"

definition resize_fill_back :: "'a \<Rightarrow> nat \<Rightarrow> 'a list \<Rightarrow> 'a list" where
  "resize_fill_back d n v =
     (let v = (if v = [] then [d] else v) in resize_fill_grow n (last v) v)"

text \<open>\<open>vector_get_const\<close>, \<open>back()\<close> of an empty vector being undefined, and \<open>vector_get_resize\<close>,
  which returns a reference: the resized vector is the model's result.\<close>

definition vector_get_const :: "'a list \<Rightarrow> nat \<Rightarrow> exn + 'a" where
  "vector_get_const v i =
     (if length v \<le> i
      then if v = [] then Inl (Undefined ''back of an empty vector'') else Inr (last v)
      else Inr (v ! i))"

definition vector_get_resize :: "'a \<Rightarrow> 'a list \<Rightarrow> nat \<Rightarrow> 'a list" where
  "vector_get_resize d v i =
     (if length v \<le> i
      then let v = (if v = [] then [d] else v) in resize (Suc i) (last v) v
      else v)"

text \<open>The const accessor sees what the growing one would make.\<close>

lemma vector_get_agree:
  assumes "v \<noteq> []"
  shows "vector_get_const v i = Inr (vector_get_resize d v i ! i)" and "i < length (vector_get_resize d v i)"
  using assms by (auto simp: vector_get_const_def vector_get_resize_def Let_def nth_resize)

lemma vector_get_resize_old: "j < length v \<Longrightarrow> vector_get_resize d v i ! j = v ! j"
  by (auto simp: vector_get_resize_def Let_def nth_resize)

lemma length_resize_fill_grow: "n \<le> length (resize_fill_grow n d v)"
  by (simp add: resize_fill_grow_def)

lemma length_resize_fill_back: "n \<le> length (resize_fill_back d n v)"
  by (simp add: resize_fill_back_def resize_fill_grow_def Let_def)

lemma resize_fill_back_nth:
  "v \<noteq> [] \<Longrightarrow> i < length (resize_fill_back d n v) \<Longrightarrow>
     resize_fill_back d n v ! i = (if i < length v then v ! i else last v)"
  by (auto simp: resize_fill_back_def resize_fill_grow_def Let_def nth_resize)

section \<open>The length of an output buffer\<close>

definition AT_LEAST_BYTES :: nat where
  "AT_LEAST_BYTES = 32 * 1024"

definition AHH_TOO_MANY_BYTES :: nat where
  "AHH_TOO_MANY_BYTES = 32 * (1024 * 1024)"

definition THIS_MANY_BUFFERS :: nat where
  "THIS_MANY_BUFFERS = 8"

text \<open>\<open>((num)*(mult))+(mult)-1)/(mult)\<close> as the preprocessor leaves it: the last division takes
  back the multiplication.\<close>

definition my_round_up_mult :: "nat \<Rightarrow> nat \<Rightarrow> exn + nat" where
  "my_round_up_mult num m =
     (if m = 0 then Inl (Undefined ''division by zero'')
      else Inr (sz_sub (sz_add (sz_mul num m) m) 1 div m))"

text \<open>Step 1: the super-reserve.\<close>

definition super_reserve :: "nat list \<Rightarrow> nat \<Rightarrow> nat" where
  "super_reserve hints at_least = foldl max at_least hints"

text \<open>Step 2: the loop; a super-reserve of 0 never reaches a positive hint.\<close>

partial_function (option) grow_by :: "nat \<Rightarrow> nat \<Rightarrow> nat \<Rightarrow> nat option" where
  "grow_by hint n k = (if hint > n then grow_by hint (sz_add n k) k else Some n)"

text \<open>Step 3: the cap. The hints are their \<open>reserve_bytes\<close>.\<close>

definition recommend_length :: "nat list \<Rightarrow> nat \<Rightarrow> nat \<Rightarrow> nat \<Rightarrow> nat option" where
  "recommend_length hints hint_bytes at_least_bytes at_most_bytes =
     (let m = super_reserve hints at_least_bytes
      in case grow_by hint_bytes m m of
           None \<Rightarrow> None
         | Some n \<Rightarrow>
             Some (if at_most_bytes \<noteq> 0 then min n at_most_bytes else min n AHH_TOO_MANY_BYTES))"

lemma super_reserve_ge:
  "at_least \<le> super_reserve hints at_least" "h \<in> set hints \<Longrightarrow> h \<le> super_reserve hints at_least"
proof -
  have *: "a \<le> foldl max a hs \<and> (\<forall>h \<in> set hs. h \<le> foldl max a hs)" for a :: nat and hs
    by (induction hs arbitrary: a) (auto, (meson le_max_iff_disj order.trans max.cobounded1 max.cobounded2)+)
  show "at_least \<le> super_reserve hints at_least" "h \<in> set hints \<Longrightarrow> h \<le> super_reserve hints at_least"
    using * by (auto simp: super_reserve_def)
qed

lemma super_reserve_in: "super_reserve hints at_least \<in> insert at_least (set hints)"
proof -
  have "foldl max a hs \<in> insert a (set hs)" for a :: nat and hs
  proof (induction hs arbitrary: a)
    case (Cons h hs)
    from Cons.IH [of "max a h"] show ?case by (auto simp: max_def split: if_splits)
  qed simp
  then show ?thesis by (simp add: super_reserve_def)
qed

text \<open>The loop ends on the first multiple of the super-reserve that is not below the hint.\<close>

lemma grow_by_total:
  assumes "0 < k" and "hint + k < size_mod" and "k dvd n" and "n < hint + k"
  shows "\<exists>r. grow_by hint n k = Some r \<and> k dvd r \<and> hint \<le> r \<and> r < hint + k \<and> n \<le> r"
  using assms
proof (induction "hint - n" arbitrary: n rule: less_induct)
  case less
  show ?case
  proof (cases "hint > n")
    case True
    have e: "sz_add n k = n + k" using True less.prems by (simp add: sz_add_exact)
    obtain r where "grow_by hint (n + k) k = Some r" "k dvd r" "hint \<le> r" "r < hint + k" "n + k \<le> r"
    proof -
      have "hint - (n + k) < hint - n" "k dvd n + k" "n + k < hint + k"
        using less.prems True by simp_all
      from less.hyps [OF this(1) less.prems(1,2) this(2,3)] that show ?thesis by blast
    qed
    with True e show ?thesis by (subst grow_by.simps) auto
  next
    case False
    then show ?thesis using less.prems by (subst grow_by.simps) auto
  qed
qed

lemma grow_by_zero:
  assumes "0 < hint"
  shows "grow_by hint 0 0 = None"
proof -
  have "n = 0 \<longrightarrow> k = 0 \<longrightarrow> hint = 0" if "grow_by hint n k = Some r" for hint n k r
  proof (rule grow_by.raw_induct [where P = "\<lambda>hint n k r. n = 0 \<longrightarrow> k = 0 \<longrightarrow> hint = 0", OF _ that])
    fix f :: "nat \<Rightarrow> nat \<Rightarrow> nat \<Rightarrow> nat option" and hint n k r
    assume IH: "\<And>hint n k r. f hint n k = Some r \<Longrightarrow> n = 0 \<longrightarrow> k = 0 \<longrightarrow> hint = 0"
      and "(if hint > n then f hint (sz_add n k) k else Some n) = Some r"
    then show "n = 0 \<longrightarrow> k = 0 \<longrightarrow> hint = 0" by (auto simp: sz_add_def split: if_splits)
  qed
  with assms show ?thesis by (cases "grow_by hint 0 0") auto
qed

end
