(* ===== verification/Block_State.thy ===== *)
theory Block_State
  imports Input_Queue Output_Queue Block_Config
begin

text \<open>
  The state of a block actor: lib/gras_impl/block_data.hpp with the members of
  lib/gras_impl/block_actor.hpp, the messages of lib/gras_impl/messages.hpp, and what the actor
  uses that is not its own.

  Every vector of BlockData is a list of its own, because they are resized at different moments.
  Messages that a handler posts are appended to the list \<open>ac_events\<close>, in order, together with the
  calls of the block's virtual functions. The worker's port counts (Apology) are two fields. A PMC
  value is the identity of the object, 0 the null one. A token is the identity of the shared
  integer.
\<close>

section \<open>Messages\<close>

type_synonym pmc = nat
type_synonym token = nat

record tag =
  tg_offset :: nat
  tg_object :: pmc

datatype upmsg =
    OutputTokenMessage token
  | OutputHintMessage nat token       \<comment> \<open>reserve bytes, weak token\<close>
  | OutputCheckMessage
  | OutputAllocMessage bufq

datatype downmsg =
    InputTokenMessage token
  | InputTagMessage tag
  | InputMsgMessage pmc
  | InputBufferMessage sbuffer
  | InputAllocMessage sbuffer_config
  | InputCheckMessage

record block_stats =
  bs_start_time :: int
  bs_stop_time :: int
  bs_items_consumed :: "nat list"
  bs_tags_consumed :: "nat list"
  bs_msgs_consumed :: "nat list"
  bs_items_produced :: "nat list"
  bs_tags_produced :: "nat list"
  bs_msgs_produced :: "nat list"
  bs_work_count :: nat
  bs_time_last_work :: int
  bs_stats_time :: int
  bs_actor_queue_depth :: nat
  bs_items_enqueued :: "nat list"
  bs_tags_enqueued :: "nat list"
  bs_msgs_enqueued :: "nat list"
  bs_bytes_copied :: "nat list"
  bs_inputs_idle :: "int list"
  bs_outputs_idle :: "int list"

text \<open>What a handler does outside the actor: \<open>post_upstream\<close> and \<open>post_downstream\<close> of a port, a
  message to the actor itself, the reply to the sender (an empty acknowledgement, the statistics,
  or the result of a call), and the virtual functions of the block.\<close>

datatype event =
    Upstream nat upmsg
  | Downstream nat downmsg
  | Self_Input nat downmsg
  | Self_Output nat sbuffer
  | Self_Kick
  | Ack
  | Stats_Reply block_stats
  | Call_Reply string pmc string      \<comment> \<open>key, result, error\<close>
  | Notify_Active
  | Notify_Inactive
  | Notify_Topology nat nat
  | Work_Called

section \<open>The actor\<close>

datatype block_state = BLOCK_STATE_INIT | BLOCK_STATE_LIVE | BLOCK_STATE_DONE

record actor =
  ac_name :: string
  ac_num_inputs :: nat
  ac_num_outputs :: nat
  ac_state :: block_state
  ac_global :: global_config
  ac_in_cfg :: "input_config list"
  ac_out_cfg :: "output_config list"
  ac_in_items :: "(nat \<times> nat) list"   \<comment> \<open>address and size of the input items\<close>
  ac_out_items :: "(nat \<times> nat) list"
  ac_in_min :: nat
  ac_in_max :: nat
  ac_out_min :: nat
  ac_out_max :: nat
  ac_in_tokens :: "token option list"
  ac_out_tokens :: "token option list"
  ac_in_done :: "bool list"
  ac_out_done :: "bool list"
  ac_token_pool :: "token set"
  ac_inq :: input_queues
  ac_outq :: output_queues
  ac_avail :: "bool list"
  ac_tags_changed :: "bool list"
  ac_tags :: "tag list list"
  ac_msgs_read :: "nat list"
  ac_items_read :: "nat list"
  ac_out_read :: "nat list"
  ac_total_consumed :: "nat list"
  ac_total_produced :: "nat list"
  ac_msgs :: "pmc list list"
  ac_hints :: "(nat \<times> token) list list"
  ac_thread_group :: nat
  ac_interruptible :: bool
  ac_first_done :: int                \<comment> \<open>first_input_done_time\<close>
  ac_prio_token :: token
  st_items_consumed :: "nat list"
  st_tags_consumed :: "nat list"
  st_msgs_consumed :: "nat list"
  st_items_produced :: "nat list"
  st_tags_produced :: "nat list"
  st_msgs_produced :: "nat list"
  st_work_count :: nat
  st_start_time :: int
  st_stop_time :: int
  st_time_last_work :: int
  ac_fresh :: nat
  ac_events :: "event list"
  ac_world :: world

text \<open>\<open>BlockData\<close> as its constructor leaves it, with the actor's priority token; \<open>now\<close> is the time
  of construction. The state is set by the constructor of Block.\<close>

definition new_actor :: "string \<Rightarrow> int \<Rightarrow> token \<Rightarrow> world \<Rightarrow> actor" where
  "new_actor name now prio w =
     \<lparr>ac_name = name, ac_num_inputs = 0, ac_num_outputs = 0, ac_state = BLOCK_STATE_INIT,
      ac_global = default_global_config, ac_in_cfg = [], ac_out_cfg = [], ac_in_items = [],
      ac_out_items = [], ac_in_min = 0, ac_in_max = 0, ac_out_min = 0, ac_out_max = 0,
      ac_in_tokens = [], ac_out_tokens = [], ac_in_done = [], ac_out_done = [], ac_token_pool = {},
      ac_inq = \<lparr>iq_ports = [], iq_init_time = now\<rparr>, ac_outq = \<lparr>oq_ports = [], oq_init_time = now\<rparr>,
      ac_avail = [], ac_tags_changed = [], ac_tags = [], ac_msgs_read = [], ac_items_read = [],
      ac_out_read = [], ac_total_consumed = [], ac_total_produced = [], ac_msgs = [], ac_hints = [],
      ac_thread_group = 0, ac_interruptible = False, ac_first_done = 0, ac_prio_token = prio,
      st_items_consumed = [], st_tags_consumed = [], st_msgs_consumed = [], st_items_produced = [],
      st_tags_produced = [], st_msgs_produced = [], st_work_count = 0, st_start_time = 0,
      st_stop_time = 0, st_time_last_work = 0, ac_fresh = Suc prio, ac_events = [], ac_world = w\<rparr>"

definition post :: "event \<Rightarrow> actor \<Rightarrow> actor" where
  "post e a = a\<lparr>ac_events := ac_events a @ [e]\<rparr>"

text \<open>\<open>time_now()\<close> and \<open>Token::make()\<close> inside a handler.\<close>

definition now_of :: "actor \<Rightarrow> int \<times> actor" where
  "now_of a = (let (t, w) = time_now (ac_world a) in (t, a\<lparr>ac_world := w\<rparr>))"

definition make_token :: "actor \<Rightarrow> token \<times> actor" where
  "make_token a = (ac_fresh a, a\<lparr>ac_fresh := Suc (ac_fresh a)\<rparr>)"

section \<open>Queue operations inside the actor\<close>

definition in_op ::
  "nat \<Rightarrow> (int \<Rightarrow> iport \<Rightarrow> world \<Rightarrow> exn + iport \<times> world) \<Rightarrow> actor \<Rightarrow> exn + actor" where
  "in_op i f a =
     bindE (on_port i (f (iq_init_time (ac_inq a))) (ac_inq a) (ac_world a)) (\<lambda>(q, w).
       Inr (a\<lparr>ac_inq := q, ac_world := w\<rparr>))"

definition out_op ::
  "nat \<Rightarrow> (int \<Rightarrow> oport \<Rightarrow> world \<Rightarrow> exn + oport \<times> world) \<Rightarrow> actor \<Rightarrow> exn + actor" where
  "out_op i f a =
     bindE (on_oport i (f (oq_init_time (ac_outq a))) (ac_outq a) (ac_world a)) (\<lambda>(q, w).
       Inr (a\<lparr>ac_outq := q, ac_world := w\<rparr>))"

definition in_port :: "nat \<Rightarrow> actor \<Rightarrow> (iport \<Rightarrow> exn + 'b) \<Rightarrow> exn + 'b" where
  "in_port i a k =
     (if i < length (iq_ports (ac_inq a)) then k (iq_ports (ac_inq a) ! i)
      else Inl (Undefined ''input port index out of range''))"

definition out_port :: "nat \<Rightarrow> actor \<Rightarrow> (oport \<Rightarrow> exn + 'b) \<Rightarrow> exn + 'b" where
  "out_port i a k =
     (if i < length (oq_ports (ac_outq a)) then k (oq_ports (ac_outq a) ! i)
      else Inl (Undefined ''output port index out of range''))"

text \<open>\<open>input_queues.front(i)\<close> and \<open>output_queues.front(i)\<close> with the handle they return, and
  writing through the latter.\<close>

definition in_front :: "nat \<Rightarrow> actor \<Rightarrow> exn + sbuffer \<times> actor" where
  "in_front i a = in_port i a (\<lambda>p. bindE (iq_front p (ac_world a)) (\<lambda>(b, p, w).
     Inr (b, a\<lparr>ac_inq := (ac_inq a)\<lparr>iq_ports := (iq_ports (ac_inq a))[i := p]\<rparr>, ac_world := w\<rparr>)))"

definition set_oport :: "nat \<Rightarrow> oport \<Rightarrow> actor \<Rightarrow> actor" where
  "set_oport i p a = a\<lparr>ac_outq := (ac_outq a)\<lparr>oq_ports := (oq_ports (ac_outq a))[i := p]\<rparr>\<rparr>"

definition out_front :: "nat \<Rightarrow> actor \<Rightarrow> exn + sbuffer \<times> actor" where
  "out_front i a = out_port i a (\<lambda>p. bindE (oq_front p) (\<lambda>(b, p). Inr (b, set_oport i p a)))"

definition out_store :: "nat \<Rightarrow> sbuffer \<Rightarrow> actor \<Rightarrow> exn + actor" where
  "out_store i b a = out_port i a (\<lambda>p. Inr (set_oport i (oq_store b p) a))"

text \<open>The handles of an impl inside the actor, and \<open>SBuffer::unique\<close> of an input buffer. The
  static null buffer has a handle of its own.\<close>

fun bq_handles :: "bufq \<Rightarrow> sbuffer list" where
  "bq_handles (PoolQ q) = pl_queue q"
| "bq_handles (CircQ q) = cq_available q @ concat (map (\<lambda>r. case r of None \<Rightarrow> [] | Some b \<Rightarrow> [b]) (cq_returned q))"

definition oport_handles :: "oport \<Rightarrow> sbuffer list" where
  "oport_handles p =
     (case op_queue p of None \<Rightarrow> [] | Some q \<Rightarrow> bq_handles q)
     @ (case op_inline p of None \<Rightarrow> [] | Some b \<Rightarrow> [b])"

definition handles :: "nat \<Rightarrow> actor \<Rightarrow> nat" where
  "handles im a =
     length (filter (\<lambda>b. sb_impl b = im)
       (concat (map ip_queue (iq_ports (ac_inq a))) @ concat (map oport_handles (oq_ports (ac_outq a)))))"

definition buff_unique :: "sbuffer \<Rightarrow> actor \<Rightarrow> bool" where
  "buff_unique b a \<longleftrightarrow>
     \<not> w_held (ac_world a) (sb_impl b)
     \<and> handles (sb_impl b) a = (if sb_impl b = sb_impl null_buff then 0 else 1)"

section \<open>What the actor relies on\<close>

text \<open>
  \<open>en_sort\<close> is std::sort with Tag's operator<, of which the language says that the result is a
  sorted permutation. \<open>en_unique\<close> and \<open>en_expired\<close> ask the shared count of a token when the
  handler runs. \<open>en_work\<close> is the user's work function: the calls it makes of the block's interface
  in the state it finds. \<open>en_out_alloc\<close> and \<open>en_in_alloc\<close> are the overridable allocators,
  \<open>en_call\<close> the callable's dispatch, which returns the error of an exception or the result.
\<close>

datatype api =
    Consume nat nat
  | Consume_All nat
  | Produce nat nat
  | Produce_All nat
  | Get_Input_Buffer nat
  | Get_Output_Buffer nat
  | Pop_Output_Buffer nat nat
  | Post_Output_Buffer nat sbuffer
  | Post_Output_Tag nat tag
  | Post_Output_Msg nat pmc
  | Pop_Input_Msg nat
  | Post_Input_Tag nat tag
  | Post_Input_Msg nat pmc
  | Post_Input_Buffer nat sbuffer
  | Mark_Done
  | Mark_Input_Fail nat
  | Mark_Output_Fail nat

record env =
  en_sort :: "tag list \<Rightarrow> tag list"
  en_unique :: "token \<Rightarrow> bool"
  en_expired :: "token \<Rightarrow> bool"
  en_work :: "actor \<Rightarrow> api list"
  en_out_alloc :: "nat \<Rightarrow> sbuffer_config \<Rightarrow> world \<Rightarrow> (bufq option \<times> sbuffer list) \<times> world"
  en_in_alloc :: "nat \<Rightarrow> sbuffer_config \<Rightarrow> bufq option"
  en_call :: "string \<Rightarrow> pmc \<Rightarrow> string + pmc"
  en_queued :: nat
  en_system_time :: int

definition sorts :: "env \<Rightarrow> bool" where
  "sorts en \<longleftrightarrow> (\<forall>ts. mset (en_sort en ts) = mset ts \<and> sorted (map tg_offset (en_sort en ts)))"

end
