(* ===== verification/Block_Api.thy ===== *)
theory Block_Api
  imports Block_State
begin

text \<open>
  The block's interface as the work function calls it: lib/block_consume.cpp,
  lib/block_produce.cpp, lib/block_message.cpp, lib/task_done.cpp and lib/task_fail.cpp, and the
  helpers of lib/gras_impl/block_actor.hpp. Each is an operation on the actor; \<open>api_run\<close> runs the
  calls a work function makes, in order.
\<close>

section \<open>Guards\<close>

text \<open>\<open>v[i]\<close> of a std::vector, and the increment of such an entry.\<close>

definition at :: "'a list \<Rightarrow> nat \<Rightarrow> ('a \<Rightarrow> exn + 'b) \<Rightarrow> exn + 'b" where
  "at v i k = (if i < length v then k (v ! i) else Inl (Undefined ''vector index out of range''))"

definition bump :: "nat \<Rightarrow> nat \<Rightarrow> nat list \<Rightarrow> nat list" where
  "bump i n v = v[i := sz_add (v ! i) n]"

definition work_allowed :: "env \<Rightarrow> actor \<Rightarrow> bool" where
  "work_allowed en a \<longleftrightarrow>
     en_unique en (ac_prio_token a) \<and> ac_state a = BLOCK_STATE_LIVE \<and> (\<exists>b \<in> set (ac_avail a). b)
     \<and> iq_all_ready (ac_inq a) \<and> oq_all_ready (ac_outq a)"

definition task_kicker :: "env \<Rightarrow> actor \<Rightarrow> actor" where
  "task_kicker en a = (if work_allowed en a then post Self_Kick a else a)"

definition update_input_avail :: "nat \<Rightarrow> actor \<Rightarrow> exn + actor" where
  "update_input_avail i a =
     in_port i a (\<lambda>p. at (ac_msgs a) i (\<lambda>msgs.
       let has_input_bufs = (\<not> iq_empty p \<and> ip_ready p);
           has_input_msgs = (msgs \<noteq> [])
       in in_op i (\<lambda>t0. iq_update_has_msg t0 has_input_msgs)
            (a\<lparr>ac_avail := (ac_avail a)[i := has_input_bufs \<or> has_input_msgs]\<rparr>)))"

section \<open>Consume and produce\<close>

definition actor_consume :: "nat \<Rightarrow> nat \<Rightarrow> actor \<Rightarrow> exn + actor" where
  "actor_consume i items a =
     at (st_items_consumed a) i (\<lambda>_. at (ac_items_read a) i (\<lambda>_.
       Inr (a\<lparr>st_items_consumed := bump i items (st_items_consumed a),
              ac_items_read := bump i items (ac_items_read a)\<rparr>)))"

definition api_consume :: "nat \<Rightarrow> nat \<Rightarrow> actor \<Rightarrow> exn + actor" where
  "api_consume i items a = assertE (items < 2 ^ 63) ''long(num_items) >= 0'' (actor_consume i items a)"

definition api_consume_all :: "nat \<Rightarrow> actor \<Rightarrow> exn + actor" where
  "api_consume_all items a = foldE (\<lambda>i. actor_consume i items) [0..<ac_num_inputs a] a"

definition get_consumed :: "nat \<Rightarrow> actor \<Rightarrow> exn + nat" where
  "get_consumed i a = at (ac_total_consumed a) i Inr"

definition actor_produce :: "nat \<Rightarrow> nat \<Rightarrow> actor \<Rightarrow> exn + actor" where
  "actor_produce i items a =
     bindE (out_front i a) (\<lambda>(buff, a). at (ac_out_cfg a) i (\<lambda>cfg.
       if oc_item_size cfg = 0 then Inl (Undefined ''division by zero'')
       else assertE (sb_length buff mod oc_item_size cfg = 0)
         ''(buff.length % data->output_configs[i].item_size) == 0''
         (at (st_items_produced a) i (\<lambda>_. at (ac_out_read a) i (\<lambda>_.
            bindE (out_store i (buff\<lparr>sb_length :=
                     sz_add (sb_length buff) (sz_mul items (oc_item_size cfg))\<rparr>) a) (\<lambda>a.
            Inr (a\<lparr>st_items_produced := bump i items (st_items_produced a),
                   ac_out_read := bump i items (ac_out_read a)\<rparr>)))))))"

definition api_produce :: "nat \<Rightarrow> nat \<Rightarrow> actor \<Rightarrow> exn + actor" where
  "api_produce i items a = assertE (items < 2 ^ 63) ''long(num_items) >= 0'' (actor_produce i items a)"

definition api_produce_all :: "nat \<Rightarrow> actor \<Rightarrow> exn + actor" where
  "api_produce_all items a = foldE (\<lambda>o'. actor_produce o' items) [0..<ac_num_outputs a] a"

definition get_produced :: "nat \<Rightarrow> actor \<Rightarrow> exn + nat" where
  "get_produced i a = at (ac_total_produced a) i Inr"

definition get_output_buffer :: "nat \<Rightarrow> actor \<Rightarrow> exn + sbuffer \<times> actor" where
  "get_output_buffer i a =
     bindE (out_front i a) (\<lambda>(buff, a).
       let buff = buff\<lparr>sb_length := sb_actual buff\<rparr>
       in bindE (out_store i buff a) (\<lambda>a. Inr (buff, a)))"

definition pop_output_buffer :: "nat \<Rightarrow> nat \<Rightarrow> actor \<Rightarrow> exn + actor" where
  "pop_output_buffer i num_bytes a =
     bindE (out_front i a) (\<lambda>(buff, a). out_store i (buff\<lparr>sb_length := num_bytes\<rparr>) a)"

definition post_output_buffer :: "nat \<Rightarrow> sbuffer \<Rightarrow> actor \<Rightarrow> exn + actor" where
  "post_output_buffer i buffer a =
     bindE (out_port i a (\<lambda>p. bindE (set_inline buffer p) (\<lambda>p. Inr (set_oport i p a)))) (\<lambda>a.
       at (ac_out_cfg a) i (\<lambda>cfg.
         if oc_item_size cfg = 0 then Inl (Undefined ''division by zero'')
         else assertE (sb_length buffer mod oc_item_size cfg = 0) ''(buffer.length % item_size) == 0''
                (api_produce i (sb_length buffer div oc_item_size cfg) a)))"

section \<open>Tags and messages\<close>

definition post_output_tag :: "nat \<Rightarrow> tag \<Rightarrow> actor \<Rightarrow> exn + actor" where
  "post_output_tag i t a =
     at (st_tags_produced a) i (\<lambda>_.
       Inr (post (Downstream i (InputTagMessage t))
              (a\<lparr>st_tags_produced := bump i 1 (st_tags_produced a)\<rparr>)))"

definition post_output_msg :: "nat \<Rightarrow> pmc \<Rightarrow> actor \<Rightarrow> exn + actor" where
  "post_output_msg i m a =
     at (st_msgs_produced a) i (\<lambda>_.
       Inr (post (Downstream i (InputMsgMessage m))
              (a\<lparr>st_msgs_produced := bump i 1 (st_msgs_produced a)\<rparr>)))"

definition get_input_tags :: "nat \<Rightarrow> actor \<Rightarrow> exn + tag list" where
  "get_input_tags i a = at (ac_tags a) i Inr"

text \<open>\<open>PMCC()\<close>, the null object, when there is no unread message.\<close>

definition pop_input_msg :: "nat \<Rightarrow> actor \<Rightarrow> exn + pmc \<times> actor" where
  "pop_input_msg i a =
     at (ac_msgs a) i (\<lambda>msgs. at (ac_msgs_read a) i (\<lambda>num_read.
       if length msgs \<le> num_read then Inr (0, a)
       else at (st_msgs_consumed a) i (\<lambda>_.
         Inr (msgs ! num_read,
              a\<lparr>ac_msgs_read := (ac_msgs_read a)[i := Suc num_read],
                st_msgs_consumed := bump i 1 (st_msgs_consumed a)\<rparr>))))"

definition propagate_tags :: "nat \<Rightarrow> tag list \<Rightarrow> actor \<Rightarrow> exn + actor" where
  "propagate_tags i ts a =
     foldE (\<lambda>o' a. foldE (\<lambda>t a.
         bindE (get_consumed i a) (\<lambda>c. bindE (get_produced o' a) (\<lambda>p.
           post_output_tag o' (t\<lparr>tg_offset := sz_add (sz_sub (tg_offset t) c) p\<rparr>) a))) ts a)
       [0..<ac_num_outputs a] a"

definition post_input_tag :: "nat \<Rightarrow> tag \<Rightarrow> actor \<Rightarrow> actor" where
  "post_input_tag i t a = post (Self_Input i (InputTagMessage t)) a"

definition post_input_msg :: "nat \<Rightarrow> pmc \<Rightarrow> actor \<Rightarrow> actor" where
  "post_input_msg i m a = post (Self_Input i (InputMsgMessage m)) a"

definition post_input_buffer :: "nat \<Rightarrow> sbuffer \<Rightarrow> actor \<Rightarrow> actor" where
  "post_input_buffer i b a = post (Self_Input i (InputBufferMessage b)) a"

section \<open>Done and fail\<close>

text \<open>The loop that sends partial output downstream.\<close>

definition flush_output :: "nat \<Rightarrow> actor \<Rightarrow> exn + actor" where
  "flush_output i a =
     out_port i a (\<lambda>p.
       if \<not> op_ready p then Inr a
       else bindE (out_front i a) (\<lambda>(buff, a).
              if sb_length buff = 0 then Inr a
              else out_op i oq_pop (post (Downstream i (InputBufferMessage buff)) a)))"

text \<open>The loop that drops the tags and messages of an input.\<close>

definition clear_input :: "nat \<Rightarrow> actor \<Rightarrow> exn + actor" where
  "clear_input i a = at (ac_msgs a) i (\<lambda>_. at (ac_tags a) i (\<lambda>_.
      at (ac_items_read a) i (\<lambda>_. at (ac_msgs_read a) i (\<lambda>_.
        Inr (a\<lparr>ac_msgs := (ac_msgs a)[i := []], ac_tags := (ac_tags a)[i := []],
               ac_items_read := (ac_items_read a)[i := 0], ac_msgs_read := (ac_msgs_read a)[i := 0]\<rparr>)))))"

definition mark_done :: "actor \<Rightarrow> exn + actor" where
  "mark_done a =
     (if ac_state a = BLOCK_STATE_DONE then Inr a
      else let (t, a) = now_of a;
               a = post Notify_Inactive (a\<lparr>st_stop_time := t\<rparr>)
           in bindE (foldE flush_output [0..<ac_num_outputs a] a) (\<lambda>a.
              let a = a\<lparr>ac_interruptible := False, ac_state := BLOCK_STATE_DONE, ac_token_pool := {}\<rparr>
              in bindE (iq_flush_all (ac_inq a) (ac_world a)) (\<lambda>(q, w).
                 let (oq, w) = oq_flush_all (ac_outq a) w;
                     ins = [0..<ac_num_inputs a];
                     a = a\<lparr>ac_inq := q, ac_outq := oq, ac_world := w\<rparr>
                 in bindE (foldE clear_input ins a) (\<lambda>a.
                    Inr (fold (\<lambda>o'. post (Downstream o' InputCheckMessage)) [0..<ac_num_outputs a]
                          (fold (\<lambda>i. post (Upstream i OutputCheckMessage)) ins a))))))"

definition input_fail :: "env \<Rightarrow> nat \<Rightarrow> actor \<Rightarrow> exn + actor" where
  "input_fail en i a =
     in_port i a (\<lambda>p. bindE (is_accumulated p) (\<lambda>acc.
       if \<not> acc then bindE (in_op i (\<lambda>_. iq_accumulate) a) (\<lambda>a. Inr (task_kicker en a))
       else at (ac_in_done a) i (\<lambda>done.
         if done then mark_done a
         else bindE (if iq_empty p then Inr False else is_front_maximal p) (\<lambda>full.
                if full
                then Inl (Runtime_Error (''input_fail called on maximum_items buffer in '' @ ac_name a))
                else in_op i (\<lambda>_ p w. Inr (iq_fail p w)) a))))"

definition output_fail :: "nat \<Rightarrow> actor \<Rightarrow> exn + actor" where
  "output_fail i a =
     bindE (out_front i a) (\<lambda>(buff, a). at (ac_out_cfg a) i (\<lambda>cfg.
       if oc_item_size cfg = 0 then Inl (Undefined ''division by zero'')
       else if oc_maximum_items cfg \<le> sb_length buff div oc_item_size cfg
       then Inl (Runtime_Error (''output_fail called on maximum_items buffer in '' @ ac_name a))
       else out_op i (\<lambda>_ p w. Inr (oq_fail p w)) a))"

section \<open>The calls of a work function\<close>

fun api_step :: "env \<Rightarrow> api \<Rightarrow> actor \<Rightarrow> exn + actor" where
  "api_step en (Consume i n) a = api_consume i n a"
| "api_step en (Consume_All n) a = api_consume_all n a"
| "api_step en (Produce i n) a = api_produce i n a"
| "api_step en (Produce_All n) a = api_produce_all n a"
| "api_step en (Get_Input_Buffer i) a = bindE (in_front i a) (\<lambda>(b, a). Inr a)"
| "api_step en (Get_Output_Buffer i) a = bindE (get_output_buffer i a) (\<lambda>(b, a). Inr a)"
| "api_step en (Pop_Output_Buffer i n) a = pop_output_buffer i n a"
| "api_step en (Post_Output_Buffer i b) a = post_output_buffer i b a"
| "api_step en (Post_Output_Tag i t) a = post_output_tag i t a"
| "api_step en (Post_Output_Msg i m) a = post_output_msg i m a"
| "api_step en (Pop_Input_Msg i) a = bindE (pop_input_msg i a) (\<lambda>(m, a). Inr a)"
| "api_step en (Post_Input_Tag i t) a = Inr (post_input_tag i t a)"
| "api_step en (Post_Input_Msg i m) a = Inr (post_input_msg i m a)"
| "api_step en (Post_Input_Buffer i b) a = Inr (post_input_buffer i b a)"
| "api_step en Mark_Done a = mark_done a"
| "api_step en (Mark_Input_Fail i) a = input_fail en i a"
| "api_step en (Mark_Output_Fail i) a = output_fail i a"

definition api_run :: "env \<Rightarrow> api list \<Rightarrow> actor \<Rightarrow> exn + actor" where
  "api_run en = foldE (api_step en)"

end
