(* ===== verification/Block_Actor.thy ===== *)
theory Block_Actor
  imports Block_Api
begin

text \<open>
  The message handlers of a block actor and its main task: lib/block_handlers.cpp,
  lib/input_handlers.cpp, lib/output_handlers.cpp, lib/topology_handler.cpp,
  lib/block_allocator.cpp, lib/block_calls.cpp and lib/task_main.cpp.

  A handler maps the actor to the actor or to the exception that leaves it. Theron runs the
  handlers of an actor one at a time, so a run of the actor is a sequence of handlers. Of the
  statistics the construction time and the block's uid in the reply are left out, the timers of the
  main task are added in Work_Timers, and the interruptible thread only decides which thread runs the
  work function. The virtual \<open>propagate_tags\<close> is Block's own.
\<close>

section \<open>The main task\<close>

definition sort_tags :: "env \<Rightarrow> nat \<Rightarrow> actor \<Rightarrow> exn + actor" where
  "sort_tags en i a =
     at (ac_tags_changed a) i (\<lambda>changed.
       if \<not> changed then Inr a
       else at (ac_tags a) i (\<lambda>ts.
         Inr (a\<lparr>ac_tags := (ac_tags a)[i := en_sort en ts],
                ac_tags_changed := (ac_tags_changed a)[i := False]\<rparr>)))"

definition trim_tags :: "nat \<Rightarrow> actor \<Rightarrow> exn + actor" where
  "trim_tags i a =
     at (ac_tags a) i (\<lambda>ts. at (st_items_consumed a) i (\<lambda>items_consumed.
       let n = length (takeWhile (\<lambda>t. tg_offset t < items_consumed) ts)
       in if n = 0 then Inr a
          else bindE (propagate_tags i (take n ts) a) (\<lambda>a.
                 at (st_tags_consumed a) i (\<lambda>_.
                   Inr (a\<lparr>ac_tags := (ac_tags a)[i := drop n (ac_tags a ! i)],
                          st_tags_consumed := bump i n (st_tags_consumed a)\<rparr>)))))"

definition trim_msgs :: "nat \<Rightarrow> actor \<Rightarrow> exn + actor" where
  "trim_msgs i a =
     at (ac_msgs_read a) i (\<lambda>num_read.
       if num_read > 0
       then at (ac_msgs a) i (\<lambda>msgs.
              if length msgs < num_read then Inl (Undefined ''erase past the end of a vector'')
              else Inr (a\<lparr>ac_msgs := (ac_msgs a)[i := drop num_read msgs]\<rparr>))
       else Inr a)"

definition trim_buffs :: "nat \<Rightarrow> actor \<Rightarrow> exn + actor" where
  "trim_buffs i a =
     at (ac_items_read a) i (\<lambda>num_read.
       if num_read > 0 then in_op i (\<lambda>t0. iq_consume t0 num_read) a else Inr a)"

text \<open>One turn of the loop over the inputs before work; the second component counts the output
  ports that an input buffer was inlined into.\<close>

definition prep_input :: "env \<Rightarrow> nat \<Rightarrow> actor \<times> nat \<Rightarrow> exn + actor \<times> nat" where
  "prep_input en i = (\<lambda>(a, inline_index).
     bindE (sort_tags en i a) (\<lambda>a.
     at (ac_items_read a) i (\<lambda>_. at (ac_msgs_read a) i (\<lambda>_.
     let a = a\<lparr>ac_items_read := (ac_items_read a)[i := 0], ac_msgs_read := (ac_msgs_read a)[i := 0]\<rparr>
     in in_port i a (\<lambda>p. assertE (ip_ready p) ''data->input_queues.ready(i)''
      (bindE (in_front i a) (\<lambda>(buff, a).
       at (ac_in_cfg a) i (\<lambda>cfg.
       if ic_item_size cfg = 0 then Inl (Undefined ''division by zero'')
       else let items = sb_length buff div ic_item_size cfg;
                a = a\<lparr>ac_in_items := (ac_in_items a)[i := (sb_get buff 0, items)],
                      ac_in_min := min (ac_in_min a) items, ac_in_max := max (ac_in_max a) items\<rparr>
            in if buff_unique buff a \<and> ic_inline_buffer cfg \<and> inline_index < ac_num_outputs a
                  \<and> sb_affinity buff = gc_buffer_affinity (ac_global a)
               then out_port inline_index a (\<lambda>op. bindE (set_inline buff op) (\<lambda>op.
                      Inr (set_oport inline_index op a, Suc inline_index)))
               else Inr (a, inline_index)))))))))"

definition prep_output :: "nat \<Rightarrow> actor \<Rightarrow> exn + actor" where
  "prep_output i a =
     at (ac_out_read a) i (\<lambda>_.
     let a = a\<lparr>ac_out_read := (ac_out_read a)[i := 0]\<rparr>
     in out_port i a (\<lambda>p. assertE (op_ready p) ''data->output_queues.ready(i)''
      (bindE (out_front i a) (\<lambda>(buff, a).
       assertE (sb_length buff = 0) ''buff.length == 0''
        (at (ac_out_cfg a) i (\<lambda>cfg.
         if oc_item_size cfg = 0 then Inl (Undefined ''division by zero'')
         else let items = sz_sub (sb_actual buff) (sb_offset buff) div oc_item_size cfg
              in Inr (a\<lparr>ac_out_items := (ac_out_items a)[i := (sb_get buff 0, items)],
                        ac_out_min := min (ac_out_min a) items,
                        ac_out_max := max (ac_out_max a) items\<rparr>)))))))"

definition task_work :: "env \<Rightarrow> actor \<Rightarrow> exn + actor" where
  "task_work en a = api_run en (en_work en a) (post Work_Called a)"

definition post_input :: "nat \<Rightarrow> actor \<Rightarrow> exn + actor" where
  "post_input i a =
     bindE (trim_msgs i a) (\<lambda>a. bindE (trim_tags i a) (\<lambda>a. bindE (trim_buffs i a) (\<lambda>a.
     bindE (update_input_avail i a) (\<lambda>a.
       at (ac_total_consumed a) i (\<lambda>_. at (ac_items_read a) i (\<lambda>n.
         Inr (a\<lparr>ac_total_consumed := bump i n (ac_total_consumed a)\<rparr>)))))))"

definition post_output :: "nat \<Rightarrow> actor \<Rightarrow> exn + actor" where
  "post_output i a =
     out_port i a (\<lambda>p.
       if oq_empty p then Inr a
       else bindE (out_front i a) (\<lambda>(buff, a). bindE (out_op i oq_consume a) (\<lambda>a.
         at (ac_out_read a) i (\<lambda>n.
           let a = (if n \<noteq> 0 then post (Downstream i (InputBufferMessage buff)) a else a)
           in at (ac_total_produced a) i (\<lambda>_.
                Inr (a\<lparr>ac_total_produced := bump i n (ac_total_produced a)\<rparr>))))))"

definition task_prep :: "env \<Rightarrow> actor \<Rightarrow> exn + actor" where
  "task_prep en a =
     (let a = a\<lparr>ac_in_min := size_max, ac_in_max := 0\<rparr>
      in bindE (foldE (prep_input en) [0..<ac_num_inputs a] (a, 0)) (\<lambda>(a, _).
         let a = a\<lparr>ac_out_min := size_max, ac_out_max := 0\<rparr>
         in foldE prep_output [0..<ac_num_outputs a] a))"

definition task_post :: "env \<Rightarrow> actor \<Rightarrow> exn + actor" where
  "task_post en a =
     bindE (foldE post_input [0..<ac_num_inputs a] a) (\<lambda>a.
     bindE (foldE post_output [0..<ac_num_outputs a] a) (\<lambda>a.
       Inr (task_kicker en a)))"

definition task_main :: "env \<Rightarrow> actor \<Rightarrow> exn + actor" where
  "task_main en a =
     (if \<not> work_allowed en a then Inr a
      else bindE (task_prep en a) (\<lambda>a.
           bindE (task_work en (a\<lparr>st_work_count := sz_add (st_work_count a) 1\<rparr>)) (\<lambda>a.
           let (t, a) = now_of a
           in task_post en (a\<lparr>st_time_last_work := t\<rparr>))))"

section \<open>Messages from the top block\<close>

definition handle_top_active :: "actor \<Rightarrow> actor" where
  "handle_top_active a =
     (let a = (if ac_state a \<noteq> BLOCK_STATE_LIVE
               then let (t, a) = now_of (post Notify_Active a) in a\<lparr>st_start_time := t\<rparr>
               else a)
      in post Self_Kick (post Ack (a\<lparr>ac_state := BLOCK_STATE_LIVE\<rparr>)))"

text \<open>\<open>from_null\<close>: the sender is \<open>Address::Null()\<close>.\<close>

definition handle_top_inert :: "bool \<Rightarrow> actor \<Rightarrow> exn + actor" where
  "handle_top_inert from_null a =
     bindE (mark_done a) (\<lambda>a. Inr (if from_null then a else post Ack a))"

definition token_input :: "nat \<Rightarrow> actor \<Rightarrow> exn + actor" where
  "token_input i a =
     at (ac_in_tokens a) i (\<lambda>_. at (ac_in_done a) i (\<lambda>_. at (ac_in_cfg a) i (\<lambda>cfg.
       let (tok, a) = make_token a;
           a = a\<lparr>ac_in_tokens := (ac_in_tokens a)[i := Some tok],
                 ac_in_done := (ac_in_done a)[i := False]\<rparr>
       in Inr (post (Upstream i (OutputHintMessage (sz_mul (ic_reserve_items cfg) (ic_item_size cfg)) tok))
                (post (Upstream i (OutputTokenMessage tok)) a)))))"

definition token_output :: "nat \<Rightarrow> actor \<Rightarrow> exn + actor" where
  "token_output i a =
     at (ac_out_tokens a) i (\<lambda>_. at (ac_out_done a) i (\<lambda>_.
       let (tok, a) = make_token a;
           a = a\<lparr>ac_out_tokens := (ac_out_tokens a)[i := Some tok],
                 ac_out_done := (ac_out_done a)[i := False]\<rparr>
       in Inr (post (Downstream i (InputTokenMessage tok)) a)))"

definition handle_top_token :: "token \<Rightarrow> actor \<Rightarrow> exn + actor" where
  "handle_top_token tok a =
     bindE (foldE token_input [0..<ac_num_inputs a] a) (\<lambda>a.
     bindE (foldE token_output [0..<ac_num_outputs a] a) (\<lambda>a.
       Inr (post Ack (a\<lparr>ac_token_pool := insert tok (ac_token_pool a)\<rparr>))))"

definition handle_top_config :: "global_config \<Rightarrow> actor \<Rightarrow> actor" where
  "handle_top_config cfg a =
     (let a = a\<lparr>ac_global := gc_merge (ac_global a) cfg\<rparr>;
          a = a\<lparr>ac_out_cfg := map (\<lambda>c. if oc_maximum_items c = 0
                    then c\<lparr>oc_maximum_items := gc_maximum_output_items (ac_global a)\<rparr> else c)
                  (ac_out_cfg a)\<rparr>
      in post Ack a)"

definition handle_top_thread_group :: "nat \<Rightarrow> actor \<Rightarrow> actor" where
  "handle_top_thread_group g a =
     (let a = a\<lparr>ac_thread_group := g, ac_interruptible := False\<rparr>;
          a = (if gc_interruptible_work (ac_global a) then a\<lparr>ac_interruptible := True\<rparr> else a)
      in post Ack a)"

definition handle_self_kick :: "env \<Rightarrow> actor \<Rightarrow> exn + actor" where
  "handle_self_kick en a = task_main en a"

definition handle_get_stats :: "env \<Rightarrow> actor \<Rightarrow> exn + actor" where
  "handle_get_stats en a =
     bindE (foldE (\<lambda>i stats.
         in_port i a (\<lambda>p. bindE (iq_get_items_enqueued p) (\<lambda>n.
           at (ac_tags a) i (\<lambda>ts. at (ac_msgs a) i (\<lambda>ms.
             Inr (stats\<lparr>bs_items_enqueued := bs_items_enqueued stats @ [n],
                        bs_tags_enqueued := bs_tags_enqueued stats @ [length ts],
                        bs_msgs_enqueued := bs_msgs_enqueued stats @ [length ms]\<rparr>))))))
       [0..<ac_num_inputs a]
       \<lparr>bs_start_time = st_start_time a, bs_stop_time = st_stop_time a,
        bs_items_consumed = st_items_consumed a, bs_tags_consumed = st_tags_consumed a,
        bs_msgs_consumed = st_msgs_consumed a, bs_items_produced = st_items_produced a,
        bs_tags_produced = st_tags_produced a, bs_msgs_produced = st_msgs_produced a,
        bs_work_count = st_work_count a, bs_time_last_work = st_time_last_work a, bs_stats_time = 0,
        bs_actor_queue_depth = en_queued en, bs_items_enqueued = [], bs_tags_enqueued = [],
        bs_msgs_enqueued = [], bs_bytes_copied = map ip_copied (iq_ports (ac_inq a)),
        bs_inputs_idle = map ip_idle (iq_ports (ac_inq a)),
        bs_outputs_idle = map op_idle (oq_ports (ac_outq a))\<rparr>) (\<lambda>stats.
     let (t, a) = now_of a
     in Inr (post Self_Kick (post (Stats_Reply (stats\<lparr>bs_stats_time := t\<rparr>)) a)))"

definition handle_callable :: "env \<Rightarrow> string \<Rightarrow> pmc \<Rightarrow> actor \<Rightarrow> actor" where
  "handle_callable en key args a =
     post Self_Kick (post (case en_call en key args of
         Inl err \<Rightarrow> Call_Reply key 0 err
       | Inr ret \<Rightarrow> Call_Reply key ret []) a)"

section \<open>Messages to an input port\<close>

definition handle_input_tag :: "nat \<Rightarrow> tag \<Rightarrow> actor \<Rightarrow> exn + actor" where
  "handle_input_tag i t a =
     (if ac_state a = BLOCK_STATE_DONE then Inr a
      else at (ac_tags a) i (\<lambda>ts. at (ac_tags_changed a) i (\<lambda>_.
        Inr (a\<lparr>ac_tags := (ac_tags a)[i := ts @ [t]],
               ac_tags_changed := (ac_tags_changed a)[i := True]\<rparr>))))"

definition handle_input_msg :: "env \<Rightarrow> nat \<Rightarrow> pmc \<Rightarrow> actor \<Rightarrow> exn + actor" where
  "handle_input_msg en i m a =
     (if ac_state a = BLOCK_STATE_DONE then Inr a
      else at (ac_msgs a) i (\<lambda>ms.
        bindE (update_input_avail i (a\<lparr>ac_msgs := (ac_msgs a)[i := ms @ [m]]\<rparr>)) (task_main en)))"

definition handle_input_buffer :: "env \<Rightarrow> nat \<Rightarrow> sbuffer \<Rightarrow> actor \<Rightarrow> exn + actor" where
  "handle_input_buffer en i b a =
     (if ac_state a = BLOCK_STATE_DONE then Inr a
      else bindE (in_op i (\<lambda>t0. iq_push t0 b) a) (\<lambda>a.
           bindE (update_input_avail i a) (task_main en)))"

definition handle_input_token :: "nat \<Rightarrow> token \<Rightarrow> actor \<Rightarrow> exn + actor" where
  "handle_input_token i tok a =
     assertE (i < ac_num_inputs a) ''message.index < worker->get_num_inputs()''
       (Inr (a\<lparr>ac_token_pool := insert tok (ac_token_pool a)\<rparr>))"

text \<open>\<open>unique()\<close> of a token entry; a null one is not unique.\<close>

definition token_unique :: "env \<Rightarrow> token option \<Rightarrow> bool" where
  "token_unique en t = (case t of None \<Rightarrow> False | Some t \<Rightarrow> en_unique en t)"

definition handle_input_check :: "env \<Rightarrow> nat \<Rightarrow> actor \<Rightarrow> exn + actor" where
  "handle_input_check en i a =
     (let a = (if list_all (\<lambda>x. \<not> x) (ac_in_done a) then a\<lparr>ac_first_done := en_system_time en\<rparr> else a)
     in at (ac_in_done a) i (\<lambda>_. at (ac_in_tokens a) i (\<lambda>tok.
     bindE (task_main en (a\<lparr>ac_in_done := (ac_in_done a)[i := token_unique en tok]\<rparr>)) (\<lambda>a.
     at (ac_in_cfg a) i (\<lambda>cfg. at (ac_in_done a) i (\<lambda>done. at (ac_avail a) i (\<lambda>avail.
       if (ic_reserve_items cfg \<noteq> 0 \<and> done \<and> \<not> avail)
          \<or> (ic_reserve_items cfg = 0 \<and> list_all (\<lambda>x. x) (ac_in_done a)
             \<and> list_all (\<lambda>x. \<not> x) (ac_avail a))
       then mark_done a else Inr a)))))))"

definition handle_input_alloc :: "env \<Rightarrow> nat \<Rightarrow> sbuffer_config \<Rightarrow> actor \<Rightarrow> exn + actor" where
  "handle_input_alloc en i cfg a =
     (let (tok, a) = make_token a
      in case en_in_alloc en i (cfg\<lparr>cfg_token := Some tok\<rparr>) of
           None \<Rightarrow> Inr a
         | Some q \<Rightarrow> Inr (post (Upstream i (OutputAllocMessage q)) a))"

definition handle_input_update :: "nat \<Rightarrow> actor \<Rightarrow> exn + actor" where
  "handle_input_update i a =
     (if length (iq_ports (ac_inq a)) \<le> i then Inr a
      else at (ac_in_cfg a) i (\<lambda>cfg.
        let size = ic_item_size cfg
        in bindE (in_op i (\<lambda>t0. iq_update_config t0 size (sz_mul size (ic_preload_items cfg))
                     (sz_mul size (ic_reserve_items cfg)) (sz_mul size (ic_maximum_items cfg))) a)
             (update_input_avail i)))"

section \<open>Messages to an output port\<close>

definition handle_output_buffer :: "env \<Rightarrow> nat \<Rightarrow> sbuffer \<Rightarrow> actor \<Rightarrow> exn + actor" where
  "handle_output_buffer en i b a =
     (if ac_state a = BLOCK_STATE_DONE then Inr a
      else bindE (out_op i (\<lambda>t0. oq_push t0 b) a) (task_main en))"

definition handle_output_token :: "nat \<Rightarrow> token \<Rightarrow> actor \<Rightarrow> exn + actor" where
  "handle_output_token i tok a =
     assertE (i < ac_num_outputs a) ''message.index < worker->get_num_outputs()''
       (Inr (a\<lparr>ac_token_pool := insert tok (ac_token_pool a)\<rparr>))"

definition handle_output_check :: "env \<Rightarrow> nat \<Rightarrow> actor \<Rightarrow> exn + actor" where
  "handle_output_check en i a =
     at (ac_out_done a) i (\<lambda>_. at (ac_out_tokens a) i (\<lambda>tok.
       let a = a\<lparr>ac_out_done := (ac_out_done a)[i := token_unique en tok]\<rparr>
       in if list_all (\<lambda>x. x) (ac_out_done a) then mark_done a else Inr a))"

definition handle_output_hint :: "env \<Rightarrow> nat \<Rightarrow> nat \<Rightarrow> token \<Rightarrow> actor \<Rightarrow> exn + actor" where
  "handle_output_hint en i reserve tok a =
     at (ac_hints a) i (\<lambda>old.
       let same = (\<lambda>t. if en_expired en tok then False else t = tok);
           hints = filter (\<lambda>(_, t). \<not> en_expired en t \<and> \<not> same t) old
       in Inr (a\<lparr>ac_hints := (ac_hints a)[i := hints @ [(reserve, tok)]]\<rparr>))"

definition handle_output_alloc :: "nat \<Rightarrow> bufq \<Rightarrow> actor \<Rightarrow> exn + actor" where
  "handle_output_alloc i q a = out_op i (\<lambda>t0. set_buffer_queue t0 (Some q)) a"

definition handle_output_update :: "nat \<Rightarrow> actor \<Rightarrow> exn + actor" where
  "handle_output_update i a =
     (if length (oq_ports (ac_outq a)) \<le> i then Inr a
      else at (ac_out_cfg a) i (\<lambda>cfg.
        out_op i (\<lambda>t0. set_reserve_bytes t0 (sz_mul (oc_item_size cfg) (oc_reserve_items cfg))) a))"

section \<open>Topology and allocation\<close>

definition resize_to_topology :: "nat \<Rightarrow> nat \<Rightarrow> actor \<Rightarrow> actor" where
  "resize_to_topology ni no a =
     (let (iq, w) = iq_resize ni (ac_inq a) (ac_world a);
          (oq, w) = oq_resize no (ac_outq a) w;
          avail = resize ni False (ac_avail a)
      in a\<lparr>ac_in_cfg := resize_fill_back default_input_config ni (ac_in_cfg a),
           ac_out_cfg := resize_fill_back default_output_config no (ac_out_cfg a),
           st_items_consumed := resize_fill_grow ni 0 (st_items_consumed a),
           st_tags_consumed := resize_fill_grow ni 0 (st_tags_consumed a),
           st_msgs_consumed := resize_fill_grow ni 0 (st_msgs_consumed a),
           st_items_produced := resize_fill_grow no 0 (st_items_produced a),
           st_tags_produced := resize_fill_grow no 0 (st_tags_produced a),
           st_msgs_produced := resize_fill_grow no 0 (st_msgs_produced a),
           ac_in_items := resize ni (0, 0) (ac_in_items a), ac_out_items := resize no (0, 0) (ac_out_items a),
           ac_inq := iq, ac_outq := oq, ac_world := w,
           ac_avail := (if ni = 0 then resize 1 True avail else avail),
           ac_total_consumed := resize ni 0 (ac_total_consumed a),
           ac_total_produced := resize no 0 (ac_total_produced a),
           ac_in_tokens := resize ni None (ac_in_tokens a), ac_out_tokens := resize no None (ac_out_tokens a),
           ac_in_done := resize ni False (ac_in_done a), ac_out_done := resize no False (ac_out_done a),
           ac_hints := resize no [] (ac_hints a),
           ac_tags_changed := resize ni False (ac_tags_changed a), ac_tags := resize ni [] (ac_tags a),
           ac_msgs_read := resize ni 0 (ac_msgs_read a), ac_items_read := resize ni 0 (ac_items_read a),
           ac_out_read := resize no 0 (ac_out_read a), ac_msgs := resize ni [] (ac_msgs a)\<rparr>)"

text \<open>The worker already has the new port counts when the message arrives.\<close>

definition handle_topology :: "actor \<Rightarrow> exn + actor" where
  "handle_topology a =
     (let ni = ac_num_inputs a; no = ac_num_outputs a;
          a = resize_to_topology ni no (post (Notify_Topology ni no) a)
      in bindE (if ni = 0 \<and> no = 0 then mark_done a else Inr a) (\<lambda>a.
         bindE (foldE handle_input_update [0..<ni] a) (\<lambda>a.
         bindE (foldE handle_output_update [0..<no] a) (\<lambda>a.
           Inr (post Ack a)))))"

definition buffer_returner :: "nat \<Rightarrow> sbuffer \<Rightarrow> actor \<Rightarrow> actor" where
  "buffer_returner i b a = post (Self_Output i (b\<lparr>sb_offset := 0, sb_length := 0, sb_last := 0\<rparr>)) a"

text \<open>Output port \<open>i\<close> of \<open>handle_top_alloc\<close>. The length does not return when the loop of
  \<open>recommend_length\<close> does not.\<close>

definition alloc_output :: "env \<Rightarrow> nat \<Rightarrow> actor \<Rightarrow> exn + actor" where
  "alloc_output en i a =
     at (ac_out_cfg a) i (\<lambda>cfg. at (ac_hints a) i (\<lambda>hints.
       let maximum = (if oc_maximum_items cfg = 0 then gc_maximum_output_items (ac_global a)
                      else oc_maximum_items cfg)
       in bindE (my_round_up_mult AT_LEAST_BYTES (oc_item_size cfg)) (\<lambda>hint.
          case recommend_length (map fst hints) hint (sz_mul (oc_reserve_items cfg) (oc_item_size cfg))
                 (sz_mul maximum (oc_item_size cfg)) of
            None \<Rightarrow> Inl (Undefined ''recommend_length does not return'')
          | Some n \<Rightarrow>
              (let (tok, a) = make_token a;
                   config = default_sbuffer_config\<lparr>cfg_length := n,
                     cfg_affinity := gc_buffer_affinity (ac_global a), cfg_token := Some tok\<rparr>;
                   ((queue, bs), w) = en_out_alloc en i config (ac_world a);
                   a = fold (buffer_returner i) bs (a\<lparr>ac_world := w\<rparr>)
               in bindE (out_op i (\<lambda>t0. set_buffer_queue t0 queue) a) (\<lambda>a.
                    Inr (post (Downstream i (InputAllocMessage config)) a))))))"

definition handle_top_alloc :: "env \<Rightarrow> actor \<Rightarrow> exn + actor" where
  "handle_top_alloc en a =
     bindE (foldE (alloc_output en) [0..<ac_num_outputs a] a) (\<lambda>a. Inr (post Ack a))"

text \<open>The default \<open>output_buffer_allocator\<close> and \<open>input_buffer_allocator\<close>.\<close>

definition output_buffer_allocator ::
  "(int \<Rightarrow> nat \<Rightarrow> nat) \<Rightarrow> nat \<Rightarrow> sbuffer_config \<Rightarrow> world \<Rightarrow> (bufq option \<times> sbuffer list) \<times> world" where
  "output_buffer_allocator numa i cfg w =
     (let ((q, bs), w) = make_pool numa cfg THIS_MANY_BUFFERS w in ((Some (PoolQ q), bs), w))"

definition input_buffer_allocator :: "nat \<Rightarrow> sbuffer_config \<Rightarrow> bufq option" where
  "input_buffer_allocator i cfg = None"

section \<open>Runs of an actor\<close>

text \<open>The messages an actor handles.\<close>

datatype message =
    Topology nat nat
  | TopAlloc
  | TopActive
  | TopInert bool
  | TopToken token
  | TopConfig global_config
  | TopThread nat
  | To_Input nat downmsg
  | InputUpdate nat
  | OutputBuffer nat sbuffer
  | To_Output nat upmsg
  | OutputUpdate nat
  | Call string pmc
  | SelfKick
  | GetStats

fun handle_message :: "env \<Rightarrow> message \<Rightarrow> actor \<Rightarrow> exn + actor" where
  "handle_message en (Topology ni no) a = handle_topology (a\<lparr>ac_num_inputs := ni, ac_num_outputs := no\<rparr>)"
| "handle_message en TopAlloc a = handle_top_alloc en a"
| "handle_message en TopActive a = Inr (handle_top_active a)"
| "handle_message en (TopInert n) a = handle_top_inert n a"
| "handle_message en (TopToken t) a = handle_top_token t a"
| "handle_message en (TopConfig c) a = Inr (handle_top_config c a)"
| "handle_message en (TopThread g) a = Inr (handle_top_thread_group g a)"
| "handle_message en (To_Input i (InputTokenMessage t)) a = handle_input_token i t a"
| "handle_message en (To_Input i (InputTagMessage t)) a = handle_input_tag i t a"
| "handle_message en (To_Input i (InputMsgMessage m)) a = handle_input_msg en i m a"
| "handle_message en (To_Input i (InputBufferMessage b)) a = handle_input_buffer en i b a"
| "handle_message en (To_Input i (InputAllocMessage c)) a = handle_input_alloc en i c a"
| "handle_message en (To_Input i InputCheckMessage) a = handle_input_check en i a"
| "handle_message en (InputUpdate i) a = handle_input_update i a"
| "handle_message en (OutputBuffer i b) a = handle_output_buffer en i b a"
| "handle_message en (To_Output i (OutputTokenMessage t)) a = handle_output_token i t a"
| "handle_message en (To_Output i (OutputHintMessage n t)) a = handle_output_hint en i n t a"
| "handle_message en (To_Output i OutputCheckMessage) a = handle_output_check en i a"
| "handle_message en (To_Output i (OutputAllocMessage q)) a = handle_output_alloc i q a"
| "handle_message en (OutputUpdate i) a = handle_output_update i a"
| "handle_message en (Call k v) a = Inr (handle_callable en k v a)"
| "handle_message en SelfKick a = handle_self_kick en a"
| "handle_message en GetStats a = handle_get_stats en a"

text \<open>The environment may answer differently for every message.\<close>

inductive actor_reach :: "actor \<Rightarrow> actor \<Rightarrow> bool" for a0 where
  init: "actor_reach a0 a0"
| message: "actor_reach a0 a \<Longrightarrow> handle_message en m a = Inr a' \<Longrightarrow> actor_reach a0 a'"

end
