(* ===== verification/Block_Trace.thy ===== *)
theory Block_Trace
  imports Block_Actor
begin

text \<open>
  The life cycle of a block over any run of its actor: \<open>notify_active\<close>, \<open>work\<close> and
  \<open>notify_inactive\<close> are called in the order that an automaton on the block's states allows, and
  the actor's state is the automaton's.
\<close>

section \<open>The automaton\<close>

fun life_step :: "block_state \<Rightarrow> event \<Rightarrow> block_state option" where
  "life_step s Notify_Active = (if s = BLOCK_STATE_LIVE then None else Some BLOCK_STATE_LIVE)"
| "life_step s Notify_Inactive = (if s = BLOCK_STATE_DONE then None else Some BLOCK_STATE_DONE)"
| "life_step s Work_Called = (if s = BLOCK_STATE_LIVE then Some s else None)"
| "life_step s _ = Some s"

fun life_run :: "block_state \<Rightarrow> event list \<Rightarrow> block_state option" where
  "life_run s [] = Some s"
| "life_run s (e # es) = (case life_step s e of None \<Rightarrow> None | Some s \<Rightarrow> life_run s es)"

text \<open>The vectors of an actor have an entry for each of its ports.\<close>

definition sized :: "actor \<Rightarrow> bool" where
  "sized a \<longleftrightarrow> (let ni = ac_num_inputs a; no = ac_num_outputs a in
     ni \<le> length (ac_in_cfg a) \<and> no \<le> length (ac_out_cfg a)
     \<and> length (iq_ports (ac_inq a)) = ni \<and> length (oq_ports (ac_outq a)) = no
     \<and> ni \<le> length (ac_avail a) \<and> length (ac_tags_changed a) = ni \<and> length (ac_tags a) = ni
     \<and> length (ac_msgs a) = ni \<and> length (ac_msgs_read a) = ni \<and> length (ac_items_read a) = ni
     \<and> length (ac_out_read a) = no \<and> length (ac_total_consumed a) = ni \<and> length (ac_total_produced a) = no
     \<and> length (ac_in_items a) = ni \<and> length (ac_out_items a) = no \<and> length (ac_hints a) = no
     \<and> length (ac_in_tokens a) = ni \<and> length (ac_out_tokens a) = no
     \<and> length (ac_in_done a) = ni \<and> length (ac_out_done a) = no
     \<and> ni \<le> length (st_items_consumed a) \<and> ni \<le> length (st_tags_consumed a)
     \<and> ni \<le> length (st_msgs_consumed a) \<and> no \<le> length (st_items_produced a)
     \<and> no \<le> length (st_tags_produced a) \<and> no \<le> length (st_msgs_produced a))"

definition sizes :: "actor \<Rightarrow> nat list" where
  "sizes a = [ac_num_inputs a, ac_num_outputs a, length (ac_in_cfg a), length (ac_out_cfg a),
     length (iq_ports (ac_inq a)), length (oq_ports (ac_outq a)), length (ac_avail a),
     length (ac_tags_changed a), length (ac_tags a), length (ac_msgs a), length (ac_msgs_read a),
     length (ac_items_read a), length (ac_out_read a), length (ac_total_consumed a),
     length (ac_total_produced a), length (ac_in_items a), length (ac_out_items a), length (ac_hints a),
     length (ac_in_tokens a), length (ac_out_tokens a), length (ac_in_done a), length (ac_out_done a),
     length (st_items_consumed a), length (st_tags_consumed a), length (st_msgs_consumed a),
     length (st_items_produced a), length (st_tags_produced a), length (st_msgs_produced a)]"

definition legal :: "actor \<Rightarrow> bool" where
  "legal a \<longleftrightarrow> life_run BLOCK_STATE_INIT (ac_events a) = Some (ac_state a) \<and> sized a"

lemma sizes_sized: "sizes a' = sizes a \<Longrightarrow> sized a' = sized a"
  by (simp add: sizes_def sized_def Let_def)

lemma sized_in:
  assumes "sized a" and "i < ac_num_inputs a"
  shows "i < length (ac_in_cfg a)" "i < length (iq_ports (ac_inq a))" "i < length (ac_avail a)"
    "i < length (ac_tags_changed a)" "i < length (ac_tags a)" "i < length (ac_msgs a)"
    "i < length (ac_msgs_read a)" "i < length (ac_items_read a)" "i < length (ac_total_consumed a)"
    "i < length (ac_in_items a)" "i < length (ac_in_tokens a)" "i < length (ac_in_done a)"
    "i < length (st_items_consumed a)" "i < length (st_tags_consumed a)" "i < length (st_msgs_consumed a)"
  using assms unfolding sized_def Let_def by linarith+

lemma sized_out:
  assumes "sized a" and "i < ac_num_outputs a"
  shows "i < length (ac_out_cfg a)" "i < length (oq_ports (ac_outq a))" "i < length (ac_out_read a)"
    "i < length (ac_total_produced a)" "i < length (ac_out_items a)" "i < length (ac_hints a)"
    "i < length (ac_out_tokens a)" "i < length (ac_out_done a)" "i < length (st_items_produced a)"
    "i < length (st_tags_produced a)" "i < length (st_msgs_produced a)"
  using assms unfolding sized_def Let_def by linarith+

lemma sized_update [simp]:
  "sized (a\<lparr>ac_events := x0\<rparr>) = sized a"
  "sized (a\<lparr>ac_state := x1\<rparr>) = sized a"
  "sized (a\<lparr>ac_world := x2\<rparr>) = sized a"
  "sized (a\<lparr>ac_token_pool := x3\<rparr>) = sized a"
  "sized (a\<lparr>ac_interruptible := x4\<rparr>) = sized a"
  "sized (a\<lparr>st_work_count := x5\<rparr>) = sized a"
  "sized (a\<lparr>ac_first_done := x13\<rparr>) = sized a"
  "sized (a\<lparr>st_start_time := x6\<rparr>) = sized a"
  "sized (a\<lparr>st_stop_time := x7\<rparr>) = sized a"
  "length (iq_ports x8) = length (iq_ports (ac_inq a)) \<Longrightarrow> sized (a\<lparr>ac_inq := x8\<rparr>) = sized a"
  "length (oq_ports x9) = length (oq_ports (ac_outq a)) \<Longrightarrow> sized (a\<lparr>ac_outq := x9\<rparr>) = sized a"
  "length x10 = length (ac_in_done a) \<Longrightarrow> sized (a\<lparr>ac_in_done := x10\<rparr>) = sized a"
  "length x11 = length (ac_out_done a) \<Longrightarrow> sized (a\<lparr>ac_out_done := x11\<rparr>) = sized a"
  "length x12 = length (ac_msgs a) \<Longrightarrow> sized (a\<lparr>ac_msgs := x12\<rparr>) = sized a"
  by (simp_all add: sized_def)

lemma bump_length [simp]: "length (bump i n v) = length v"
  by (simp add: bump_def)

fun neutral :: "event \<Rightarrow> bool" where
  "neutral Notify_Active = False"
| "neutral Notify_Inactive = False"
| "neutral Work_Called = False"
| "neutral _ = True"

lemma life_run_append:
  "life_run s (es @ es') = (case life_run s es of None \<Rightarrow> None | Some s \<Rightarrow> life_run s es')"
  by (induction es arbitrary: s) (auto split: option.splits)

lemma life_step_neutral: "neutral e \<Longrightarrow> life_step s e = Some s"
  by (cases e) auto

section \<open>Operations that leave the life cycle alone\<close>

text \<open>\<open>quiet a a'\<close>: the state, the sizes and the tokens are the same and only neutral events
  were added.\<close>

definition quiet :: "actor \<Rightarrow> actor \<Rightarrow> bool" where
  "quiet a a' \<longleftrightarrow> ac_state a' = ac_state a \<and> sizes a' = sizes a
     \<and> ac_token_pool a' = ac_token_pool a
     \<and> (\<exists>es. ac_events a' = ac_events a @ es \<and> (\<forall>e \<in> set es. neutral e))"

lemma life_run_neutral: "\<forall>e \<in> set es. neutral e \<Longrightarrow> life_run s es = Some s"
  by (induction es) (simp_all add: life_step_neutral)

lemma quiet_run: "quiet a a' \<Longrightarrow> life_run s (ac_events a) = Some r \<Longrightarrow> life_run s (ac_events a') = Some r"
  by (auto simp: quiet_def life_run_append life_run_neutral)

lemma quiet_legal: "quiet a a' \<Longrightarrow> legal a \<Longrightarrow> legal a'"
  by (auto simp: quiet_def legal_def life_run_append life_run_neutral dest: sizes_sized)

lemma quiet_sized:
  "quiet a b \<Longrightarrow> sized a \<Longrightarrow>
     sized b \<and> ac_num_inputs b = ac_num_inputs a \<and> ac_num_outputs b = ac_num_outputs a"
  using sizes_sized [of b a] by (auto simp: quiet_def sizes_def)

lemma quiet_refl [simp]: "quiet a a"
  by (simp add: quiet_def)

lemma legal_post: "neutral e \<Longrightarrow> legal a \<Longrightarrow> legal (post e a)"
  by (simp add: legal_def post_def life_run_append life_step_neutral)

lemma quiet_trans: "quiet a b \<Longrightarrow> quiet b c \<Longrightarrow> quiet a c"
  by (fastforce simp: quiet_def)

lemma quiet_post [simp, intro!]: "neutral e \<Longrightarrow> quiet a0 a \<Longrightarrow> quiet a0 (post e a)"
  by (auto simp: quiet_def post_def sizes_def)

lemma quiet_update [simp]:
  "quiet a0 (a\<lparr>ac_name := x0\<rparr>) = quiet a0 a"
  "quiet a0 (a\<lparr>ac_global := x3\<rparr>) = quiet a0 a"
  "length x4 = length (ac_in_cfg a) \<Longrightarrow> quiet a0 (a\<lparr>ac_in_cfg := x4\<rparr>) = quiet a0 a"
  "length x5 = length (ac_out_cfg a) \<Longrightarrow> quiet a0 (a\<lparr>ac_out_cfg := x5\<rparr>) = quiet a0 a"
  "length x6 = length (ac_in_items a) \<Longrightarrow> quiet a0 (a\<lparr>ac_in_items := x6\<rparr>) = quiet a0 a"
  "length x7 = length (ac_out_items a) \<Longrightarrow> quiet a0 (a\<lparr>ac_out_items := x7\<rparr>) = quiet a0 a"
  "quiet a0 (a\<lparr>ac_in_min := x8\<rparr>) = quiet a0 a"
  "quiet a0 (a\<lparr>ac_in_max := x9\<rparr>) = quiet a0 a"
  "quiet a0 (a\<lparr>ac_out_min := x10\<rparr>) = quiet a0 a"
  "quiet a0 (a\<lparr>ac_out_max := x11\<rparr>) = quiet a0 a"
  "length x12 = length (ac_in_tokens a) \<Longrightarrow> quiet a0 (a\<lparr>ac_in_tokens := x12\<rparr>) = quiet a0 a"
  "length x13 = length (ac_out_tokens a) \<Longrightarrow> quiet a0 (a\<lparr>ac_out_tokens := x13\<rparr>) = quiet a0 a"
  "length x14 = length (ac_in_done a) \<Longrightarrow> quiet a0 (a\<lparr>ac_in_done := x14\<rparr>) = quiet a0 a"
  "length x15 = length (ac_out_done a) \<Longrightarrow> quiet a0 (a\<lparr>ac_out_done := x15\<rparr>) = quiet a0 a"
  "length (iq_ports x17) = length (iq_ports (ac_inq a)) \<Longrightarrow> quiet a0 (a\<lparr>ac_inq := x17\<rparr>) = quiet a0 a"
  "length (oq_ports x18) = length (oq_ports (ac_outq a)) \<Longrightarrow> quiet a0 (a\<lparr>ac_outq := x18\<rparr>) = quiet a0 a"
  "length x19 = length (ac_avail a) \<Longrightarrow> quiet a0 (a\<lparr>ac_avail := x19\<rparr>) = quiet a0 a"
  "length x20 = length (ac_tags_changed a) \<Longrightarrow> quiet a0 (a\<lparr>ac_tags_changed := x20\<rparr>) = quiet a0 a"
  "length x21 = length (ac_tags a) \<Longrightarrow> quiet a0 (a\<lparr>ac_tags := x21\<rparr>) = quiet a0 a"
  "length x22 = length (ac_msgs_read a) \<Longrightarrow> quiet a0 (a\<lparr>ac_msgs_read := x22\<rparr>) = quiet a0 a"
  "length x23 = length (ac_items_read a) \<Longrightarrow> quiet a0 (a\<lparr>ac_items_read := x23\<rparr>) = quiet a0 a"
  "length x24 = length (ac_out_read a) \<Longrightarrow> quiet a0 (a\<lparr>ac_out_read := x24\<rparr>) = quiet a0 a"
  "length x25 = length (ac_total_consumed a) \<Longrightarrow> quiet a0 (a\<lparr>ac_total_consumed := x25\<rparr>) = quiet a0 a"
  "length x26 = length (ac_total_produced a) \<Longrightarrow> quiet a0 (a\<lparr>ac_total_produced := x26\<rparr>) = quiet a0 a"
  "length x27 = length (ac_msgs a) \<Longrightarrow> quiet a0 (a\<lparr>ac_msgs := x27\<rparr>) = quiet a0 a"
  "length x28 = length (ac_hints a) \<Longrightarrow> quiet a0 (a\<lparr>ac_hints := x28\<rparr>) = quiet a0 a"
  "quiet a0 (a\<lparr>ac_thread_group := x29\<rparr>) = quiet a0 a"
  "quiet a0 (a\<lparr>ac_interruptible := x30\<rparr>) = quiet a0 a"
  "quiet a0 (a\<lparr>ac_first_done := x39\<rparr>) = quiet a0 a"
  "length x31 = length (st_items_consumed a) \<Longrightarrow> quiet a0 (a\<lparr>st_items_consumed := x31\<rparr>) = quiet a0 a"
  "length x32 = length (st_tags_consumed a) \<Longrightarrow> quiet a0 (a\<lparr>st_tags_consumed := x32\<rparr>) = quiet a0 a"
  "length x33 = length (st_msgs_consumed a) \<Longrightarrow> quiet a0 (a\<lparr>st_msgs_consumed := x33\<rparr>) = quiet a0 a"
  "length x34 = length (st_items_produced a) \<Longrightarrow> quiet a0 (a\<lparr>st_items_produced := x34\<rparr>) = quiet a0 a"
  "length x35 = length (st_tags_produced a) \<Longrightarrow> quiet a0 (a\<lparr>st_tags_produced := x35\<rparr>) = quiet a0 a"
  "length x36 = length (st_msgs_produced a) \<Longrightarrow> quiet a0 (a\<lparr>st_msgs_produced := x36\<rparr>) = quiet a0 a"
  "quiet a0 (a\<lparr>st_work_count := x37\<rparr>) = quiet a0 a"
  "quiet a0 (a\<lparr>st_start_time := x38\<rparr>) = quiet a0 a"
  "quiet a0 (a\<lparr>st_stop_time := x39\<rparr>) = quiet a0 a"
  "quiet a0 (a\<lparr>st_time_last_work := x40\<rparr>) = quiet a0 a"
  "quiet a0 (a\<lparr>ac_fresh := x41\<rparr>) = quiet a0 a"
  "quiet a0 (a\<lparr>ac_world := x42\<rparr>) = quiet a0 a"
  by (simp_all add: quiet_def sizes_def)

text \<open>The rules below have one form: an operation that returns carries \<open>quiet a0\<close> over, so a
  handler's proof chains them backwards along its own equations.\<close>

named_theorems quiet \<open>operations that leave the life cycle alone\<close>

lemma at_eq_Inr [res_simps]: "at v i k = Inr y \<longleftrightarrow> i < length v \<and> k (v ! i) = Inr y"
  by (simp add: at_def)

lemma in_port_eq_Inr [res_simps]:
  "in_port i a k = Inr y \<longleftrightarrow> i < length (iq_ports (ac_inq a)) \<and> k (iq_ports (ac_inq a) ! i) = Inr y"
  by (simp add: in_port_def)

lemma out_port_eq_Inr [res_simps]:
  "out_port i a k = Inr y \<longleftrightarrow> i < length (oq_ports (ac_outq a)) \<and> k (oq_ports (ac_outq a) ! i) = Inr y"
  by (simp add: out_port_def)

lemma foldE_quiet:
  assumes "foldE f is a = Inr a'" and "quiet a0 a"
    and "\<And>i a a'. f i a = Inr a' \<Longrightarrow> quiet a0 a \<Longrightarrow> quiet a0 a'"
  shows "quiet a0 a'"
  by (rule foldE_invariant [where P = "quiet a0", OF _ assms(2,1)]) (rule assms(3))

lemma quiet_now [simp]: "quiet a0 (snd (now_of a)) = quiet a0 a"
  by (simp add: now_of_def split: prod.splits)

lemma on_port_length: "on_port i f q w = Inr (q', w') \<Longrightarrow> length (iq_ports q') = length (iq_ports q)"
  by (auto simp: on_port_def res_simps split: if_splits)

lemma on_oport_length: "on_oport i f q w = Inr (q', w') \<Longrightarrow> length (oq_ports q') = length (oq_ports q)"
  by (auto simp: on_oport_def res_simps split: if_splits)

lemma in_op_quiet [quiet]: "in_op i f a = Inr a' \<Longrightarrow> quiet a0 a \<Longrightarrow> quiet a0 a'"
  by (auto simp: in_op_def res_simps dest: on_port_length)

lemma out_op_quiet [quiet]: "out_op i f a = Inr a' \<Longrightarrow> quiet a0 a \<Longrightarrow> quiet a0 a'"
  by (auto simp: out_op_def res_simps dest: on_oport_length)

lemma in_front_quiet [quiet]: "in_front i a = Inr (b, a') \<Longrightarrow> quiet a0 a \<Longrightarrow> quiet a0 a'"
  by (auto simp: in_front_def res_simps)

lemma set_oport_quiet [simp]: "quiet a0 (set_oport i p a) = quiet a0 a"
  by (simp add: set_oport_def)

lemma out_front_quiet [quiet]: "out_front i a = Inr (b, a') \<Longrightarrow> quiet a0 a \<Longrightarrow> quiet a0 a'"
  by (auto simp: out_front_def res_simps)

lemma out_store_quiet [quiet]: "out_store i b a = Inr a' \<Longrightarrow> quiet a0 a \<Longrightarrow> quiet a0 a'"
  by (auto simp: out_store_def res_simps)

lemma task_kicker_quiet [simp]: "quiet a0 a \<Longrightarrow> quiet a0 (task_kicker en a)"
  by (simp add: task_kicker_def)

lemma update_input_avail_quiet [quiet]:
  "update_input_avail i a = Inr a' \<Longrightarrow> quiet a0 a \<Longrightarrow> quiet a0 a'"
  by (auto simp: update_input_avail_def res_simps Let_def elim!: in_op_quiet)

lemma actor_consume_quiet [quiet]: "actor_consume i n a = Inr a' \<Longrightarrow> quiet a0 a \<Longrightarrow> quiet a0 a'"
  by (auto simp: actor_consume_def res_simps)

lemma api_consume_quiet [quiet]: "api_consume i n a = Inr a' \<Longrightarrow> quiet a0 a \<Longrightarrow> quiet a0 a'"
  by (auto simp: api_consume_def res_simps elim!: actor_consume_quiet)

lemma actor_produce_quiet [quiet]: "actor_produce i n a = Inr a' \<Longrightarrow> quiet a0 a \<Longrightarrow> quiet a0 a'"
  by (auto simp: actor_produce_def res_simps elim!: quiet)

lemma get_output_buffer_quiet [quiet]:
  "get_output_buffer i a = Inr (b, a') \<Longrightarrow> quiet a0 a \<Longrightarrow> quiet a0 a'"
  by (auto simp: get_output_buffer_def res_simps Let_def elim!: quiet)

lemma pop_output_buffer_quiet [quiet]: "pop_output_buffer i n a = Inr a' \<Longrightarrow> quiet a0 a \<Longrightarrow> quiet a0 a'"
  by (auto simp: pop_output_buffer_def res_simps elim!: quiet)

lemma api_produce_quiet [quiet]: "api_produce i n a = Inr a' \<Longrightarrow> quiet a0 a \<Longrightarrow> quiet a0 a'"
  by (auto simp: api_produce_def res_simps elim!: quiet)

lemma post_output_buffer_quiet [quiet]: "post_output_buffer i b a = Inr a' \<Longrightarrow> quiet a0 a \<Longrightarrow> quiet a0 a'"
  by (auto simp: post_output_buffer_def res_simps elim!: api_produce_quiet)

lemma post_output_tag_quiet [quiet]: "post_output_tag i t a = Inr a' \<Longrightarrow> quiet a0 a \<Longrightarrow> quiet a0 a'"
  by (auto simp: post_output_tag_def res_simps)

lemma post_output_msg_quiet [quiet]: "post_output_msg i m a = Inr a' \<Longrightarrow> quiet a0 a \<Longrightarrow> quiet a0 a'"
  by (auto simp: post_output_msg_def res_simps)

lemma pop_input_msg_quiet [quiet]: "pop_input_msg i a = Inr (m, a') \<Longrightarrow> quiet a0 a \<Longrightarrow> quiet a0 a'"
  by (auto simp: pop_input_msg_def res_simps split: if_splits)

lemma propagate_tags_quiet [quiet]: "propagate_tags i ts a = Inr a' \<Longrightarrow> quiet a0 a \<Longrightarrow> quiet a0 a'"
  unfolding propagate_tags_def
  by (erule (1) foldE_quiet, erule (1) foldE_quiet) (auto simp: res_simps elim!: quiet)

lemma sort_tags_quiet [quiet]: "sort_tags en i a = Inr a' \<Longrightarrow> quiet a0 a \<Longrightarrow> quiet a0 a'"
  by (auto simp: sort_tags_def res_simps split: if_splits)

lemma trim_tags_quiet [quiet]: "trim_tags i a = Inr a' \<Longrightarrow> quiet a0 a \<Longrightarrow> quiet a0 a'"
  by (auto simp: trim_tags_def res_simps Let_def elim!: propagate_tags_quiet split: if_splits)

lemma trim_msgs_quiet [quiet]: "trim_msgs i a = Inr a' \<Longrightarrow> quiet a0 a \<Longrightarrow> quiet a0 a'"
  by (auto simp: trim_msgs_def res_simps split: if_splits)

lemma trim_buffs_quiet [quiet]: "trim_buffs i a = Inr a' \<Longrightarrow> quiet a0 a \<Longrightarrow> quiet a0 a'"
  by (auto simp: trim_buffs_def res_simps elim!: in_op_quiet split: if_splits)

lemma post_input_quiet [quiet]: "post_input i a = Inr a' \<Longrightarrow> quiet a0 a \<Longrightarrow> quiet a0 a'"
  by (auto simp: post_input_def res_simps elim!: quiet)

lemma post_output_quiet [quiet]: "post_output i a = Inr a' \<Longrightarrow> quiet a0 a \<Longrightarrow> quiet a0 a'"
  by (auto simp: post_output_def res_simps Let_def elim!: quiet split: if_splits)

lemma prep_input_quiet [quiet]: "prep_input en i (a, n) = Inr (a', n') \<Longrightarrow> quiet a0 a \<Longrightarrow> quiet a0 a'"
  by (auto simp: prep_input_def res_simps Let_def elim!: sort_tags_quiet split: if_splits
      elim!: in_front_quiet)

lemma prep_output_quiet [quiet]: "prep_output i a = Inr a' \<Longrightarrow> quiet a0 a \<Longrightarrow> quiet a0 a'"
  by (auto simp: prep_output_def res_simps Let_def elim!: out_front_quiet)

lemma task_prep_quiet [quiet]:
  assumes "task_prep en a = Inr a'" and "quiet a0 a"
  shows "quiet a0 a'"
proof -
  obtain b n where p: "foldE (prep_input en) [0..<ac_num_inputs a] (a\<lparr>ac_in_min := size_max, ac_in_max := 0\<rparr>, 0) = Inr (b, n)"
    and o: "foldE prep_output [0..<ac_num_outputs b] (b\<lparr>ac_out_min := size_max, ac_out_max := 0\<rparr>) = Inr a'"
    using assms(1) by (auto simp: task_prep_def res_simps Let_def)
  have "quiet a0 (fst (b, n))"
    by (rule foldE_invariant [where P = "\<lambda>s. quiet a0 (fst s)", OF _ _ p])
      (use assms(2) in \<open>auto elim!: quiet\<close>)
  then have "quiet a0 (b\<lparr>ac_out_min := size_max, ac_out_max := 0\<rparr>)" by simp
  with o show ?thesis by (rule foldE_quiet) (auto elim!: quiet)
qed

lemma task_post_quiet [quiet]:
  assumes "task_post en a = Inr a'" and "quiet a0 a"
  shows "quiet a0 a'"
proof -
  obtain b c where "foldE post_input [0..<ac_num_inputs a] a = Inr b"
    "foldE post_output [0..<ac_num_outputs b] b = Inr c" "a' = task_kicker en c"
    using assms(1) by (auto simp: task_post_def res_simps)
  moreover from this(1) have "quiet a0 b" by (rule foldE_quiet) (use assms(2) in \<open>auto elim!: quiet\<close>)
  moreover from calculation(2) have "quiet a0 c" by (rule foldE_quiet) (use calculation in \<open>auto elim!: quiet\<close>)
  ultimately show ?thesis by simp
qed

lemma output_fail_quiet [quiet]: "output_fail i a = Inr a' \<Longrightarrow> quiet a0 a \<Longrightarrow> quiet a0 a'"
  by (auto simp: output_fail_def res_simps elim!: quiet)

lemma flush_output_quiet [quiet]: "flush_output i a = Inr a' \<Longrightarrow> quiet a0 a \<Longrightarrow> quiet a0 a'"
  by (auto simp: flush_output_def res_simps elim!: quiet)

lemma fold_post_quiet:
  "(\<And>i. neutral (e i)) \<Longrightarrow> quiet a0 a \<Longrightarrow> quiet a0 (fold (\<lambda>i. post (e i)) is a)"
  by (induction "is" arbitrary: a) auto

section \<open>Operations that change the state\<close>

named_theorems legal \<open>operations that keep the life cycle legal\<close>

lemma quiet_op_legal: "(\<And>a0. quiet a0 a \<Longrightarrow> quiet a0 a') \<Longrightarrow> legal a \<Longrightarrow> legal a'"
  using quiet_legal quiet_refl by blast

text \<open>The stages of a \<open>mark_done\<close> that does something.\<close>

definition inactive :: "actor \<Rightarrow> actor" where
  "inactive a = post Notify_Inactive ((snd (now_of a))\<lparr>st_stop_time := fst (now_of a)\<rparr>)"

lemma mark_done_stages:
  assumes "mark_done a = Inr a'" and "ac_state a \<noteq> BLOCK_STATE_DONE"
  obtains a2 q w oq w' a4
  where "foldE flush_output [0..<ac_num_outputs (inactive a)] (inactive a) = Inr a2"
    and "iq_flush_all (ac_inq a2) (ac_world a2) = Inr (q, w)"
    and "oq_flush_all (ac_outq a2) w = (oq, w')"
    and "foldE clear_input [0..<ac_num_inputs a2] (a2\<lparr>ac_interruptible := False,
        ac_state := BLOCK_STATE_DONE, ac_token_pool := {}, ac_inq := q, ac_outq := oq, ac_world := w'\<rparr>) = Inr a4"
    and "a' = fold (\<lambda>o'. post (Downstream o' InputCheckMessage)) [0..<ac_num_outputs a4]
        (fold (\<lambda>i. post (Upstream i OutputCheckMessage)) [0..<ac_num_inputs a2] a4)"
proof -
  obtain a2 r a4 where "foldE flush_output [0..<ac_num_outputs (inactive a)] (inactive a) = Inr a2"
    and "iq_flush_all (ac_inq a2) (ac_world a2) = Inr r"
    and "foldE clear_input [0..<ac_num_inputs a2] (a2\<lparr>ac_interruptible := False,
        ac_state := BLOCK_STATE_DONE, ac_token_pool := {}, ac_inq := fst r,
        ac_outq := fst (oq_flush_all (ac_outq a2) (snd r)),
        ac_world := snd (oq_flush_all (ac_outq a2) (snd r))\<rparr>) = Inr a4"
    and "a' = fold (\<lambda>o'. post (Downstream o' InputCheckMessage)) [0..<ac_num_outputs a4]
        (fold (\<lambda>i. post (Upstream i OutputCheckMessage)) [0..<ac_num_inputs a2] a4)"
    using assms by (auto simp: mark_done_def res_simps Let_def inactive_def case_prod_unfold)
  then show thesis by (metis prod.collapse that)
qed

lemma iq_flush_all_length:
  assumes "iq_flush_all q w = Inr (q', w')"
  shows "length (iq_ports q') = length (iq_ports q)"
proof -
  have "length (iq_ports (fst (q', w'))) = length (iq_ports q)"
    by (rule foldE_invariant [where P = "\<lambda>s. length (iq_ports (fst s)) = length (iq_ports q)",
          OF _ _ assms [unfolded iq_flush_all_def]]) (auto dest: on_port_length)
  then show ?thesis by simp
qed

lemma oq_flush_all_length: "oq_flush_all q w = (q', w') \<Longrightarrow> length (oq_ports q') = length (oq_ports q)"
  by (auto simp: oq_flush_all_def oq_resize_def Let_def case_prod_unfold)

lemma mark_done_legal [legal]:
  assumes "mark_done a = Inr a'" and "legal a"
  shows "legal a'"
proof (cases "ac_state a = BLOCK_STATE_DONE")
  case True
  with assms show ?thesis by (simp add: mark_done_def)
next
  case False
  have ev: "ac_events (snd (now_of a)) = ac_events a"
    by (simp add: now_of_def split: prod.splits)
  have r1: "life_run BLOCK_STATE_INIT (ac_events (inactive a)) = Some BLOCK_STATE_DONE"
    using assms(2) False by (simp add: inactive_def post_def ev life_run_append legal_def)
  from assms(1) False obtain a2 q w oq w' a4
    where f: "foldE flush_output [0..<ac_num_outputs (inactive a)] (inactive a) = Inr a2"
    and q: "iq_flush_all (ac_inq a2) (ac_world a2) = Inr (q, w)"
    and oq: "oq_flush_all (ac_outq a2) w = (oq, w')"
    and c: "foldE clear_input [0..<ac_num_inputs a2] (a2\<lparr>ac_interruptible := False,
        ac_state := BLOCK_STATE_DONE, ac_token_pool := {}, ac_inq := q, ac_outq := oq, ac_world := w'\<rparr>) = Inr a4"
    and a': "a' = fold (\<lambda>o'. post (Downstream o' InputCheckMessage)) [0..<ac_num_outputs a4]
        (fold (\<lambda>i. post (Upstream i OutputCheckMessage)) [0..<ac_num_inputs a2] a4)"
    by (rule mark_done_stages)
  have "quiet (inactive a) a2" using f by (rule foldE_quiet) (auto elim!: quiet)
  then have r2: "life_run BLOCK_STATE_INIT (ac_events a2) = Some BLOCK_STATE_DONE"
    using r1 by (rule quiet_run)
  define a3 where "a3 = a2\<lparr>ac_interruptible := False, ac_state := BLOCK_STATE_DONE, ac_token_pool := {},
      ac_inq := q, ac_outq := oq, ac_world := w'\<rparr>"
  have s2: "sized a2" using \<open>quiet (inactive a) a2\<close> assms(2)
    by (auto simp: legal_def inactive_def post_def quiet_def now_of_def dest!: sizes_sized split: prod.splits)
  have "sized a3"
    using s2 iq_flush_all_length [OF q] oq_flush_all_length [OF oq] by (simp add: a3_def)
  then have "legal a3" using r2 by (simp add: legal_def a3_def)
  moreover have "quiet a3 a4" using c [folded a3_def] by (rule foldE_quiet) (auto simp: clear_input_def res_simps)
  then have "quiet a3 a'" unfolding a' by (intro fold_post_quiet) auto
  ultimately show ?thesis using quiet_legal by blast
qed

lemma quiet_handler_legal:
  "f = Inr a' \<Longrightarrow> legal a \<Longrightarrow> (\<And>a0. f = Inr a' \<Longrightarrow> quiet a0 a \<Longrightarrow> quiet a0 a') \<Longrightarrow> legal a'"
  using quiet_op_legal by blast

lemma in_op_legal [legal]: "in_op i f a = Inr a' \<Longrightarrow> legal a \<Longrightarrow> legal a'"
  by (erule (1) quiet_handler_legal) (rule in_op_quiet)

lemma out_op_legal [legal]: "out_op i f a = Inr a' \<Longrightarrow> legal a \<Longrightarrow> legal a'"
  by (erule (1) quiet_handler_legal) (rule out_op_quiet)

lemma update_input_avail_legal [legal]: "update_input_avail i a = Inr a' \<Longrightarrow> legal a \<Longrightarrow> legal a'"
  by (erule (1) quiet_handler_legal) (rule update_input_avail_quiet)

lemma task_kicker_legal: "legal a \<Longrightarrow> legal (task_kicker en a)"
  using quiet_legal [OF task_kicker_quiet [OF quiet_refl]] by blast

lemma input_fail_legal [legal]: "input_fail en i a = Inr a' \<Longrightarrow> legal a \<Longrightarrow> legal a'"
  by (auto simp: input_fail_def res_simps split: if_splits elim!: legal intro!: task_kicker_legal)

lemma foldE_legal:
  assumes "foldE f is a = Inr a'" and "legal a"
    and "\<And>i a a'. f i a = Inr a' \<Longrightarrow> legal a \<Longrightarrow> legal a'"
  shows "legal a'"
  by (rule foldE_invariant [where P = legal, OF _ assms(2,1)]) (rule assms(3))

lemma api_step_quiet:
  assumes "api_step en op a = Inr a'" and "\<not> (op = Mark_Done \<or> (\<exists>i. op = Mark_Input_Fail i))" and "quiet a0 a"
  shows "quiet a0 a'"
  using assms
  by (cases op) (auto simp: api_consume_all_def api_produce_all_def res_simps post_input_tag_def
      post_input_msg_def post_input_buffer_def elim!: quiet elim!: foldE_quiet)

lemma api_step_legal [legal]:
  assumes "api_step en op a = Inr a'" and "legal a"
  shows "legal a'"
proof (cases "op = Mark_Done \<or> (\<exists>i. op = Mark_Input_Fail i)")
  case True
  with assms show ?thesis by (auto elim!: legal)
next
  case False
  have "quiet a0 a'" if "quiet a0 a" for a0
    using assms(1) False that by (rule api_step_quiet)
  then show ?thesis using assms(2) quiet_op_legal by blast
qed

lemma api_run_legal [legal]: "api_run en ops a = Inr a' \<Longrightarrow> legal a \<Longrightarrow> legal a'"
  unfolding api_run_def by (erule (1) foldE_legal) (rule api_step_legal)

lemma task_main_legal [legal]:
  assumes "task_main en a = Inr a'" and "legal a"
  shows "legal a'"
proof (cases "work_allowed en a")
  case False
  with assms show ?thesis by (simp add: task_main_def)
next
  case True
  then obtain b c where p: "task_prep en a = Inr b"
    and r: "api_run en (en_work en (b\<lparr>st_work_count := sz_add (st_work_count b) 1\<rparr>))
        (post Work_Called (b\<lparr>st_work_count := sz_add (st_work_count b) 1\<rparr>)) = Inr c"
    and t: "task_post en ((snd (now_of c))\<lparr>st_time_last_work := fst (now_of c)\<rparr>) = Inr a'"
    using assms(1) by (auto simp: task_main_def task_work_def res_simps case_prod_unfold Let_def)
  have q: "quiet a b" using p by (rule task_prep_quiet) simp
  then have "ac_state b = BLOCK_STATE_LIVE" using True by (simp add: quiet_def work_allowed_def)
  moreover have "legal b" using q assms(2) by (rule quiet_legal)
  ultimately have "legal (post Work_Called (b\<lparr>st_work_count := sz_add (st_work_count b) 1\<rparr>))"
    by (simp add: legal_def post_def life_run_append)
  with r have "legal c" by (rule api_run_legal)
  moreover have "quiet c ((snd (now_of c))\<lparr>st_time_last_work := fst (now_of c)\<rparr>)" by simp
  with t have "quiet c a'" by (rule task_post_quiet)
  ultimately show ?thesis using quiet_legal by blast
qed

lemma legal_update [simp]:
  "length x2 = length (ac_in_done a) \<Longrightarrow> legal (a\<lparr>ac_in_done := x2\<rparr>) = legal a"
  "length x3 = length (ac_out_done a) \<Longrightarrow> legal (a\<lparr>ac_out_done := x3\<rparr>) = legal a"
  "length x4 = length (ac_msgs a) \<Longrightarrow> legal (a\<lparr>ac_msgs := x4\<rparr>) = legal a"
  "legal (a\<lparr>ac_world := x5\<rparr>) = legal a"
  "legal (a\<lparr>ac_first_done := x6\<rparr>) = legal a"
  "legal (a\<lparr>ac_token_pool := x7\<rparr>) = legal a"
  by (simp_all add: legal_def)

section \<open>The handlers\<close>

lemma handle_input_update_quiet [quiet]: "handle_input_update i a = Inr a' \<Longrightarrow> quiet a0 a \<Longrightarrow> quiet a0 a'"
  by (auto simp: handle_input_update_def res_simps Let_def elim!: quiet split: if_splits)

lemma handle_output_update_quiet [quiet]: "handle_output_update i a = Inr a' \<Longrightarrow> quiet a0 a \<Longrightarrow> quiet a0 a'"
  by (auto simp: handle_output_update_def res_simps elim!: quiet split: if_splits)

lemma quiet_token [simp]: "quiet a0 (snd (make_token a)) = quiet a0 a"
  by (simp add: make_token_def)

lemma token_input_quiet [quiet]: "token_input i a = Inr a' \<Longrightarrow> quiet a0 a \<Longrightarrow> quiet a0 a'"
  by (auto simp: token_input_def make_token_def res_simps)

lemma token_output_quiet [quiet]: "token_output i a = Inr a' \<Longrightarrow> quiet a0 a \<Longrightarrow> quiet a0 a'"
  by (auto simp: token_output_def make_token_def res_simps)

text \<open>The handlers of tokens are quiet but for the token they put into the pool.\<close>

lemma handle_top_token_quiet:
  assumes "handle_top_token t a = Inr a'"
  obtains b where "quiet a b" "a' = post Ack (b\<lparr>ac_token_pool := insert t (ac_token_pool b)\<rparr>)"
proof -
  from assms obtain c b where c: "foldE token_input [0..<ac_num_inputs a] a = Inr c"
    and b: "foldE token_output [0..<ac_num_outputs c] c = Inr b"
    and a': "a' = post Ack (b\<lparr>ac_token_pool := insert t (ac_token_pool b)\<rparr>)"
    by (auto simp: handle_top_token_def res_simps)
  have "quiet a c" using c by (rule foldE_quiet) (auto elim: token_input_quiet)
  with b have "quiet a b" by (rule foldE_quiet) (auto elim: token_output_quiet)
  then show ?thesis using a' by (rule that)
qed

lemma handle_top_config_quiet: "quiet a0 a \<Longrightarrow> quiet a0 (handle_top_config c a)"
  by (auto simp: handle_top_config_def Let_def)

lemma handle_top_thread_group_quiet: "quiet a0 a \<Longrightarrow> quiet a0 (handle_top_thread_group g a)"
  by (auto simp: handle_top_thread_group_def Let_def)

lemma handle_get_stats_quiet [quiet]: "handle_get_stats en a = Inr a' \<Longrightarrow> quiet a0 a \<Longrightarrow> quiet a0 a'"
  by (auto simp: handle_get_stats_def now_of_def res_simps split: prod.splits)

lemma handle_callable_quiet: "quiet a0 a \<Longrightarrow> quiet a0 (handle_callable en k v a)"
  by (auto simp: handle_callable_def split: sum.splits)

lemma fold_returner_quiet: "quiet a0 a \<Longrightarrow> quiet a0 (fold (buffer_returner i) bs a)"
  by (induction bs arbitrary: a) (auto simp: buffer_returner_def)

lemma alloc_output_quiet [quiet]:
  assumes "alloc_output en i a = Inr a'" and "quiet a0 a"
  shows "quiet a0 a'"
proof -
  obtain bs w b queue cfg where o: "out_op i (\<lambda>t0. set_buffer_queue t0 queue)
      (fold (buffer_returner i) bs (a\<lparr>ac_fresh := Suc (ac_fresh a), ac_world := w\<rparr>)) = Inr b"
    and a': "a' = post (Downstream i (InputAllocMessage cfg)) b"
    using assms(1)
    by (auto simp: alloc_output_def make_token_def res_simps Let_def case_prod_unfold split: option.splits)
  have "quiet a0 (fold (buffer_returner i) bs (a\<lparr>ac_fresh := Suc (ac_fresh a), ac_world := w\<rparr>))"
    by (rule fold_returner_quiet) (simp add: assms(2))
  with o show ?thesis unfolding a' by (auto elim!: quiet)
qed

lemma handle_top_alloc_quiet [quiet]: "handle_top_alloc en a = Inr a' \<Longrightarrow> quiet a0 a \<Longrightarrow> quiet a0 a'"
  by (auto simp: handle_top_alloc_def res_simps elim!: foldE_quiet alloc_output_quiet)

lemma resize_to_topology_sized:
  "ac_num_inputs a = ni \<Longrightarrow> ac_num_outputs a = no \<Longrightarrow> sized (resize_to_topology ni no a)"
  by (simp add: sized_def resize_to_topology_def iq_resize_def oq_resize_def Let_def case_prod_unfold
      length_resize_fill_back length_resize_fill_grow)

text \<open>A new topology fits the sizes to the ports, whatever they were before.\<close>

lemma handle_topology_legal:
  assumes "handle_topology a = Inr a'"
    and "life_run BLOCK_STATE_INIT (ac_events a) = Some (ac_state a)"
  shows "legal a'"
proof -
  let ?a = "resize_to_topology (ac_num_inputs a) (ac_num_outputs a)
      (post (Notify_Topology (ac_num_inputs a) (ac_num_outputs a)) a)"
  obtain b c d where b: "(if ac_num_inputs a = 0 \<and> ac_num_outputs a = 0 then mark_done ?a else Inr ?a) = Inr b"
    and c: "foldE handle_input_update [0..<ac_num_inputs a] b = Inr c"
    and d: "foldE handle_output_update [0..<ac_num_outputs a] c = Inr d" and a': "a' = post Ack d"
    using assms(1) by (auto simp: handle_topology_def Let_def res_simps)
  have "life_run BLOCK_STATE_INIT (ac_events ?a) = Some (ac_state ?a)"
    using assms(2) by (simp add: resize_to_topology_def post_def Let_def case_prod_unfold life_run_append)
  then have "legal ?a" by (simp add: legal_def resize_to_topology_sized post_def)
  with b have "legal b" by (auto elim!: legal split: if_splits)
  moreover have "quiet b c" using c by (rule foldE_quiet) (auto elim!: quiet)
  with d have "quiet b d" by (rule foldE_quiet) (auto elim!: quiet)
  then have "quiet b a'" unfolding a' by auto
  ultimately show ?thesis using quiet_legal by blast
qed

lemma handle_top_active_legal: "legal a \<Longrightarrow> legal (handle_top_active a)"
  by (auto simp: handle_top_active_def legal_def post_def now_of_def life_run_append Let_def split: prod.splits)

lemma handle_input_check_legal: "handle_input_check en i a = Inr a' \<Longrightarrow> legal a \<Longrightarrow> legal a'"
  by (auto simp: handle_input_check_def res_simps elim!: legal split: if_splits)

lemma handle_top_inert_legal [legal]: "handle_top_inert n a = Inr a' \<Longrightarrow> legal a \<Longrightarrow> legal a'"
  by (auto simp: handle_top_inert_def res_simps elim!: legal intro!: legal_post split: if_splits)

lemma handle_input_msg_legal [legal]: "handle_input_msg en i m a = Inr a' \<Longrightarrow> legal a \<Longrightarrow> legal a'"
  by (auto simp: handle_input_msg_def res_simps elim!: legal split: if_splits)

lemma handle_input_buffer_legal [legal]: "handle_input_buffer en i b a = Inr a' \<Longrightarrow> legal a \<Longrightarrow> legal a'"
  by (auto simp: handle_input_buffer_def res_simps elim!: legal split: if_splits)

lemma handle_output_buffer_legal [legal]: "handle_output_buffer en i b a = Inr a' \<Longrightarrow> legal a \<Longrightarrow> legal a'"
  by (auto simp: handle_output_buffer_def res_simps elim!: legal split: if_splits)

lemma handle_output_check_legal [legal]: "handle_output_check en i a = Inr a' \<Longrightarrow> legal a \<Longrightarrow> legal a'"
  by (auto simp: handle_output_check_def res_simps Let_def elim!: legal split: if_splits)

lemma handle_top_token_legal: "handle_top_token t a = Inr a' \<Longrightarrow> legal a \<Longrightarrow> legal a'"
  by (erule handle_top_token_quiet) (auto intro!: legal_post dest: quiet_legal)

lemma handle_input_token_legal: "handle_input_token i t a = Inr a' \<Longrightarrow> legal a \<Longrightarrow> legal a'"
  by (auto simp: handle_input_token_def res_simps)

lemma handle_output_token_legal: "handle_output_token i t a = Inr a' \<Longrightarrow> legal a \<Longrightarrow> legal a'"
  by (auto simp: handle_output_token_def res_simps)

text \<open>The messages whose handlers leave the life cycle alone.\<close>

fun calm :: "message \<Rightarrow> bool" where
  "calm (Topology ni no) = False"
| "calm TopActive = False"
| "calm (TopInert n) = False"
| "calm (TopToken t) = False"
| "calm (To_Input i (InputTokenMessage t)) = False"
| "calm (To_Output i (OutputTokenMessage t)) = False"
| "calm (To_Input i (InputMsgMessage m)) = False"
| "calm (To_Input i (InputBufferMessage b)) = False"
| "calm (To_Input i InputCheckMessage) = False"
| "calm (OutputBuffer i b) = False"
| "calm (To_Output i OutputCheckMessage) = False"
| "calm SelfKick = False"
| "calm m = True"

lemma calm_quiet:
  assumes "calm m" and "handle_message en m a = Inr a'" and "quiet a0 a"
  shows "quiet a0 a'"
  using assms
  by (cases "(en, m, a)" rule: handle_message.cases)
    (auto simp: handle_input_tag_def handle_input_token_def handle_input_alloc_def handle_output_token_def
      handle_output_hint_def handle_output_alloc_def make_token_def res_simps Let_def
      split: if_splits option.splits elim!: quiet
      intro!: handle_top_config_quiet handle_top_thread_group_quiet handle_callable_quiet)

lemma handle_message_legal:
  assumes "handle_message en m a = Inr a'" and "legal a"
  shows "legal a'"
proof (cases "calm m")
  case True
  then have "quiet a a'" using assms(1) by (rule calm_quiet) simp
  then show ?thesis using assms(2) by (rule quiet_legal)
next
  case False
  have upd: "life_run BLOCK_STATE_INIT (ac_events (a\<lparr>ac_num_inputs := x, ac_num_outputs := y\<rparr>))
      = Some (ac_state (a\<lparr>ac_num_inputs := x, ac_num_outputs := y\<rparr>))" for x y
    using assms(2) by (simp add: legal_def)
  from False assms show ?thesis
    by (cases "(en, m, a)" rule: handle_message.cases)
      (auto simp: handle_self_kick_def elim: handle_input_check_legal intro: handle_top_active_legal
        handle_top_token_legal handle_input_token_legal handle_output_token_legal
        elim!: legal dest: handle_topology_legal [OF _ upd])
qed

lemma actor_reach_legal: "actor_reach a0 a \<Longrightarrow> legal a0 \<Longrightarrow> legal a"
  by (induction rule: actor_reach.induct) (auto elim: handle_message_legal)

end
