(* ===== verification/Block_Done.thy ===== *)
theory Block_Done
  imports Block_Trace Input_Stream Output_Props
begin

text \<open>
  What \<open>mark_done\<close> of lib/task_done.cpp leaves behind and tells the neighbours, stage by stage.
\<close>

section \<open>The partial outputs\<close>

text \<open>\<open>flushed a b\<close>: from \<open>a\<close> to \<open>b\<close> only output buffers went out, and none of them was empty.\<close>

definition buffer_out :: "event \<Rightarrow> bool" where
  "buffer_out e \<longleftrightarrow> (\<exists>o' b. e = Downstream o' (InputBufferMessage b) \<and> sb_length b \<noteq> 0)"

definition flushed :: "actor \<Rightarrow> actor \<Rightarrow> bool" where
  "flushed a b \<longleftrightarrow> ac_num_inputs b = ac_num_inputs a \<and> ac_num_outputs b = ac_num_outputs a
     \<and> (\<exists>es. ac_events b = ac_events a @ es \<and> (\<forall>e \<in> set es. buffer_out e))"

lemma flushed_refl [simp]: "flushed a a"
  by (simp add: flushed_def)

lemma out_op_frame:
  "out_op i f a = Inr a' \<Longrightarrow> ac_events a' = ac_events a \<and> ac_num_inputs a' = ac_num_inputs a
     \<and> ac_num_outputs a' = ac_num_outputs a"
  by (auto simp: out_op_def res_simps)

lemma out_front_frame:
  "out_front i a = Inr (b, a') \<Longrightarrow> ac_events a' = ac_events a \<and> ac_num_inputs a' = ac_num_inputs a
     \<and> ac_num_outputs a' = ac_num_outputs a"
  by (auto simp: out_front_def res_simps set_oport_def)

lemma flush_output_flushed:
  assumes "flush_output i b = Inr c" and "flushed a b"
  shows "flushed a c"
proof (cases "c = b")
  case True
  with assms show ?thesis by simp
next
  case False
  then obtain buff d where d: "out_front i b = Inr (buff, d)"
    and s: "c = d \<or> sb_length buff \<noteq> 0 \<and> out_op i oq_pop (post (Downstream i (InputBufferMessage buff)) d) = Inr c"
    using assms(1) by (auto simp: flush_output_def res_simps split: if_splits)
  note f = out_front_frame [OF d]
  from s show ?thesis
  proof
    assume "c = d"
    with f assms(2) show ?thesis by (simp add: flushed_def)
  next
    assume p: "sb_length buff \<noteq> 0 \<and> out_op i oq_pop (post (Downstream i (InputBufferMessage buff)) d) = Inr c"
    then have "buffer_out (Downstream i (InputBufferMessage buff))" by (simp add: buffer_out_def)
    with f assms(2) out_op_frame p show ?thesis
      by (fastforce simp: flushed_def post_def)
  qed
qed

lemma flush_outputs_flushed: "foldE flush_output is a = Inr b \<Longrightarrow> flushed a b"
  by (rule foldE_invariant [where P = "flushed a"]) (auto intro: flush_output_flushed)

section \<open>The queues and the stores\<close>

lemma drain_empty: "ip_queue (drain p w) = []"
  by (induction p w rule: drain.induct) (subst drain.simps, simp)

lemma iq_flush_empty:
  "iq_flush t0 p w = Inr (p', w') \<Longrightarrow> ip_queue p' = [] \<and> ip_enqueued p' = 0"
  using iq_update_frame [of t0 "(drain p w)\<lparr>ip_cap := 1, ip_enqueued := 0\<rparr>" w p' w']
  by (simp add: iq_flush_def drain_empty)

lemma iq_flush_all_empty:
  assumes "iq_flush_all q w = Inr (q', w')"
  shows "length (iq_ports q') = length (iq_ports q)
    \<and> (\<forall>p \<in> set (iq_ports q'). ip_queue p = [] \<and> ip_enqueued p = 0)"
proof -
  let ?f = "\<lambda>i (q, w). on_port i (iq_flush (iq_init_time q)) q w"
  have step: "length (iq_ports r') = length (iq_ports r)
      \<and> (\<forall>j < length (iq_ports r). j = i \<or> (ip_queue (iq_ports r ! j) = [] \<and> ip_enqueued (iq_ports r ! j) = 0)
          \<longrightarrow> ip_queue (iq_ports r' ! j) = [] \<and> ip_enqueued (iq_ports r' ! j) = 0)"
    if "?f i (r, v) = Inr (r', v')" for i r v r' v'
    using that by (auto simp: on_port_def res_simps nth_list_update dest!: iq_flush_empty split: if_splits)
  have "length (iq_ports r') = length (iq_ports r)
      \<and> (\<forall>j < length (iq_ports r). j \<in> set is \<or> (ip_queue (iq_ports r ! j) = [] \<and> ip_enqueued (iq_ports r ! j) = 0)
          \<longrightarrow> ip_queue (iq_ports r' ! j) = [] \<and> ip_enqueued (iq_ports r' ! j) = 0)"
    if "foldE ?f is (r, v) = Inr (r', v')" for "is" r v r' v'
    using that
  proof (induction "is" arbitrary: r v)
    case Nil
    then show ?case by simp
  next
    case (Cons i js)
    then obtain r1 v1 where s1: "?f i (r, v) = Inr (r1, v1)" and s2: "foldE ?f js (r1, v1) = Inr (r', v')"
      by (fastforce simp: res_simps)
    note A = step [OF s1] and B = Cons.IH [OF s2]
    show ?case using A B by auto
  qed
  from this [OF assms [unfolded iq_flush_all_def]] show ?thesis
    by (auto simp: in_set_conv_nth)
qed

lemma oq_flush_all_new:
  assumes "oq_flush_all q w = (q', w')"
  shows "length (oq_ports q') = length (oq_ports q)
    \<and> (\<forall>p \<in> set (oq_ports q'). op_queue p = None \<and> op_inline p = None \<and> \<not> op_ready p \<and> op_reserve p = 1)"
  using assms
  by (auto simp: oq_flush_all_def oq_resize_def Let_def new_oport_def resize_def case_prod_unfold)

definition cleared :: "actor \<Rightarrow> actor \<Rightarrow> nat set \<Rightarrow> bool" where
  "cleared a b is \<longleftrightarrow> ac_events b = ac_events a \<and> ac_num_outputs b = ac_num_outputs a
     \<and> ac_state b = ac_state a \<and> ac_token_pool b = ac_token_pool a \<and> ac_inq b = ac_inq a
     \<and> ac_outq b = ac_outq a \<and> ac_num_inputs b = ac_num_inputs a
     \<and> (\<forall>i \<in> is. ac_msgs b ! i = [] \<and> ac_tags b ! i = [])"

lemma clear_inputs_cleared:
  "foldE clear_input is a = Inr b \<Longrightarrow> cleared a b (set is)"
proof (induction "is" arbitrary: b rule: rev_induct)
  case Nil
  then show ?case by (simp add: cleared_def)
next
  case (snoc i js)
  obtain c where c: "foldE clear_input js a = Inr c" "clear_input i c = Inr b"
    using snoc.prems by (auto simp: foldE_append res_simps)
  from snoc.IH [OF c(1)] c(2) show ?case
    by (auto simp: cleared_def clear_input_def res_simps nth_list_update)
qed

section \<open>The whole of it\<close>

lemma fold_post_events:
  "ac_events (fold (\<lambda>i. post (e i)) is a) = ac_events a @ map e is"
  by (induction "is" arbitrary: a) (simp_all add: post_def)

lemma fold_post_frame:
  "ac_state (fold (\<lambda>i. post (e i)) is a) = ac_state a \<and> ac_token_pool (fold (\<lambda>i. post (e i)) is a) = ac_token_pool a
   \<and> ac_inq (fold (\<lambda>i. post (e i)) is a) = ac_inq a \<and> ac_outq (fold (\<lambda>i. post (e i)) is a) = ac_outq a
   \<and> ac_msgs (fold (\<lambda>i. post (e i)) is a) = ac_msgs a \<and> ac_tags (fold (\<lambda>i. post (e i)) is a) = ac_tags a
   \<and> ac_num_inputs (fold (\<lambda>i. post (e i)) is a) = ac_num_inputs a"
  by (induction "is" arbitrary: a) (simp_all add: post_def)

lemma mark_done_effect:
  assumes "mark_done a = Inr a'" and "ac_state a \<noteq> BLOCK_STATE_DONE"
  shows "ac_state a' = BLOCK_STATE_DONE \<and> ac_token_pool a' = {}
    \<and> (\<forall>p \<in> set (iq_ports (ac_inq a')). ip_queue p = [] \<and> ip_enqueued p = 0)
    \<and> (\<forall>p \<in> set (oq_ports (ac_outq a')). op_queue p = None \<and> op_inline p = None \<and> \<not> op_ready p)
    \<and> (\<forall>i < ac_num_inputs a. ac_msgs a' ! i = [] \<and> ac_tags a' ! i = [])
    \<and> (\<exists>es. (\<forall>e \<in> set es. buffer_out e)
         \<and> ac_events a' = ac_events a @ Notify_Inactive # es
             @ map (\<lambda>i. Upstream i OutputCheckMessage) [0..<ac_num_inputs a]
             @ map (\<lambda>o'. Downstream o' InputCheckMessage) [0..<ac_num_outputs a])"
proof -
  from assms obtain a2 q w oq w' a4
    where f: "foldE flush_output [0..<ac_num_outputs (inactive a)] (inactive a) = Inr a2"
    and q: "iq_flush_all (ac_inq a2) (ac_world a2) = Inr (q, w)"
    and oq: "oq_flush_all (ac_outq a2) w = (oq, w')"
    and c: "foldE clear_input [0..<ac_num_inputs a2] (a2\<lparr>ac_interruptible := False,
        ac_state := BLOCK_STATE_DONE, ac_token_pool := {}, ac_inq := q, ac_outq := oq, ac_world := w'\<rparr>) = Inr a4"
    and a': "a' = fold (\<lambda>o'. post (Downstream o' InputCheckMessage)) [0..<ac_num_outputs a4]
        (fold (\<lambda>i. post (Upstream i OutputCheckMessage)) [0..<ac_num_inputs a2] a4)"
    by (rule mark_done_stages)
  have i: "ac_events (inactive a) = ac_events a @ [Notify_Inactive]" "ac_num_inputs (inactive a) = ac_num_inputs a"
    "ac_num_outputs (inactive a) = ac_num_outputs a"
    by (simp_all add: inactive_def post_def now_of_def split: prod.splits)
  obtain es where es: "ac_events a2 = ac_events a @ [Notify_Inactive] @ es" "\<forall>e \<in> set es. buffer_out e"
    "ac_num_inputs a2 = ac_num_inputs a" "ac_num_outputs a2 = ac_num_outputs a"
    using flush_outputs_flushed [OF f] i by (auto simp: flushed_def)
  note cl = clear_inputs_cleared [OF c, unfolded cleared_def]
  have n: "ac_num_inputs a4 = ac_num_inputs a" "ac_num_outputs a4 = ac_num_outputs a"
    using cl es by simp_all
  show ?thesis
    using cl es n iq_flush_all_empty [OF q] oq_flush_all_new [OF oq]
    by (simp add: a' fold_post_frame fold_post_events)
qed

section \<open>That it returns\<close>

definition later :: "world \<Rightarrow> world \<Rightarrow> bool" where
  "later w w' \<longleftrightarrow> w_clock w' = w_clock w \<and> w_reads w \<le> w_reads w'"

lemma time_inv_later:
  assumes "time_inv t0 p w" and "later w w'"
  shows "time_inv t0 p w'"
proof -
  have "w_clock w (w_reads w) \<le> w_clock w (w_reads w')"
    using assms by (auto simp: time_inv_def later_def monotone_clock_def)
  then show ?thesis
    using assms monotone_clock_frame [of w' w] by (auto simp: time_inv_def later_def)
qed

lemma oport_inv_later:
  assumes "oport_inv clen t0 p w" and "later w w'"
  shows "oport_inv clen t0 p w'"
proof -
  have "w_clock w (w_reads w) \<le> w_clock w (w_reads w')"
    using assms by (auto simp: oport_inv_def otime_inv_def later_def monotone_clock_def)
  then show ?thesis
    using assms monotone_clock_frame [of w' w] by (auto simp: oport_inv_def otime_inv_def later_def)
qed

lemma drain_times:
  "ip_idle (drain p w) = ip_idle p \<and> ip_became_idle (drain p w) = ip_became_idle p
     \<and> ip_ready (drain p w) = ip_ready p"
proof (induction p w rule: drain.induct)
  case (1 p w)
  then show ?case
    by (subst (1 2 3) drain.simps) (auto simp: pop_front_def release_buffer_def split: option.splits)
qed

lemma iq_update_later: "iq_update t0 p w = Inr (p', w') \<Longrightarrow> later w w'"
  by (auto simp: iq_update_def time_now_def Let_def assertE_def later_def split: if_splits)

lemma iq_flush_total:
  assumes "time_inv t0 p w"
  shows "\<exists>p' w'. iq_flush t0 p w = Inr (p', w') \<and> later w w' \<and> time_inv t0 p' w'"
proof -
  have "time_inv t0 ((drain p w)\<lparr>ip_cap := 1, ip_enqueued := 0\<rparr>) w"
    by (rule time_inv_cong [OF assms]) (simp_all add: drain_times)
  from iq_update_total [OF this] iq_update_later show ?thesis
    by (fastforce simp: iq_flush_def)
qed

definition iq_timely :: "input_queues \<Rightarrow> world \<Rightarrow> bool" where
  "iq_timely q w \<longleftrightarrow> (\<forall>p \<in> set (iq_ports q). time_inv (iq_init_time q) p w)"

lemma foldE_total:
  assumes "\<And>i s. i \<in> set is \<Longrightarrow> P s \<Longrightarrow> \<exists>s'. f i s = Inr s' \<and> P s'" and "P s"
  shows "\<exists>s'. foldE f is s = Inr s' \<and> P s'"
  using assms
proof (induction "is" arbitrary: s)
  case (Cons i js)
  obtain t where t: "f i s = Inr t" "P t" using Cons.prems(1) [of i s] Cons.prems(2) by auto
  have "\<exists>s'. foldE f js t = Inr s' \<and> P s'" by (rule Cons.IH [OF _ t(2)]) (auto intro: Cons.prems(1))
  with t(1) show ?case by auto
qed simp

lemma iq_flush_all_total:
  assumes "iq_timely q w"
  shows "\<exists>r. iq_flush_all q w = Inr r"
proof -
  let ?P = "\<lambda>(r, v). iq_timely r v \<and> length (iq_ports r) = length (iq_ports q)"
  have "\<exists>s'. foldE (\<lambda>i (q, w). on_port i (iq_flush (iq_init_time q)) q w) [0..<length (iq_ports q)] (q, w) = Inr s'
      \<and> ?P s'"
  proof (rule foldE_total)
    fix i s
    assume i: "i \<in> set [0..<length (iq_ports q)]" and P: "?P s"
    obtain r v where s: "s = (r, v)" by fastforce
    have lt: "i < length (iq_ports r)" using i P by (simp add: s)
    then have "time_inv (iq_init_time r) (iq_ports r ! i) v" using P by (auto simp: s iq_timely_def)
    from iq_flush_total [OF this] obtain p' v' where
      f: "iq_flush (iq_init_time r) (iq_ports r ! i) v = Inr (p', v')" and l: "later v v'"
      and t: "time_inv (iq_init_time r) p' v'" by blast
    have "iq_timely (r\<lparr>iq_ports := (iq_ports r)[i := p']\<rparr>) v'"
      using P t time_inv_later [OF _ l] by (auto simp: s iq_timely_def dest!: set_update_subset_insert [THEN subsetD])
    then show "\<exists>s'. (case s of (q, w) \<Rightarrow> on_port i (iq_flush (iq_init_time q)) q w) = Inr s' \<and> ?P s'"
      using f lt P by (simp add: s on_port_def)
  qed (use assms in simp)
  then show ?thesis by (auto simp: iq_flush_all_def)
qed

text \<open>The output ports between two handlers: no inline buffer, and a front buffer without data.\<close>

definition oq_settled :: "nat \<Rightarrow> output_queues \<Rightarrow> world \<Rightarrow> bool" where
  "oq_settled clen q w \<longleftrightarrow>
     (\<forall>p \<in> set (oq_ports q). op_inline p = None \<and> oport_inv clen (oq_init_time q) p w)"

lemma flush_output_settled:
  assumes "oq_settled clen (ac_outq a) (ac_world a)" and "i < length (oq_ports (ac_outq a))"
  shows "\<exists>p. flush_output i a = Inr (set_oport i p a)
    \<and> oq_settled clen (ac_outq (set_oport i p a)) (ac_world a)"
proof -
  let ?p = "oq_ports (ac_outq a) ! i"
  have inv: "op_inline ?p = None" "oport_inv clen (oq_init_time (ac_outq a)) ?p (ac_world a)"
    using assms by (auto simp: oq_settled_def)
  show ?thesis
  proof (cases "op_ready ?p")
    case False
    moreover have "set_oport i ?p a = a" by (simp add: set_oport_def)
    ultimately have "flush_output i a = Inr (set_oport i ?p a)"
      using assms(2) by (simp add: flush_output_def out_port_def)
    with assms show ?thesis by (intro exI [of _ ?p]) (simp add: set_oport_def)
  next
    case True
    then obtain q where q: "op_queue ?p = Some q" "bufq.front_room q (op_reserve ?p)"
      using inv by (auto simp: oport_inv_def backed_def)
    then have qi: "bq_inv clen q" "\<not> bq_empty q" using inv by (auto simp: oport_inv_def queue_inv_def bufq.front_room_def)
    obtain b q' where f: "bq_front q = Inr (b, q')" "bq_inv clen q'" "sb_length b = 0"
      using bufq.front_law [OF qi] by blast
    let ?p' = "?p\<lparr>op_queue := Some q'\<rparr>"
    have "oport_inv clen (oq_init_time (ac_outq a)) ?p' (ac_world a)"
      using inv q f bufq.front_room_again [OF qi(1) f(1)]
      by (auto simp: oport_inv_def queue_inv_def backed_def otime_inv_def)
    then have "oq_settled clen (ac_outq (set_oport i ?p' a)) (ac_world a)"
      using assms inv by (auto simp: oq_settled_def set_oport_def dest!: set_update_subset_insert [THEN subsetD])
    moreover have "flush_output i a = Inr (set_oport i ?p' a)"
      using assms(2) True inv(1) q(1) qi(2) f
      by (simp add: flush_output_def out_port_def out_front_def oq_front_def oq_empty_def)
    ultimately show ?thesis by blast
  qed
qed

lemma mark_done_total:
  assumes "sized a" and "iq_timely (ac_inq a) (ac_world a)" and "oq_settled clen (ac_outq a) (ac_world a)"
  shows "\<exists>a'. mark_done a = Inr a'"
proof (cases "ac_state a = BLOCK_STATE_DONE")
  case True
  then show ?thesis by (simp add: mark_done_def)
next
  case False
  let ?P = "\<lambda>b. sized b \<and> iq_timely (ac_inq b) (ac_world b) \<and> oq_settled clen (ac_outq b) (ac_world b)
    \<and> ac_num_outputs b = ac_num_outputs a \<and> ac_num_inputs b = ac_num_inputs a"
  let ?a = "inactive a"
  have l: "later (ac_world a) (ac_world ?a)"
    by (simp add: inactive_def now_of_def time_now_def post_def later_def)
  have ot: "oq_settled clen (ac_outq a) (ac_world ?a)"
    using assms(3) oport_inv_later [OF _ l] by (auto simp: oq_settled_def)
  have "?P ?a"
    using assms(1,2) ot time_inv_later [OF _ l]
    by (auto simp: inactive_def now_of_def time_now_def post_def iq_timely_def)
  then have "\<exists>b. foldE flush_output [0..<ac_num_outputs ?a] ?a = Inr b \<and> ?P b"
  proof (rule foldE_total [rotated])
    fix i b
    assume "i \<in> set [0..<ac_num_outputs ?a]" and P: "?P b"
    then have "i < length (oq_ports (ac_outq b))"
      by (auto simp: sized_def Let_def inactive_def post_def now_of_def split: prod.splits)
    from flush_output_settled [OF _ this] P obtain p where "flush_output i b = Inr (set_oport i p b)"
      "oq_settled clen (ac_outq (set_oport i p b)) (ac_world b)" by blast
    then show "\<exists>s'. flush_output i b = Inr s' \<and> ?P s'"
      using P by (auto simp: set_oport_def)
  qed
  then obtain b where b: "foldE flush_output [0..<ac_num_outputs ?a] ?a = Inr b" and P: "?P b" by blast
  obtain q w where q: "iq_flush_all (ac_inq b) (ac_world b) = Inr (q, w)"
    using iq_flush_all_total P by fastforce
  obtain oq w' where oq: "oq_flush_all (ac_outq b) w = (oq, w')" by fastforce
  let ?c = "b\<lparr>ac_interruptible := False, ac_state := BLOCK_STATE_DONE, ac_token_pool := {},
      ac_inq := q, ac_outq := oq, ac_world := w'\<rparr>"
  have "sized ?c" using P iq_flush_all_length [OF q] oq_flush_all_length [OF oq] by simp
  then have "\<exists>d. foldE clear_input [0..<ac_num_inputs b] ?c = Inr d \<and> (sized d \<and> ac_num_inputs d = ac_num_inputs b)"
  proof (intro foldE_total)
    fix i d
    assume "i \<in> set [0..<ac_num_inputs b]" and "sized d \<and> ac_num_inputs d = ac_num_inputs b"
    then show "\<exists>s'. clear_input i d = Inr s' \<and> (sized s' \<and> ac_num_inputs s' = ac_num_inputs b)"
      by (simp add: clear_input_def at_def sized_def Let_def)
  qed simp
  then obtain d where d: "foldE clear_input [0..<ac_num_inputs b] ?c = Inr d" by blast
  have "foldE flush_output [0..<ac_num_outputs a] ?a = Inr b"
    using b by (simp add: inactive_def now_of_def post_def split: prod.splits)
  then show ?thesis
    using False q oq d by (simp add: mark_done_def inactive_def now_of_def post_def Let_def case_prod_unfold)
qed

end
