(* ===== verification/Block_Work.thy ===== *)
theory Block_Work
  imports Block_Trace Input_Stream
begin

text \<open>
  The data path around a work call in lib/task_main.cpp: which tags are passed on and which are
  kept, which messages a block has read, and what a port loses to the items that were consumed.
\<close>

section \<open>Tags\<close>

text \<open>A tag on its way from input \<open>i\<close> to output \<open>o'\<close>: the offset relative to what was consumed
  before the work call, moved to what was produced before it.\<close>

definition moved :: "nat \<Rightarrow> nat \<Rightarrow> actor \<Rightarrow> tag \<Rightarrow> event" where
  "moved i o' a t = Downstream o' (InputTagMessage
     (t\<lparr>tg_offset := sz_add (sz_sub (tg_offset t) (ac_total_consumed a ! i)) (ac_total_produced a ! o')\<rparr>))"

definition tag_frame :: "actor \<Rightarrow> actor \<Rightarrow> bool" where
  "tag_frame a b \<longleftrightarrow> ac_tags b = ac_tags a \<and> ac_total_consumed b = ac_total_consumed a
     \<and> ac_total_produced b = ac_total_produced a \<and> st_items_consumed b = st_items_consumed a
     \<and> ac_num_outputs b = ac_num_outputs a \<and> ac_num_inputs b = ac_num_inputs a \<and> ac_inq b = ac_inq a
     \<and> ac_world b = ac_world a \<and> ac_items_read b = ac_items_read a \<and> ac_msgs b = ac_msgs a
     \<and> ac_msgs_read b = ac_msgs_read a \<and> ac_outq b = ac_outq a \<and> st_tags_consumed b = st_tags_consumed a"

lemma tag_frame_moved: "tag_frame a b \<Longrightarrow> moved i o' b = moved i o' a"
  by (simp add: tag_frame_def moved_def fun_eq_iff)

lemma propagate_step:
  assumes "bindE (get_consumed i a) (\<lambda>c. bindE (get_produced o' a) (\<lambda>p.
      post_output_tag o' (t\<lparr>tg_offset := sz_add (sz_sub (tg_offset t) c) p\<rparr>) a)) = Inr b"
  shows "tag_frame a b \<and> ac_events b = ac_events a @ [moved i o' a t]"
  using assms
  by (auto simp: res_simps get_consumed_def get_produced_def post_output_tag_def post_def moved_def tag_frame_def)

lemma propagate_one:
  assumes "foldE (\<lambda>t a. bindE (get_consumed i a) (\<lambda>c. bindE (get_produced o' a) (\<lambda>p.
      post_output_tag o' (t\<lparr>tg_offset := sz_add (sz_sub (tg_offset t) c) p\<rparr>) a))) ts a = Inr a'"
  shows "tag_frame a a' \<and> ac_events a' = ac_events a @ map (moved i o' a) ts"
  using assms
proof (induction ts arbitrary: a)
  case Nil
  then show ?case by (simp add: tag_frame_def)
next
  case (Cons t ts)
  from Cons.prems obtain b where s: "bindE (get_consumed i a) (\<lambda>c. bindE (get_produced o' a) (\<lambda>p.
      post_output_tag o' (t\<lparr>tg_offset := sz_add (sz_sub (tg_offset t) c) p\<rparr>) a)) = Inr b"
    and r: "foldE (\<lambda>t a. bindE (get_consumed i a) (\<lambda>c. bindE (get_produced o' a) (\<lambda>p.
      post_output_tag o' (t\<lparr>tg_offset := sz_add (sz_sub (tg_offset t) c) p\<rparr>) a))) ts b = Inr a'"
    by (subst (asm) foldE.simps) (subst (asm) bindE_eq_Inr, blast)
  note b = propagate_step [OF s] and rest = Cons.IH [OF r]
  have "moved i o' b = moved i o' a" using tag_frame_moved b by blast
  with b rest show ?case by (simp add: tag_frame_def)
qed

lemma propagate_tags_effect:
  assumes "propagate_tags i ts a = Inr a'"
  shows "tag_frame a a'
    \<and> ac_events a' = ac_events a @ concat (map (\<lambda>o'. map (moved i o' a) ts) [0..<ac_num_outputs a])"
proof -
  have "tag_frame a a' \<and> ac_events a' = ac_events a @ concat (map (\<lambda>o'. map (moved i o' a) ts) os)"
    if "foldE (\<lambda>o' a. foldE (\<lambda>t a. bindE (get_consumed i a) (\<lambda>c. bindE (get_produced o' a) (\<lambda>p.
      post_output_tag o' (t\<lparr>tg_offset := sz_add (sz_sub (tg_offset t) c) p\<rparr>) a))) ts a) os a = Inr a'" for os
    using that
  proof (induction os arbitrary: a)
    case Nil
    then show ?case by (simp add: tag_frame_def)
  next
    case (Cons o' os)
    from Cons.prems obtain b where b: "foldE (\<lambda>t a. bindE (get_consumed i a) (\<lambda>c. bindE (get_produced o' a) (\<lambda>p.
      post_output_tag o' (t\<lparr>tg_offset := sz_add (sz_sub (tg_offset t) c) p\<rparr>) a))) ts a = Inr b"
      and r: "foldE (\<lambda>o' a. foldE (\<lambda>t a. bindE (get_consumed i a) (\<lambda>c. bindE (get_produced o' a) (\<lambda>p.
      post_output_tag o' (t\<lparr>tg_offset := sz_add (sz_sub (tg_offset t) c) p\<rparr>) a))) ts a) os b = Inr a'"
      by (auto simp: res_simps)
    note one = propagate_one [OF b] and rest = Cons.IH [OF r]
    have "moved i x b = moved i x a" for x using tag_frame_moved one by blast
    with one rest show ?case by (simp add: tag_frame_def)
  qed
  from this [OF assms [unfolded propagate_tags_def]] show ?thesis .
qed

lemma takeWhile_sorted:
  "sorted (map f xs) \<Longrightarrow> takeWhile (\<lambda>x. f x < (c :: nat)) xs = filter (\<lambda>x. f x < c) xs"
  by (induction xs) (auto simp: not_less intro!: filter_False [symmetric])

lemma drop_sorted:
  "sorted (map f xs) \<Longrightarrow>
     drop (length (takeWhile (\<lambda>x. f x < (c :: nat)) xs)) xs = filter (\<lambda>x. c \<le> f x) xs"
  by (induction xs) (auto simp: not_less intro!: filter_True [symmetric])

text \<open>With sorted tags the early end of the loop is no restriction: the tags below the count of
  consumed items go out, the others stay.\<close>

lemma trim_tags_effect:
  assumes "trim_tags i a = Inr a'" and "sorted (map tg_offset (ac_tags a ! i))"
  defines "c \<equiv> st_items_consumed a ! i"
  shows "ac_tags a' ! i = filter (\<lambda>t. c \<le> tg_offset t) (ac_tags a ! i)
    \<and> ac_events a' = ac_events a @ concat (map (\<lambda>o'. map (moved i o' a) (filter (\<lambda>t. tg_offset t < c) (ac_tags a ! i)))
        [0..<ac_num_outputs a])
    \<and> ac_inq a' = ac_inq a \<and> ac_world a' = ac_world a \<and> ac_items_read a' = ac_items_read a
    \<and> ac_total_consumed a' = ac_total_consumed a"
proof -
  let ?ts = "ac_tags a ! i"
  let ?n = "length (takeWhile (\<lambda>t. tg_offset t < c) ?ts)"
  have i: "i < length (ac_tags a)" using assms(1) by (simp add: trim_tags_def res_simps)
  have tk: "take ?n ?ts = filter (\<lambda>t. tg_offset t < c) ?ts"
    using takeWhile_sorted [OF assms(2), of c] by (metis takeWhile_eq_take)
  note dr = drop_sorted [OF assms(2), of c]
  show ?thesis
  proof (cases "?n = 0")
    case True
    then have "a' = a" using assms(1) by (simp add: trim_tags_def res_simps Let_def c_def)
    then show ?thesis using True tk dr by simp
  next
    case False
    then obtain b where b: "propagate_tags i (take ?n ?ts) a = Inr b"
      "a' = b\<lparr>ac_tags := (ac_tags b)[i := drop ?n (ac_tags b ! i)],
             st_tags_consumed := bump i ?n (st_tags_consumed b)\<rparr>"
      using assms(1) by (auto simp: trim_tags_def res_simps Let_def c_def)
    show ?thesis
      using propagate_tags_effect [OF b(1)] i dr by (simp add: b(2) tag_frame_def tk)
  qed
qed

lemma sort_tags_effect:
  assumes "sort_tags en i a = Inr b" and "sorts en"
    and "ac_tags_changed a ! i \<or> sorted (map tg_offset (ac_tags a ! i))"
  shows "mset (ac_tags b ! i) = mset (ac_tags a ! i) \<and> sorted (map tg_offset (ac_tags b ! i))
    \<and> st_items_consumed b = st_items_consumed a \<and> ac_events b = ac_events a
    \<and> ac_num_outputs b = ac_num_outputs a"
  using assms by (auto simp: sort_tags_def res_simps sorts_def split: if_splits)

section \<open>Messages\<close>

text \<open>Calling \<open>pop_input_msg\<close> \<open>n\<close> times, with the results.\<close>

fun pop_msgs :: "nat \<Rightarrow> nat \<Rightarrow> actor \<Rightarrow> exn + pmc list \<times> actor" where
  "pop_msgs i 0 a = Inr ([], a)"
| "pop_msgs i (Suc n) a =
     bindE (pop_input_msg i a) (\<lambda>(m, a). bindE (pop_msgs i n a) (\<lambda>(ms, a). Inr (m # ms, a)))"

lemma pop_msgs_effect:
  assumes "i < length (ac_msgs a)" and "i < length (ac_msgs_read a)" and "i < length (st_msgs_consumed a)"
    and "ac_msgs_read a ! i \<le> length (ac_msgs a ! i)"
  shows "\<exists>b. pop_msgs i n a = Inr (take n (drop (ac_msgs_read a ! i) (ac_msgs a ! i))
        @ replicate (n - (length (ac_msgs a ! i) - ac_msgs_read a ! i)) 0, b)
    \<and> ac_msgs b = ac_msgs a \<and> length (ac_msgs_read b) = length (ac_msgs_read a)
    \<and> ac_msgs_read b ! i = min (length (ac_msgs a ! i)) (ac_msgs_read a ! i + n)"
  using assms
proof (induction n arbitrary: a)
  case 0
  then show ?case by simp
next
  case (Suc n)
  let ?r = "ac_msgs_read a ! i" and ?ms = "ac_msgs a ! i"
  show ?case
  proof (cases "length ?ms \<le> ?r")
    case True
    then have "pop_input_msg i a = Inr (0, a)" using Suc.prems by (simp add: pop_input_msg_def at_def)
    with Suc.IH [OF Suc.prems] True Suc.prems(4) show ?thesis by auto
  next
    case False
    define a1 where "a1 = a\<lparr>ac_msgs_read := (ac_msgs_read a)[i := Suc ?r],
        st_msgs_consumed := bump i 1 (st_msgs_consumed a)\<rparr>"
    have p: "pop_input_msg i a = Inr (?ms ! ?r, a1)"
      using Suc.prems False by (simp add: pop_input_msg_def at_def a1_def)
    have a1: "ac_msgs a1 = ac_msgs a" "ac_msgs_read a1 ! i = Suc ?r"
      "length (ac_msgs_read a1) = length (ac_msgs_read a)" "length (st_msgs_consumed a1) = length (st_msgs_consumed a)"
      using Suc.prems by (simp_all add: a1_def bump_def)
    obtain b where "pop_msgs i n a1 = Inr (take n (drop (Suc ?r) ?ms)
        @ replicate (n - (length ?ms - Suc ?r)) 0, b)"
      "ac_msgs b = ac_msgs a" "length (ac_msgs_read b) = length (ac_msgs_read a)"
      "ac_msgs_read b ! i = min (length ?ms) (Suc ?r + n)"
      using Suc.IH [of a1] Suc.prems False a1 by auto
    moreover have "?ms ! ?r # take n (drop (Suc ?r) ?ms) = take (Suc n) (drop ?r ?ms)"
      using False by (metis Cons_nth_drop_Suc not_le take_Suc_Cons)
    moreover have "n - (length ?ms - Suc ?r) = Suc n - (length ?ms - ?r)" using False by simp
    ultimately show ?thesis using p by auto
  qed
qed

section \<open>Consumed items\<close>

lemma trim_msgs_frame:
  "trim_msgs i a = Inr b \<Longrightarrow> ac_inq b = ac_inq a \<and> ac_world b = ac_world a
    \<and> ac_items_read b = ac_items_read a \<and> ac_total_consumed b = ac_total_consumed a
    \<and> ac_tags b = ac_tags a \<and> st_items_consumed b = st_items_consumed a"
  by (auto simp: trim_msgs_def res_simps split: if_splits)

lemma trim_tags_frame:
  assumes "trim_tags i a = Inr b"
  shows "ac_inq b = ac_inq a \<and> ac_world b = ac_world a
    \<and> ac_items_read b = ac_items_read a \<and> ac_total_consumed b = ac_total_consumed a"
proof (cases "b = a")
  case False
  then show ?thesis
    using assms by (auto simp: trim_tags_def res_simps Let_def tag_frame_def dest!: propagate_tags_effect
        split: if_splits)
qed simp

lemma post_input_consumes:
  assumes "post_input i a = Inr a'" and "port_inv (iq_ports (ac_inq a) ! i)"
    and "linked (ip_queue (iq_ports (ac_inq a) ! i))"
  shows "i < length (iq_ports (ac_inq a'))
    \<and> stream (w_mem (ac_world a')) (iq_ports (ac_inq a') ! i)
      = drop (sz_mul (ac_items_read a ! i) (ip_item_size (iq_ports (ac_inq a) ! i)))
          (stream (w_mem (ac_world a)) (iq_ports (ac_inq a) ! i))
    \<and> port_inv (iq_ports (ac_inq a') ! i) \<and> linked (ip_queue (iq_ports (ac_inq a') ! i))
    \<and> ac_total_consumed a' ! i = sz_add (ac_total_consumed a ! i) (ac_items_read a ! i)"
proof -
  obtain b c d e where b: "trim_msgs i a = Inr b" and c: "trim_tags i b = Inr c"
    and d: "trim_buffs i c = Inr d" and e: "update_input_avail i d = Inr e"
    and t: "i < length (ac_total_consumed e)" "i < length (ac_items_read e)"
    and a': "a' = e\<lparr>ac_total_consumed := bump i (ac_items_read e ! i) (ac_total_consumed e)\<rparr>"
    using assms(1) by (auto simp: post_input_def res_simps)
  have f: "ac_inq c = ac_inq a" "ac_world c = ac_world a" "ac_items_read c = ac_items_read a"
    "ac_total_consumed c = ac_total_consumed a"
    using trim_msgs_frame [OF b] trim_tags_frame [OF c] by auto
  let ?p = "iq_ports (ac_inq a) ! i"
  have dd: "i < length (iq_ports (ac_inq d)) \<longrightarrow>
      stream (w_mem (ac_world d)) (iq_ports (ac_inq d) ! i)
        = drop (sz_mul (ac_items_read a ! i) (ip_item_size ?p)) (stream (w_mem (ac_world a)) ?p)
      \<and> port_inv (iq_ports (ac_inq d) ! i) \<and> linked (ip_queue (iq_ports (ac_inq d) ! i))
      \<and> ac_items_read d = ac_items_read a \<and> ac_total_consumed d = ac_total_consumed a"
  proof (cases "ac_items_read a ! i = 0")
    case True
    then have "d = c" using d f by (simp add: trim_buffs_def res_simps)
    then show ?thesis using f assms(2,3) True by (simp add: sz_mul_def)
  next
    case False
    then obtain p' w' where k: "iq_consume (iq_init_time (ac_inq a)) (ac_items_read a ! i) ?p (ac_world a) = Inr (p', w')"
      and dq: "d = c\<lparr>ac_inq := (ac_inq a)\<lparr>iq_ports := (iq_ports (ac_inq a))[i := p']\<rparr>, ac_world := w'\<rparr>"
      using d f by (auto simp: trim_buffs_def in_op_def on_port_def res_simps split: if_splits)
    note eff = iq_consume_effect [OF k assms(2,3)]
    show ?thesis
    proof (intro impI conjI)
      assume "i < length (iq_ports (ac_inq d))"
      then have p: "iq_ports (ac_inq d) ! i = p'" and w: "ac_world d = w'" by (simp_all add: dq)
      show "stream (w_mem (ac_world d)) (iq_ports (ac_inq d) ! i)
          = drop (sz_mul (ac_items_read a ! i) (ip_item_size ?p)) (stream (w_mem (ac_world a)) ?p)"
        unfolding p w using eff by blast
      show "port_inv (iq_ports (ac_inq d) ! i)" unfolding p using eff by blast
      show "linked (ip_queue (iq_ports (ac_inq d) ! i))" unfolding p using eff by blast
    qed (simp_all add: dq f)
  qed
  obtain p' w' where u: "iq_update_has_msg (iq_init_time (ac_inq d)) (ac_msgs d ! i \<noteq> [])
        (iq_ports (ac_inq d) ! i) (ac_world d) = Inr (p', w')"
    and i: "i < length (iq_ports (ac_inq d))"
    and eq: "ac_inq e = (ac_inq d)\<lparr>iq_ports := (iq_ports (ac_inq d))[i := p']\<rparr>" "ac_world e = w'"
      "ac_items_read e = ac_items_read d" "ac_total_consumed e = ac_total_consumed d"
    using e by (auto simp: update_input_avail_def in_op_def on_port_def res_simps Let_def split: if_splits)
  have "ip_queue p' = ip_queue (iq_ports (ac_inq d) ! i) \<and> ip_enqueued p' = ip_enqueued (iq_ports (ac_inq d) ! i)
      \<and> ip_cap p' = ip_cap (iq_ports (ac_inq d) ! i) \<and> w_mem w' = w_mem (ac_world d)"
    using u iq_update_frame by (auto simp: iq_update_has_msg_def split: if_splits)
  with dd i t show ?thesis
    by (simp add: a' eq bump_def stream_def port_inv_def)
qed

end

