(* ===== verification/Block_Props.thy ===== *)
theory Block_Props
  imports Block_Done Block_Work Output_Props Input_Props
begin

text \<open>
  The properties of a block actor: its life cycle over any run, what \<open>mark_done\<close> releases and
  announces, and which blocks it stops on.
\<close>

section \<open>A concrete actor\<close>

text \<open>An environment whose blocks do nothing, and a live actor with one input port \<open>p\<close> of 2-byte
  items and one output port \<open>q\<close>.\<close>

definition sample_env :: env where
  "sample_env =
     \<lparr>en_sort = sort_key tg_offset, en_unique = (\<lambda>t. t \<noteq> 5), en_expired = (\<lambda>t. t = 6), en_work = (\<lambda>_. []),
      en_out_alloc = output_buffer_allocator (\<lambda>_ _. 0), en_in_alloc = input_buffer_allocator,
      en_call = (\<lambda>k v. Inr v), en_queued = 0, en_system_time = 0\<rparr>"

definition sample_actor :: "iport \<Rightarrow> oport \<Rightarrow> actor" where
  "sample_actor p q = (new_actor ''block'' 0 1 sample_world)
     \<lparr>ac_num_inputs := 1, ac_num_outputs := 1, ac_state := BLOCK_STATE_LIVE,
      ac_in_cfg := [default_input_config\<lparr>ic_item_size := 2\<rparr>], ac_out_cfg := [default_output_config],
      ac_in_items := [(0, 0)], ac_out_items := [(0, 0)],
      ac_in_tokens := [Some 3], ac_out_tokens := [Some 4], ac_in_done := [False], ac_out_done := [False],
      ac_token_pool := {5}, ac_inq := \<lparr>iq_ports = [p], iq_init_time = 0\<rparr>,
      ac_outq := \<lparr>oq_ports = [q], oq_init_time = 0\<rparr>, ac_avail := [True], ac_tags_changed := [False],
      ac_tags := [[\<lparr>tg_offset = 1, tg_object = 8\<rparr>, \<lparr>tg_offset = 4, tg_object = 9\<rparr>]],
      ac_msgs_read := [0], ac_items_read := [0], ac_out_read := [0],
      ac_total_consumed := [0], ac_total_produced := [0], ac_msgs := [[21, 22, 23]], ac_hints := [[]],
      st_items_consumed := [0], st_tags_consumed := [0], st_msgs_consumed := [0],
      st_items_produced := [0], st_tags_produced := [0], st_msgs_produced := [0]\<rparr>"

lemma sample_sized: "sized (sample_actor p q)"
  by (simp add: sized_def sample_actor_def)

lemma new_actor_legal: "legal (new_actor name now prio w)"
  by (simp add: legal_def sized_def new_actor_def)

section \<open>The life cycle\<close>

text \<open>C2 Over every run of a block's actor, with whatever messages in whatever order and whatever
  its work function calls: \<open>notify_active\<close> is only called on a block that is not live, \<open>work\<close> only
  on a live one, \<open>notify_inactive\<close> only on one that is not done, and the actor's state is the one
  that these calls lead to.\<close>

theorem block_life_cycle:
  assumes "actor_reach (new_actor name now prio w) a"
  shows "life_run BLOCK_STATE_INIT (ac_events a) = Some (ac_state a)"
  using actor_reach_legal [OF assms new_actor_legal] by (simp add: legal_def)

lemma block_life_cycle_witness:
  "actor_reach (new_actor [] 0 1 sample_world) (handle_top_active (new_actor [] 0 1 sample_world))
   \<and> life_run BLOCK_STATE_INIT (ac_events (handle_top_active (new_actor [] 0 1 sample_world)))
     = Some BLOCK_STATE_LIVE"
proof -
  let ?a = "new_actor [] 0 1 sample_world"
  have r: "actor_reach ?a (handle_top_active ?a)"
    by (rule actor_reach.message [OF actor_reach.init, where m = TopActive and en = sample_env]) simp
  have "ac_state (handle_top_active ?a) = BLOCK_STATE_LIVE"
    by (simp add: handle_top_active_def post_def Let_def split: prod.splits)
  with r block_life_cycle [OF r] show ?thesis by simp
qed



lemma inert_message:
  assumes "handle_message en m a = Inr a'" and "ac_state a = BLOCK_STATE_DONE" and "m \<noteq> TopActive"
  shows "ac_state a' = BLOCK_STATE_DONE \<and> (\<exists>es. ac_events a' = ac_events a @ es \<and> list_all neutral es)"
proof (cases "calm m \<or> (\<exists>ni no. m = Topology ni no)")
  case True
  then consider "calm m" | ni no where "m = Topology ni no" by blast
  then show ?thesis
  proof cases
    case 1
    then have "quiet a a'" using assms(1) by (rule calm_quiet) simp
    then show ?thesis using assms(2) by (auto simp: quiet_def list_all_iff)
  next
    case 2
    let ?b = "resize_to_topology ni no (post (Notify_Topology ni no) (a\<lparr>ac_num_inputs := ni, ac_num_outputs := no\<rparr>))"
    have b: "ac_state ?b = BLOCK_STATE_DONE" "ac_events ?b = ac_events a @ [Notify_Topology ni no]"
      using assms(2) by (simp_all add: resize_to_topology_def post_def Let_def case_prod_unfold)
    then obtain c d where c: "foldE handle_input_update [0..<ni] ?b = Inr c"
      and d: "foldE handle_output_update [0..<no] c = Inr d" and a': "a' = post Ack d"
      using assms(1) by (auto simp: 2 handle_topology_def Let_def res_simps mark_done_def)
    have "quiet ?b c" using c by (rule foldE_quiet) (auto elim!: quiet)
    with d have "quiet ?b d" by (rule foldE_quiet) (auto elim!: quiet)
    then have "quiet ?b a'" unfolding a' by auto
    then show ?thesis using b by (auto simp: quiet_def list_all_iff)
  qed
next
  case False
  then consider t where "m = TopToken t" | i t where "m = To_Input i (InputTokenMessage t)"
    | i t where "m = To_Output i (OutputTokenMessage t)"
    | "\<not> calm m" "\<forall>ni no. m \<noteq> Topology ni no" "\<forall>t. m \<noteq> TopToken t"
        "\<forall>i t. m \<noteq> To_Input i (InputTokenMessage t)" "\<forall>i t. m \<noteq> To_Output i (OutputTokenMessage t)"
    by blast
  then show ?thesis
  proof cases
    case 1
    then show ?thesis
      using assms(1,2) by (auto elim!: handle_top_token_quiet simp: quiet_def post_def list_all_iff)
  next
    case 2
    then show ?thesis using assms(1,2) by (auto simp: handle_input_token_def res_simps)
  next
    case 3
    then show ?thesis using assms(1,2) by (auto simp: handle_output_token_def res_simps)
  next
    case 4
    then have "quiet a a'"
      using assms
      by (cases "(en, m, a)" rule: handle_message.cases)
        (auto simp: handle_self_kick_def handle_input_msg_def handle_input_buffer_def handle_output_buffer_def
          handle_input_check_def handle_output_check_def handle_top_inert_def task_main_def work_allowed_def
          mark_done_def res_simps Let_def split: if_splits)
    then show ?thesis using assms(2) by (auto simp: quiet_def list_all_iff)
  qed
qed

text \<open>C16 A block that is done stays done, and none of \<open>notify_active\<close>, \<open>notify_inactive\<close> and \<open>work\<close>
  is called again, for any further messages except a new activation by the top block.\<close>

theorem done_is_final:
  assumes "foldE (\<lambda>(en, m). handle_message en m) ms a = Inr a'" and "ac_state a = BLOCK_STATE_DONE"
    and "TopActive \<notin> snd ` set ms"
  shows "ac_state a' = BLOCK_STATE_DONE \<and> (\<exists>es. ac_events a' = ac_events a @ es \<and> list_all neutral es)"
  using assms
proof (induction ms arbitrary: a)
  case Nil
  then show ?case by simp
next
  case (Cons x ms)
  obtain en m where x: "x = (en, m)" by fastforce
  obtain b where b: "handle_message en m a = Inr b" and r: "foldE (\<lambda>(en, m). handle_message en m) ms b = Inr a'"
    using Cons.prems(1) by (auto simp: x res_simps)
  have m: "m \<noteq> TopActive" "TopActive \<notin> snd ` set ms" using Cons.prems(3) by (auto simp: x)
  note one = inert_message [OF b Cons.prems(2) m(1)]
  with Cons.IH [OF r _ m(2)] show ?case by fastforce
qed

lemma done_is_final_witness:
  "\<exists>a'. foldE (\<lambda>(en, m). handle_message en m)
       [(sample_env, SelfKick), (sample_env, To_Input 0 (InputBufferMessage (sample_buff 11 1004 0 4 1004)))]
       ((new_actor [] 0 1 sample_world)\<lparr>ac_state := BLOCK_STATE_DONE\<rparr>) = Inr a'
     \<and> ac_state a' = BLOCK_STATE_DONE"
proof -
  let ?ms = "[(sample_env, SelfKick), (sample_env, To_Input 0 (InputBufferMessage (sample_buff 11 1004 0 4 1004)))]"
  let ?a = "(new_actor [] 0 1 sample_world)\<lparr>ac_state := BLOCK_STATE_DONE\<rparr>"
  have r: "foldE (\<lambda>(en, m). handle_message en m) ?ms ?a = Inr ?a"
    by (simp add: handle_self_kick_def task_main_def work_allowed_def handle_input_buffer_def)
  have "ac_state ?a = BLOCK_STATE_DONE" "TopActive \<notin> snd ` set ?ms" by auto
  from done_is_final [OF r this] r show ?thesis by blast
qed

section \<open>Done\<close>

lemma sample_settled:
  "iq_timely (ac_inq (sample_actor (sample_port 2 ps) (sample_oport 0 8 True))) sample_world"
  "oq_settled clen (ac_outq (sample_actor p (sample_oport 0 8 True))) sample_world"
  using sample_time_inv [of 2 ps] sample_oport_inv [of clen]
  by (simp_all add: iq_timely_def oq_settled_def sample_actor_def) (simp add: sample_oport_def)

lemma sample_actor_frame [simp]:
  "ac_world (sample_actor p q) = sample_world" "ac_state (sample_actor p q) = BLOCK_STATE_LIVE"
  "ac_num_inputs (sample_actor p q) = 1" "ac_num_outputs (sample_actor p q) = 1"
  "ac_events (sample_actor p q) = []"
  by (simp_all add: sample_actor_def new_actor_def)



text \<open>When it is called on a block that is not done, \<open>mark_done\<close> calls \<open>notify_inactive\<close> once, then
  sends the unsent output buffers, and then tells every upstream block once and every downstream
  block once to check its tokens, in the order of the ports.\<close>

theorem mark_done_notifies:
  assumes "mark_done a = Inr a'" and "ac_state a \<noteq> BLOCK_STATE_DONE"
  shows "\<exists>es. (\<forall>e \<in> set es. \<exists>o' b. e = Downstream o' (InputBufferMessage b) \<and> sb_length b \<noteq> 0)
    \<and> ac_events a' = ac_events a @ Notify_Inactive # es
        @ map (\<lambda>i. Upstream i OutputCheckMessage) [0..<ac_num_inputs a]
        @ map (\<lambda>o'. Downstream o' InputCheckMessage) [0..<ac_num_outputs a]"
  using mark_done_effect [OF assms] by (auto simp: buffer_out_def)

lemma mark_done_notifies_witness:
  "\<exists>a' es. mark_done (sample_actor (sample_port 2 []) (sample_oport 0 8 True)) = Inr a'
     \<and> ac_events a' = Notify_Inactive # es @ [Upstream 0 OutputCheckMessage, Downstream 0 InputCheckMessage]"
proof -
  let ?a = "sample_actor (sample_port 2 []) (sample_oport 0 8 True)"
  obtain a' where a': "mark_done ?a = Inr a'"
    using mark_done_total [OF sample_sized, where clen = 0] sample_settled by fastforce
  from mark_done_notifies [OF this] a' show ?thesis by auto
qed

text \<open>C40 The loop that sends unsent output first is no good for a block with a circular output queue:
  when such a block has produced into its output buffer and then calls \<open>mark_done\<close>, the queue's
  \<open>pop\<close> asserts that the buffer is empty and the exception leaves \<open>mark_done\<close> with the block not
  yet done.\<close>

theorem mark_done_circ_asserts:
  assumes "ac_state a \<noteq> BLOCK_STATE_DONE" and "0 < ac_num_outputs a" and "oq_ports (ac_outq a) = p # ps"
    and "op_ready p" and "op_inline p = None" and "op_queue p = Some (CircQ q)"
    and "circ_front q = Inr (b, q')" and "sb_length b \<noteq> 0"
  shows "mark_done a = Inl (Assert_Fail ''front.length == 0'')"
proof -
  have q: "cq_available q' = b # tl (cq_available q)" "\<not> circ_empty q" "\<not> circ_empty q'"
    using assms(7) by (auto simp: circ_front_def res_simps Let_def circ_empty_def)
  have "flush_output 0 (inactive a) = Inl (Assert_Fail ''front.length == 0'')"
    using assms q
    by (simp add: flush_output_def out_port_def out_front_def oq_front_def oq_empty_def out_op_def on_oport_def
        oq_pop_def set_oport_def circ_pop_def inactive_def now_of_def post_def Let_def split: prod.splits)
  moreover have "[0..<ac_num_outputs (inactive a)] = 0 # [1..<ac_num_outputs a]"
    using assms(2) by (simp add: inactive_def now_of_def post_def upt_conv_Cons split: prod.splits)
  ultimately have "foldE flush_output [0..<ac_num_outputs (inactive a)] (inactive a)
      = Inl (Assert_Fail ''front.length == 0'')" by simp
  then show ?thesis
    using assms(1) by (simp add: mark_done_def inactive_def Let_def case_prod_unfold)
qed

definition sample_full_circ :: circ_queue where
  "sample_full_circ = sample_circ\<lparr>cq_available := [(circ_piece 0)\<lparr>sb_length := 2\<rparr>, circ_piece 1]\<rparr>"

lemma mark_done_circ_asserts_witness:
  "mark_done (sample_actor (sample_port 2 [])
       ((sample_oport 0 8 True)\<lparr>op_queue := Some (CircQ sample_full_circ)\<rparr>))
     = Inl (Assert_Fail ''front.length == 0'')"
proof (rule mark_done_circ_asserts [where p = "(sample_oport 0 8 True)\<lparr>op_queue := Some (CircQ sample_full_circ)\<rparr>"
      and ps = "[]"])
  show "circ_front sample_full_circ
      = Inr ((circ_piece 0)\<lparr>sb_length := 2\<rparr>, sample_full_circ)"
    by (simp add: circ_front_def circ_empty_def sample_full_circ_def sample_circ_def circ_piece_def
        sample_buff_def sb_nonnull_def sb_get_def Let_def)
qed (simp_all add: sample_actor_def sample_oport_def circ_piece_def)

text \<open>A call of \<open>mark_output_fail\<close> on an output port whose maximum was not configured always
  throws, however little its buffer holds: the maximum of 0 items, which elsewhere means that there
  is no maximum, is reached by any buffer.\<close>

theorem output_fail_throws_without_maximum:
  assumes "out_front i a = Inr (b, a1)" and "i < length (ac_out_cfg a)"
    and "oc_maximum_items (ac_out_cfg a ! i) = 0" and "oc_item_size (ac_out_cfg a ! i) \<noteq> 0"
  shows "output_fail i a = Inl (Runtime_Error (''output_fail called on maximum_items buffer in '' @ ac_name a))"
proof -
  have "ac_out_cfg a1 = ac_out_cfg a" "ac_name a1 = ac_name a"
    using assms(1) by (auto simp: out_front_def set_oport_def res_simps)
  with assms show ?thesis by (simp add: output_fail_def at_def)
qed

lemma output_fail_throws_without_maximum_witness:
  "output_fail 0 (sample_actor (sample_port 2 []) (sample_oport 0 8 True))
     = Inl (Runtime_Error ''output_fail called on maximum_items buffer in block'')"
proof -
  let ?a = "sample_actor (sample_port 2 []) (sample_oport 0 8 True)"
  have "\<exists>b a1. out_front 0 ?a = Inr (b, a1)"
    by (simp add: out_front_def out_port_def sample_actor_def oq_front_def oq_empty_def sample_oport_def
        sample_pool_def pool_front_def pool_empty_def sb_nonnull_def sample_buff_def)
  then obtain b a1 where "out_front 0 ?a = Inr (b, a1)" by blast
  from output_fail_throws_without_maximum [OF this] show ?thesis
    by (simp add: sample_actor_def default_output_config_def new_actor_def)
qed

end
