(* ===== verification/Work_Props.thy ===== *)
theory Work_Props
  imports Block_Props
begin

text \<open>
  The properties of the data path around a work call (lib/task_main.cpp): the tags that are passed
  on, the messages a block reads, the items it consumes.
\<close>

section \<open>Tags\<close>

lemma propagate_tags_total:
  assumes "sized a" and "i < ac_num_inputs a"
  shows "\<exists>a'. propagate_tags i ts a = Inr a'"
proof -
  let ?P = "\<lambda>b. sized b \<and> i < ac_num_inputs b \<and> ac_num_outputs b = ac_num_outputs a"
  have step: "\<exists>b'. bindE (get_consumed i b) (\<lambda>c. bindE (get_produced o' b) (\<lambda>p.
      post_output_tag o' (t\<lparr>tg_offset := sz_add (sz_sub (tg_offset t) c) p\<rparr>) b)) = Inr b' \<and> ?P b'"
    if "?P b" "o' < ac_num_outputs a" for o' b t
  proof -
    have l: "i < length (ac_total_consumed b)" "o' < length (ac_total_produced b)" "o' < length (st_tags_produced b)"
      using that sized_in [of b i] sized_out [of b o'] by auto
    let ?t = "t\<lparr>tg_offset := sz_add (sz_sub (tg_offset t) (ac_total_consumed b ! i)) (ac_total_produced b ! o')\<rparr>"
    obtain b' where b': "post_output_tag o' ?t b = Inr b'" using l by (simp add: post_output_tag_def at_def)
    have "quiet b b'" using b' by (rule post_output_tag_quiet) simp
    then have "?P b'" using that by (auto dest: quiet_sized)
    with b' l show ?thesis by (simp add: get_consumed_def get_produced_def at_def)
  qed
  have "\<exists>a'. propagate_tags i ts a = Inr a' \<and> ?P a'"
    unfolding propagate_tags_def
    by (rule foldE_total, rule foldE_total) (use step assms in auto)
  then show ?thesis by blast
qed

lemma trim_tags_total:
  assumes "sized a" and "i < ac_num_inputs a"
  shows "\<exists>a'. trim_tags i a = Inr a'"
proof -
  let ?n = "length (takeWhile (\<lambda>t. tg_offset t < st_items_consumed a ! i) (ac_tags a ! i))"
  obtain b where b: "propagate_tags i (take ?n (ac_tags a ! i)) a = Inr b"
    using propagate_tags_total [OF assms] by blast
  have "length (st_tags_consumed b) = length (st_tags_consumed a)"
    using propagate_tags_effect [OF b] by (simp add: tag_frame_def)
  with b sized_in [OF assms] show ?thesis by (simp add: trim_tags_def at_def Let_def)
qed

text \<open>C9 Around a work call that leaves the count of consumed items at \<open>n\<close>: the port's tags are sorted
  by offset before it; after it exactly those below \<open>n\<close> are sent, in order, to every output port with
  their offset moved from the input's to the output's count, and exactly the others are kept.\<close>

theorem tags_passed_on:
  assumes "sized a" and "i < ac_num_inputs a" and "sorts en"
    and "ac_tags_changed a ! i \<or> sorted (map tg_offset (ac_tags a ! i))"
  shows "\<exists>b a'. sort_tags en i a = Inr b
    \<and> mset (ac_tags b ! i) = mset (ac_tags a ! i) \<and> sorted (map tg_offset (ac_tags b ! i))
    \<and> trim_tags i (b\<lparr>st_items_consumed := (st_items_consumed b)[i := n]\<rparr>) = Inr a'
    \<and> ac_tags a' ! i = filter (\<lambda>t. n \<le> tg_offset t) (ac_tags b ! i)
    \<and> ac_events a' = ac_events a @ concat (map (\<lambda>o'. map (moved i o' b)
          (filter (\<lambda>t. tg_offset t < n) (ac_tags b ! i))) [0..<ac_num_outputs a])"
proof -
  have "\<exists>b. sort_tags en i a = Inr b"
    using sized_in [OF assms(1,2)] by (simp add: sort_tags_def at_def)
  then obtain b where b: "sort_tags en i a = Inr b" by blast
  note s = sort_tags_effect [OF b assms(3,4)]
  have "quiet a b" using b by (rule sort_tags_quiet) simp
  then have z: "sized b" "ac_num_inputs b = ac_num_inputs a" "ac_num_outputs b = ac_num_outputs a"
    using assms(1) by (auto dest: quiet_sized)
  let ?b = "b\<lparr>st_items_consumed := (st_items_consumed b)[i := n]\<rparr>"
  have zb: "sized ?b" "i < ac_num_inputs ?b" using z assms(2) by (simp_all add: sized_def)
  then obtain a' where t: "trim_tags i ?b = Inr a'" using trim_tags_total by blast
  have st: "sorted (map tg_offset (ac_tags ?b ! i))" using s by simp
  have n: "st_items_consumed ?b ! i = n" using sized_in [OF z(1), of i] z(2) assms(2) by simp
  have m: "(\<lambda>o'. map (moved i o' ?b) ts) = (\<lambda>o'. map (moved i o' b) ts)" for ts by (simp add: moved_def fun_eq_iff)
  note e = trim_tags_effect [OF t st, unfolded n m]
  show ?thesis
    by (intro exI [of _ b] exI [of _ a'] conjI b t) (use s e in simp_all)
qed

lemma tags_passed_on_witness:
  "\<exists>b a'. sort_tags sample_env 0 (sample_actor (sample_port 2 []) (sample_oport 0 8 True)) = Inr b
     \<and> trim_tags 0 (b\<lparr>st_items_consumed := (st_items_consumed b)[0 := 3]\<rparr>) = Inr a'
     \<and> ac_tags a' ! 0 = [\<lparr>tg_offset = 4, tg_object = 9\<rparr>]"
proof -
  let ?a = "sample_actor (sample_port 2 []) (sample_oport 0 8 True)"
  have en: "sorts sample_env" by (simp add: sorts_def sample_env_def)
  have s: "ac_tags_changed ?a ! 0 \<or> sorted (map tg_offset (ac_tags ?a ! 0))" by (simp add: sample_actor_def)
  from tags_passed_on [OF sample_sized _ en s, of 3] show ?thesis
    by (auto simp: sort_tags_def at_def sample_actor_def)
qed

section \<open>Messages\<close>

text \<open>Messages are a FIFO: reading \<open>n\<close> times in a work call gives the first \<open>n\<close> messages of the port
  in the order they came, then null objects, and the port keeps exactly those that were not read.\<close>

theorem messages_in_order:
  assumes "sized a" and "i < ac_num_inputs a" and "ac_msgs_read a ! i = 0"
  shows "\<exists>b c. pop_msgs i n a = Inr (take n (ac_msgs a ! i) @ replicate (n - length (ac_msgs a ! i)) 0, b)
    \<and> trim_msgs i b = Inr c \<and> ac_msgs c ! i = drop n (ac_msgs a ! i)"
proof -
  have l: "i < length (ac_msgs a)" "i < length (ac_msgs_read a)" "i < length (st_msgs_consumed a)"
    using sized_in [OF assms(1,2)] by simp_all
  obtain b where b: "pop_msgs i n a = Inr (take n (ac_msgs a ! i) @ replicate (n - length (ac_msgs a ! i)) 0, b)"
    "ac_msgs b = ac_msgs a" "length (ac_msgs_read b) = length (ac_msgs_read a)"
    "ac_msgs_read b ! i = min (length (ac_msgs a ! i)) n"
    using pop_msgs_effect [OF l, of n] assms(3) by auto
  then have "\<exists>c. trim_msgs i b = Inr c \<and> ac_msgs c ! i = drop n (ac_msgs a ! i)"
    using l by (auto simp: trim_msgs_def at_def min_def)
  with b(1) show ?thesis by blast
qed

lemma messages_in_order_witness:
  "\<exists>b c. pop_msgs 0 2 (sample_actor (sample_port 2 []) (sample_oport 0 8 True)) = Inr ([21, 22], b) \<and> trim_msgs 0 b = Inr c \<and> ac_msgs c ! 0 = [23]"
  using messages_in_order [of "sample_actor (sample_port 2 []) (sample_oport 0 8 True)" 0 2, OF sample_sized]
  by (simp add: sample_actor_def eval_nat_numeral)

section \<open>Items\<close>



end
