(* ===== verification/Alloc_Props.thy ===== *)
theory Alloc_Props
  imports Block_Props
begin

text \<open>
  The properties of the configuration and of the output buffer allocation (lib/block_config.cpp,
  lib/block_allocator.cpp, lib/topology_handler.cpp), and how one block's end reaches its
  neighbours (lib/input_handlers.cpp, lib/output_handlers.cpp).
\<close>

text \<open>An environment in which nothing else holds a token.\<close>

definition sample_free :: env where
  "sample_free = sample_env\<lparr>en_unique := (\<lambda>t. True)\<rparr>"

section \<open>Configuration\<close>

text \<open>Merging block configurations is a monoid with the default configuration as its unit, and
  merging the same configuration again changes nothing: settings that are not at their default win
  over later ones, whatever the order in which hierarchical blocks are merged.\<close>

theorem global_config_merge_monoid:
  "gc_merge (gc_merge a b) c = gc_merge a (gc_merge b c)
   \<and> gc_merge default_global_config a = a \<and> gc_merge a default_global_config = a
   \<and> gc_merge (gc_merge a b) b = gc_merge a b"
  by (simp add: gc_merge_def default_global_config_def)

text \<open>A topology with more ports leaves every port that was configured as it was and gives each
  new one the configuration of the last configured port.\<close>

theorem topology_keeps_configs:
  assumes "handle_topology a = Inr a'" and "0 < ac_num_inputs a \<or> 0 < ac_num_outputs a"
    and "ac_in_cfg a \<noteq> []" and "ac_out_cfg a \<noteq> []"
  shows "(\<forall>i < ac_num_inputs a. ac_in_cfg a' ! i
      = (if i < length (ac_in_cfg a) then ac_in_cfg a ! i else last (ac_in_cfg a)))
    \<and> (\<forall>i < ac_num_outputs a. ac_out_cfg a' ! i
      = (if i < length (ac_out_cfg a) then ac_out_cfg a ! i else last (ac_out_cfg a)))"
proof -
  let ?b = "resize_to_topology (ac_num_inputs a) (ac_num_outputs a)
      (post (Notify_Topology (ac_num_inputs a) (ac_num_outputs a)) a)"
  obtain c d where c: "foldE handle_input_update [0..<ac_num_inputs a] ?b = Inr c"
    and d: "foldE handle_output_update [0..<ac_num_outputs a] c = Inr d" and a': "a' = post Ack d"
    using assms(1,2) by (auto simp: handle_topology_def Let_def res_simps)
  let ?same = "\<lambda>x y. ac_in_cfg x = ac_in_cfg y \<and> ac_out_cfg x = ac_out_cfg y"
  have b: "ac_in_cfg ?b = resize_fill_back default_input_config (ac_num_inputs a) (ac_in_cfg a)"
    "ac_out_cfg ?b = resize_fill_back default_output_config (ac_num_outputs a) (ac_out_cfg a)"
    by (simp_all add: resize_to_topology_def Let_def case_prod_unfold post_def)
  have "?same c ?b"
    by (rule foldE_invariant [where P = "\<lambda>s. ?same s ?b", OF _ _ c])
      (auto simp: handle_input_update_def update_input_avail_def in_op_def res_simps Let_def split: if_splits)
  moreover have "?same d c"
    by (rule foldE_invariant [where P = "\<lambda>s. ?same s c", OF _ _ d])
      (auto simp: handle_output_update_def out_op_def res_simps split: if_splits)
  ultimately have "?same a' ?b" by (simp add: a' post_def)
  with resize_fill_back_nth [OF assms(3), where d = default_input_config and n = "ac_num_inputs a"]
    resize_fill_back_nth [OF assms(4), where d = default_output_config and n = "ac_num_outputs a"]
    length_resize_fill_back [where d = default_input_config and n = "ac_num_inputs a" and v = "ac_in_cfg a"]
    length_resize_fill_back [where d = default_output_config and n = "ac_num_outputs a" and v = "ac_out_cfg a"]
  show ?thesis unfolding b by simp
qed

lemma topology_keeps_configs_witness:
  "\<exists>a'. handle_topology ((new_actor [] 0 1 sample_world)\<lparr>ac_num_outputs := 2,
       ac_in_cfg := [default_input_config],
       ac_out_cfg := [default_output_config\<lparr>oc_item_size := 4\<rparr>]\<rparr>) = Inr a'
     \<and> ac_out_cfg a' ! 1 = default_output_config\<lparr>oc_item_size := 4\<rparr>"
proof -
  let ?a = "(new_actor [] 0 1 sample_world)\<lparr>ac_num_outputs := 2, ac_in_cfg := [default_input_config],
       ac_out_cfg := [default_output_config\<lparr>oc_item_size := 4\<rparr>]\<rparr>"
  have f: "ac_num_outputs ?a = 2" "ac_in_cfg ?a = [default_input_config]"
    "ac_out_cfg ?a = [default_output_config\<lparr>oc_item_size := 4\<rparr>]" by simp_all
  have "\<exists>a'. handle_topology ?a = Inr a'"
    by (simp add: handle_topology_def resize_to_topology_def iq_resize_def oq_resize_def new_actor_def
        post_def time_now_def handle_output_update_def at_def out_op_def on_oport_def set_reserve_bytes_def
        new_oport_def resize_def resize_fill_back_def resize_fill_grow_def Let_def eval_nat_numeral)
  then obtain a' where a': "handle_topology ?a = Inr a'" by blast
  from topology_keeps_configs [OF this, unfolded f] have "ac_out_cfg a' ! 1 = default_output_config\<lparr>oc_item_size := 4\<rparr>"
    by simp
  with a' show ?thesis by blast
qed

section \<open>The length of an output buffer\<close>

text \<open>The macro that is to round up to a multiple gives its first argument back.\<close>

lemma round_up_is_id:
  assumes "0 < m" and "m < 2 ^ 40" and "num < 2 ^ 20"
  shows "my_round_up_mult num m = Inr num"
proof -
  have "num * m \<le> 2 ^ 20 * 2 ^ 40" using assms by (intro mult_mono) simp_all
  then have small: "num * m + m < size_mod" using assms(2) by (simp add: size_mod_def)
  then have "sz_sub (sz_add (sz_mul num m) m) 1 = num * m + (m - 1)"
    using assms(1) by (simp add: sz_mul_exact sz_add_exact sz_sub_exact)
  also have "(num * m + (m - 1)) div m = num" using assms(1) by (subst div_mult_self3) simp_all
  finally show ?thesis using assms(1) by (simp add: my_round_up_mult_def)
qed

text \<open>C33 When a port or one of its downstream ports has a positive reserve, the search for the buffer
  length always ends. The length is the upper bound, or a multiple of the largest reserve that is
  at least the hint and less than one reserve above it.\<close>

theorem recommended_length:
  assumes "0 < super_reserve hints at_least" and "0 < hint" and "hint + super_reserve hints at_least < size_mod"
  shows "\<exists>n. recommend_length hints hint at_least at_most = Some n
    \<and> n \<le> (if at_most = 0 then AHH_TOO_MANY_BYTES else at_most)
    \<and> (n = (if at_most = 0 then AHH_TOO_MANY_BYTES else at_most)
       \<or> super_reserve hints at_least dvd n \<and> hint \<le> n \<and> n < hint + super_reserve hints at_least
         \<and> at_least \<le> n \<and> (\<forall>h \<in> set hints. h \<le> n))"
proof -
  let ?k = "super_reserve hints at_least"
  obtain r where r: "grow_by hint ?k ?k = Some r" "?k dvd r" "hint \<le> r" "r < hint + ?k" "?k \<le> r"
    using grow_by_total [OF assms(1,3), of ?k] assms(2) by auto
  have "at_least \<le> r" "\<forall>h \<in> set hints. h \<le> r"
    using super_reserve_ge [where hints = hints and at_least = at_least] r(5) by (auto intro: order_trans)
  with r show ?thesis by (auto simp: recommend_length_def Let_def min_def)
qed

lemma recommended_length_witness:
  "\<exists>n. recommend_length [24, 40] 100 8 0 = Some n \<and> 40 dvd n \<and> 100 \<le> n \<and> n < 140"
proof -
  have s: "super_reserve [24, 40] 8 = 40" by (simp add: super_reserve_def)
  from recommended_length [of "[24, 40]" 8 100 0] obtain n where
    n: "recommend_length [24, 40] 100 8 0 = Some n" "n \<le> AHH_TOO_MANY_BYTES"
      "n = AHH_TOO_MANY_BYTES \<or> 40 dvd n \<and> 100 \<le> n \<and> n < 140"
    by (auto simp: s size_mod_def)
  have "grow_by 100 40 40 = Some 120"
    by (subst grow_by.simps, subst grow_by.simps, subst grow_by.simps) (simp add: sz_defs)
  then have "recommend_length [24, 40] 100 8 0 = Some 120"
    by (simp add: recommend_length_def s AHH_TOO_MANY_BYTES_def)
  with n show ?thesis by (auto simp: AHH_TOO_MANY_BYTES_def)
qed

text \<open>An output port with a reserve of 0 items of which no downstream port has announced a positive
  reserve never gets its buffers: the loop that adds the reserve up to the hint does not end, so the
  handler of the allocation message never acknowledges it.\<close>

theorem allocation_hangs_without_reserve:
  assumes "i < length (ac_out_cfg a)" and "i < length (ac_hints a)"
    and "oc_reserve_items (ac_out_cfg a ! i) = 0" and "\<forall>h \<in> set (ac_hints a ! i). fst h = 0"
    and "0 < oc_item_size (ac_out_cfg a ! i)" and "oc_item_size (ac_out_cfg a ! i) < 2 ^ 40"
  shows "recommend_length (map fst (ac_hints a ! i)) AT_LEAST_BYTES 0 at_most = None
    \<and> alloc_output en i a = Inl (Undefined ''recommend_length does not return'')"
proof -
  let ?m = "oc_item_size (ac_out_cfg a ! i)"
  have s: "super_reserve (map fst (ac_hints a ! i)) 0 = 0"
    using super_reserve_in [of "map fst (ac_hints a ! i)" 0] assms(4) by auto
  have r: "recommend_length (map fst (ac_hints a ! i)) AT_LEAST_BYTES 0 m = None" for m
    by (simp add: recommend_length_def s grow_by_zero AT_LEAST_BYTES_def)
  have up: "my_round_up_mult AT_LEAST_BYTES ?m = Inr AT_LEAST_BYTES"
    using assms(5,6) by (rule round_up_is_id) (simp add: AT_LEAST_BYTES_def)
  show ?thesis using assms(1-3) r up by (simp add: alloc_output_def at_def sz_mul_def Let_def)
qed

lemma allocation_hangs_without_reserve_witness:
  "alloc_output sample_env 0 ((sample_actor (sample_port 2 []) (sample_oport 0 8 True))\<lparr>ac_out_cfg := [default_output_config\<lparr>oc_reserve_items := 0\<rparr>]\<rparr>)
     = Inl (Undefined ''recommend_length does not return'')"
proof -
  let ?a = "(sample_actor (sample_port 2 []) (sample_oport 0 8 True))\<lparr>ac_out_cfg := [default_output_config\<lparr>oc_reserve_items := 0\<rparr>]\<rparr>"
  have "0 < length (ac_out_cfg ?a)" "0 < length (ac_hints ?a)" "oc_reserve_items (ac_out_cfg ?a ! 0) = 0"
    "\<forall>h \<in> set (ac_hints ?a ! 0). fst h = 0" "0 < oc_item_size (ac_out_cfg ?a ! 0)"
    "oc_item_size (ac_out_cfg ?a ! 0) < 2 ^ 40"
    by (simp_all add: sample_actor_def default_output_config_def)
  from allocation_hangs_without_reserve [OF this] show ?thesis by blast
qed

section \<open>The end of a block reaches its neighbours\<close>

text \<open>C17 The end of a block reaches its consumers: once a block that held the only reference to the
  token of a downstream port is done, it has told every output to check, and a consumer with a
  reserve on that port and no input left becomes done when it handles the check.\<close>

theorem done_reaches_consumer:
  assumes "mark_done u = Inr u'" and "ac_state u \<noteq> BLOCK_STATE_DONE" and "o' < ac_num_outputs u"
    and "\<forall>t. en_unique en t = (t \<notin> ac_token_pool u')"
    and "sized d" and "i < ac_num_inputs d" and "ac_in_tokens d ! i = Some tok"
    and "ic_reserve_items (ac_in_cfg d ! i) \<noteq> 0" and "\<forall>b \<in> set (ac_avail d). \<not> b"
    and "iq_timely (ac_inq d) (ac_world d)" and "oq_settled clen (ac_outq d) (ac_world d)"
  shows "Downstream o' InputCheckMessage \<in> set (ac_events u')
    \<and> (\<exists>d'. handle_input_check en i d = Inr d' \<and> ac_state d' = BLOCK_STATE_DONE)"
proof -
  note u = mark_done_effect [OF assms(1,2)]
  let ?e = "if list_all (\<lambda>x. \<not> x) (ac_in_done d) then d\<lparr>ac_first_done := en_system_time en\<rparr> else d"
  let ?d = "?e\<lparr>ac_in_done := (ac_in_done d)[i := True]\<rparr>"
  note l = sized_in [OF assms(5,6)]
  have "token_unique en (ac_in_tokens d ! i)" using u assms(4,7) by (simp add: token_unique_def)
  moreover have "\<not> work_allowed en ?d" using assms(9) by (auto simp: work_allowed_def)
  then have "task_main en ?d = Inr ?d" by (simp add: task_main_def)
  moreover have "\<not> ac_avail d ! i" using assms(9) l(3) nth_mem by blast
  ultimately have h: "handle_input_check en i d = mark_done ?d"
    using l assms(8) by (auto simp: handle_input_check_def at_def Let_def)
  have "sized ?d" "iq_timely (ac_inq ?d) (ac_world ?d)" "oq_settled clen (ac_outq ?d) (ac_world ?d)"
    using assms(5,10,11) by simp_all
  then obtain d' where d': "mark_done ?d = Inr d'"
    using mark_done_total [of ?d clen] by blast
  then have "ac_state d' = BLOCK_STATE_DONE"
    using mark_done_effect [OF d'] by (cases "ac_state ?d = BLOCK_STATE_DONE") (simp add: mark_done_def, blast)
  then show ?thesis using h d' u assms(3) by auto
qed

lemma done_reaches_consumer_witness:
  "\<exists>u' d'. mark_done (sample_actor (sample_port 2 []) (sample_oport 0 8 True)) = Inr u'
     \<and> handle_input_check sample_free 0 ((sample_actor (sample_port 2 []) (sample_oport 0 8 True))\<lparr>ac_avail := [False]\<rparr>)
       = Inr d' \<and> ac_state d' = BLOCK_STATE_DONE"
proof -
  let ?a = "sample_actor (sample_port 2 []) (sample_oport 0 8 True)"
  obtain u' where u': "mark_done ?a = Inr u'"
    using mark_done_total [OF sample_sized, where clen = 0] sample_settled by fastforce
  have pool: "ac_token_pool u' = {}" using mark_done_effect [OF u'] by simp
  have d: "sized (?a\<lparr>ac_avail := [False]\<rparr>)" using sample_sized [of "sample_port 2 []" "sample_oport 0 8 True"]
    by (simp add: sized_def sample_actor_def)
  have "\<exists>d'. handle_input_check sample_free 0 (?a\<lparr>ac_avail := [False]\<rparr>) = Inr d' \<and> ac_state d' = BLOCK_STATE_DONE"
    by (rule done_reaches_consumer [OF u' _ _ _ d, where clen = 0 and tok = 3, THEN conjunct2])
      (use sample_settled pool in \<open>simp_all add: sample_free_def sample_env_def\<close>,
        simp_all add: sample_actor_def default_input_config_def)
  with u' show ?thesis by blast
qed

text \<open>C18 The end of a block reaches its producers: a producer with one output becomes done when it
  handles the check after its only consumer is done.\<close>

theorem done_reaches_producer:
  assumes "mark_done d = Inr d'" and "ac_state d \<noteq> BLOCK_STATE_DONE" and "i < ac_num_inputs d"
    and "\<forall>t. en_unique en t = (t \<notin> ac_token_pool d')"
    and "sized u" and "ac_num_outputs u = 1" and "ac_out_tokens u ! 0 = Some tok"
    and "iq_timely (ac_inq u) (ac_world u)" and "oq_settled clen (ac_outq u) (ac_world u)"
  shows "Upstream i OutputCheckMessage \<in> set (ac_events d')
    \<and> (\<exists>u'. handle_output_check en 0 u = Inr u' \<and> ac_state u' = BLOCK_STATE_DONE)"
proof -
  note e = mark_done_effect [OF assms(1,2)]
  let ?u = "u\<lparr>ac_out_done := (ac_out_done u)[0 := True]\<rparr>"
  have len: "length (ac_out_done u) = 1" "length (ac_out_tokens u) = 1"
    using assms(5,6) by (simp_all add: sized_def Let_def)
  then obtain b where b: "ac_out_done u = [b]" by (metis One_nat_def length_0_conv length_Suc_conv)
  have "token_unique en (ac_out_tokens u ! 0)" using e assms(4,7) by (simp add: token_unique_def)
  then have h: "handle_output_check en 0 u = mark_done ?u"
    using len b by (simp add: handle_output_check_def at_def)
  have "sized ?u" using assms(5) by simp
  then obtain u' where u': "mark_done ?u = Inr u'" using mark_done_total [of ?u clen] assms(8,9) by auto
  then have "ac_state u' = BLOCK_STATE_DONE"
    using mark_done_effect [OF u'] by (cases "ac_state u = BLOCK_STATE_DONE") (auto simp: mark_done_def)
  then show ?thesis using h u' e assms(3) by auto
qed

lemma done_reaches_producer_witness:
  "\<exists>u'. handle_output_check sample_free 0 (sample_actor (sample_port 2 []) (sample_oport 0 8 True)) = Inr u'
     \<and> ac_state u' = BLOCK_STATE_DONE"
proof -
  let ?a = "sample_actor (sample_port 2 []) (sample_oport 0 8 True)"
  obtain d' where d': "mark_done ?a = Inr d'"
    using mark_done_total [OF sample_sized, where clen = 0] sample_settled by fastforce
  have pool: "ac_token_pool d' = {}" using mark_done_effect [OF d'] by simp
  show ?thesis
    by (rule done_reaches_producer [OF d' _ _ _ sample_sized, where clen = 0 and tok = 4, THEN conjunct2])
      (use sample_settled pool in \<open>simp_all add: sample_free_def sample_env_def\<close>,
        simp_all add: sample_actor_def)
qed

end
