(* ===== verification/Time_Tag.thy ===== *)
theory Time_Tag
  imports Gras_Prelude
begin

text \<open>
  lib/time_tag.cpp: a time as full seconds and fractional ticks, its normalisation, the conversions
  to and from ticks of the default rate, the arithmetic and the order.

  Both numbers are \<open>long long\<close>: an operation whose exact result does not fit is undefined. The
  conversion of the quotient to \<open>int\<close> wraps, as gcc has it. The conversions that go through
  \<open>double\<close> (a rate, a PMC tuple) are in Time_Convert.
\<close>

section \<open>The code\<close>

datatype time_tag = Time_Tag (fsecs: int) (ticks: int)

definition TIME_TAG_TPS :: int where
  "TIME_TAG_TPS = 1000000000"

definition in_s64 :: "int \<Rightarrow> bool" where
  "in_s64 x \<longleftrightarrow> - (2 ^ 63) \<le> x \<and> x < 2 ^ 63"

definition s64 :: "int \<Rightarrow> exn + int" where
  "s64 x = (if in_s64 x then Inr x else Inl (Undefined ''signed overflow''))"

definition s32 :: "int \<Rightarrow> exn + int" where
  "s32 x = (if - (2 ^ 31) \<le> x \<and> x < 2 ^ 31 then Inr x else Inl (Undefined ''signed overflow''))"

definition tt_normalize :: "time_tag \<Rightarrow> exn + time_tag" where
  "tt_normalize t =
     (let num = wrap_s32 (c_quot (ticks t) TIME_TAG_TPS)
      in bindE (if num < 0 then s32 (num - 1) else Inr num) (\<lambda>num.
         bindE (s64 (fsecs t + num)) (\<lambda>f.
         bindE (s64 (num * TIME_TAG_TPS)) (\<lambda>d.
         bindE (s64 (ticks t - d)) (\<lambda>k. Inr (Time_Tag f k))))))"

definition zero_time :: time_tag where
  "zero_time = Time_Tag 0 0"

definition from_ticks :: "int \<Rightarrow> exn + time_tag" where
  "from_ticks n = tt_normalize (Time_Tag 0 n)"

definition to_ticks :: "time_tag \<Rightarrow> exn + int" where
  "to_ticks t = bindE (s64 (fsecs t * TIME_TAG_TPS)) (\<lambda>m. s64 (m + ticks t))"

definition time_plus :: "time_tag \<Rightarrow> time_tag \<Rightarrow> exn + time_tag" where
  "time_plus t u =
     bindE (s64 (fsecs t + fsecs u)) (\<lambda>f. bindE (s64 (ticks t + ticks u)) (\<lambda>k. tt_normalize (Time_Tag f k)))"

definition time_minus :: "time_tag \<Rightarrow> time_tag \<Rightarrow> exn + time_tag" where
  "time_minus t u =
     bindE (s64 (fsecs t - fsecs u)) (\<lambda>f. bindE (s64 (ticks t - ticks u)) (\<lambda>k. tt_normalize (Time_Tag f k)))"

definition time_less :: "time_tag \<Rightarrow> time_tag \<Rightarrow> bool" where
  "time_less t u = (if fsecs t = fsecs u then ticks t < ticks u else fsecs t < fsecs u)"

text \<open>\<open>operator<\<close>, with \<open>\<le>\<close> as boost::less_than_comparable derives it, is a linear order of the pairs.\<close>

instantiation time_tag :: linorder
begin

definition less_time_tag :: "time_tag \<Rightarrow> time_tag \<Rightarrow> bool" where
  "less_time_tag = time_less"

definition less_eq_time_tag :: "time_tag \<Rightarrow> time_tag \<Rightarrow> bool" where
  "less_eq_time_tag t u = (\<not> u < t)"

instance
  by standard
    (auto simp: less_time_tag_def time_less_def less_eq_time_tag_def time_tag.expand split: if_splits)

end

section \<open>What a time tag stands for\<close>

definition time_value :: "time_tag \<Rightarrow> int" where
  "time_value t = fsecs t * TIME_TAG_TPS + ticks t"

definition canonical :: "time_tag \<Rightarrow> bool" where
  "canonical t \<longleftrightarrow> 0 \<le> ticks t \<and> ticks t < TIME_TAG_TPS"

lemma s64_eq_Inr [res_simps]: "s64 x = Inr y \<longleftrightarrow> in_s64 x \<and> y = x"
  by (auto simp: s64_def)

lemma s32_eq_Inr [res_simps]: "s32 x = Inr y \<longleftrightarrow> - (2 ^ 31) \<le> x \<and> x < 2 ^ 31 \<and> y = x"
  by (auto simp: s32_def)

lemma tt_normalize_value: "tt_normalize t = Inr t' \<Longrightarrow> time_value t' = time_value t"
  by (auto simp: tt_normalize_def Let_def res_simps time_value_def algebra_simps)

lemma c_quot_nonneg: "0 \<le> n \<Longrightarrow> 0 < d \<Longrightarrow> c_quot n d = n div d"
  by (simp add: c_quot_def)

lemma c_quot_neg: "n < 0 \<Longrightarrow> 0 < d \<Longrightarrow> c_quot n d = - ((- n) div d)"
  by (simp add: c_quot_def)

lemma tt_normalize_nonneg:
  assumes "0 \<le> ticks t" and "ticks t < 2 ^ 31 * TIME_TAG_TPS"
    and "- (2 ^ 62) \<le> fsecs t" and "fsecs t < 2 ^ 62"
  shows "tt_normalize t = Inr (Time_Tag (fsecs t + ticks t div TIME_TAG_TPS) (ticks t mod TIME_TAG_TPS))"
proof -
  let ?q = "ticks t div TIME_TAG_TPS"
  have q: "0 \<le> ?q" "?q < 2 ^ 31"
    using assms(1,2) by (simp_all add: TIME_TAG_TPS_def div_less_iff_less_mult pos_imp_zdiv_nonneg_iff)
  then have "c_quot (ticks t) TIME_TAG_TPS = ?q" "wrap_s32 ?q = ?q"
    using assms(1) by (simp_all add: c_quot_nonneg TIME_TAG_TPS_def wrap_s32_id)
  moreover have "0 \<le> ticks t - ?q * TIME_TAG_TPS \<and> ticks t - ?q * TIME_TAG_TPS < TIME_TAG_TPS"
    by (simp add: minus_div_mult_eq_mod TIME_TAG_TPS_def)
  ultimately show ?thesis
    using q assms
    by (simp add: tt_normalize_def Let_def s64_def in_s64_def minus_div_mult_eq_mod TIME_TAG_TPS_def) linarith
qed

text \<open>A negative count of ticks within 68 years.\<close>

lemma tt_normalize_neg:
  assumes "ticks t < 0" and "- (2 ^ 31 - 2) * TIME_TAG_TPS < ticks t"
    and "- (2 ^ 62) \<le> fsecs t" and "fsecs t < 2 ^ 62"
  shows "\<exists>t'. tt_normalize t = Inr t' \<and> - (2 ^ 31) \<le> fsecs t' - fsecs t \<and> fsecs t' \<le> fsecs t
    \<and> - TIME_TAG_TPS < ticks t' \<and> ticks t' \<le> TIME_TAG_TPS"
proof -
  let ?q = "(- ticks t) div TIME_TAG_TPS"
  have q: "0 \<le> ?q" "?q < 2 ^ 31 - 2"
    using assms(1,2) by (simp_all add: TIME_TAG_TPS_def div_less_iff_less_mult pos_imp_zdiv_nonneg_iff)
  then have w: "wrap_s32 (c_quot (ticks t) TIME_TAG_TPS) = - ?q"
    using assms(1) by (simp add: c_quot_neg TIME_TAG_TPS_def wrap_s32_id)
  have r: "0 \<le> - ticks t - ?q * TIME_TAG_TPS" "- ticks t - ?q * TIME_TAG_TPS < TIME_TAG_TPS"
    by (simp_all add: minus_div_mult_eq_mod TIME_TAG_TPS_def)
  show ?thesis
  proof (cases "?q = 0")
    case True
    with assms r w show ?thesis
      by (simp add: tt_normalize_def Let_def s64_def in_s64_def TIME_TAG_TPS_def)
  next
    case False
    define k where "k = ?q"
    have "0 < k" "k < 2 ^ 31 - 2" "0 \<le> - ticks t - k * TIME_TAG_TPS" "- ticks t - k * TIME_TAG_TPS < TIME_TAG_TPS"
      using False q r by (simp_all add: k_def)
    then show ?thesis
      using assms w [folded k_def]
      by (auto simp: tt_normalize_def Let_def s64_def s32_def in_s64_def TIME_TAG_TPS_def)
  qed
qed

section \<open>Properties\<close>

text \<open>A time tag made from ticks gives the same ticks back, for any count of ticks that is less
  than 68 years in either direction; when the count is not negative, the fraction is less than a
  second.\<close>

theorem time_tag_roundtrip:
  assumes "\<bar>n\<bar> < (2 ^ 31 - 2) * TIME_TAG_TPS"
  shows "\<exists>t. from_ticks n = Inr t \<and> to_ticks t = Inr n \<and> (0 \<le> n \<longrightarrow> canonical t)"
proof -
  have n: "in_s64 n" using assms by (auto simp: in_s64_def TIME_TAG_TPS_def abs_less_iff)
  obtain t where t: "from_ticks n = Inr t" "- (2 ^ 31) \<le> fsecs t" "fsecs t < 2 ^ 31" "0 \<le> n \<longrightarrow> canonical t"
  proof (cases "0 \<le> n")
    case True
    then have "from_ticks n = Inr (Time_Tag (n div TIME_TAG_TPS) (n mod TIME_TAG_TPS))"
      using tt_normalize_nonneg [of "Time_Tag 0 n"] assms by (simp add: from_ticks_def TIME_TAG_TPS_def)
    moreover have "0 \<le> n div TIME_TAG_TPS" "n div TIME_TAG_TPS < 2 ^ 31"
      using True assms by (simp_all add: TIME_TAG_TPS_def div_less_iff_less_mult pos_imp_zdiv_nonneg_iff)
    ultimately show ?thesis using that by (simp add: canonical_def TIME_TAG_TPS_def)
  next
    case False
    then show ?thesis
      using that tt_normalize_neg [of "Time_Tag 0 n"] assms by (auto simp: from_ticks_def TIME_TAG_TPS_def)
  qed
  have "time_value t = n" using tt_normalize_value t(1) by (fastforce simp: from_ticks_def time_value_def)
  then have "to_ticks t = Inr n"
    using t n by (simp add: to_ticks_def s64_def time_value_def) (simp add: in_s64_def TIME_TAG_TPS_def)
  with t show ?thesis by blast
qed

lemma time_tag_roundtrip_witness:
  "\<exists>t. from_ticks 2500000000 = Inr t \<and> to_ticks t = Inr 2500000000 \<and> canonical t"
  using time_tag_roundtrip [of 2500000000] by (simp add: TIME_TAG_TPS_def)

text \<open>C32 On tags whose fraction is within a second, the order is the order of the times they stand for,
  two tags of the same time are equal, and the sum has a fraction within a second and stands for the
  sum of the times.\<close>

theorem time_tag_order_and_sum:
  assumes "canonical t" and "canonical u" and "\<bar>fsecs t\<bar> < 2 ^ 60" and "\<bar>fsecs u\<bar> < 2 ^ 60"
  shows "(t < u) = (time_value t < time_value u) \<and> (t = u) = (time_value t = time_value u)
    \<and> (\<exists>s. time_plus t u = Inr s \<and> canonical s \<and> time_value s = time_value t + time_value u)"
proof -
  have lt: "time_value x < time_value y" if "canonical x" "canonical y" "x < y" for x y
  proof (cases "fsecs x = fsecs y")
    case False
    then have "(fsecs x + 1) * TIME_TAG_TPS \<le> fsecs y * TIME_TAG_TPS"
      using that(3) by (intro mult_right_mono) (simp_all add: less_time_tag_def time_less_def TIME_TAG_TPS_def)
    with that show ?thesis by (simp add: time_value_def canonical_def algebra_simps)
  qed (use that in \<open>simp add: less_time_tag_def time_less_def time_value_def\<close>)
  have o: "(t < u) = (time_value t < time_value u)" "(t = u) = (time_value t = time_value u)"
    using lt [of t u] lt [of u t] assms by (cases t u rule: linorder_cases; simp)+
  let ?s = "Time_Tag (fsecs t + fsecs u) (ticks t + ticks u)"
  obtain s where s: "tt_normalize ?s = Inr s" "canonical s"
    using tt_normalize_nonneg [of ?s] assms by (auto simp: canonical_def TIME_TAG_TPS_def)
  have "time_plus t u = Inr s"
    using s(1) assms by (auto simp: time_plus_def s64_def in_s64_def canonical_def TIME_TAG_TPS_def abs_less_iff)
  moreover have "time_value s = time_value t + time_value u"
    using tt_normalize_value [OF s(1)] by (simp add: time_value_def algebra_simps)
  ultimately show ?thesis using o s(2) by blast
qed

lemma time_tag_order_and_sum_witness:
  "Time_Tag 1 999999999 < Time_Tag 2 1
   \<and> (\<exists>s. time_plus (Time_Tag 1 999999999) (Time_Tag 2 1) = Inr s \<and> time_value s = 4000000000)"
  using time_tag_order_and_sum [of "Time_Tag 1 999999999" "Time_Tag 2 1"]
  by (auto simp: canonical_def time_value_def TIME_TAG_TPS_def)

text \<open>For negative times the normalisation does not do what its comment says: one tick before zero
  keeps a negative fraction when it comes from a subtraction and gets a positive one when it comes
  from below, and the two tags of the same time are not equal but ordered.\<close>

theorem time_tag_negative_order:
  "\<exists>t u five six. from_ticks 5 = Inr five \<and> from_ticks 6 = Inr six \<and> time_minus five six = Inr t
     \<and> from_ticks (- 1000000001) = Inr u
     \<and> (\<exists>second v. from_ticks 1000000000 = Inr second \<and> time_plus u second = Inr v
          \<and> to_ticks t = Inr (- 1) \<and> to_ticks v = Inr (- 1) \<and> ticks t < 0 \<and> t \<noteq> v \<and> v < t)"
  by (simp add: from_ticks_def time_minus_def time_plus_def tt_normalize_def to_ticks_def c_quot_def wrap_s32_def
      s64_def s32_def in_s64_def TIME_TAG_TPS_def less_time_tag_def time_less_def Let_def)

end
