(* ===== verification/Element_Tree.thy ===== *)
theory Element_Tree
  imports Gras_Prelude
begin

text \<open>
  lib/element.cpp, lib/element_uid.cpp and the tree part of lib/element_impl.hpp: the uids of the
  process, the creation of an element, and the tree that \<open>adopt_element\<close> builds and
  \<open>locate_element\<close> walks.

  An element is the identity of its ElementImpl, the key of the map of elements. The set of uids is
  the process-wide one; its mutex makes every operation atomic.
\<close>

section \<open>State\<close>

type_synonym elem = nat

record element =
  el_name :: string
  el_repr :: string
  el_uid :: "string option"
  el_parent :: "elem option"
  el_children :: "string \<Rightarrow> elem option"

record elements =
  es_uids :: "string set"
  es_elem :: "elem \<Rightarrow> element option"
  es_next :: elem

definition no_elements :: elements where
  "no_elements = \<lparr>es_uids = {}, es_elem = (\<lambda>_. None), es_next = 0\<rparr>"

section \<open>Uids\<close>

definition alloc_uid :: "string \<Rightarrow> elements \<Rightarrow> exn + elements" where
  "alloc_uid uid s =
     (if uid \<in> es_uids s then Inl (Invalid_Argument (''Element::set_uid - uid already in use: '' @ uid))
      else Inr (s\<lparr>es_uids := insert uid (es_uids s)\<rparr>))"

definition free_uid :: "string option \<Rightarrow> elements \<Rightarrow> elements" where
  "free_uid u s = (case u of None \<Rightarrow> s | Some uid \<Rightarrow> s\<lparr>es_uids := es_uids s - {uid}\<rparr>)"

text \<open>The access to an element through its handle; a handle of no element is a null pointer.\<close>

definition elem_of :: "elem \<Rightarrow> elements \<Rightarrow> (element \<Rightarrow> exn + 'b) \<Rightarrow> exn + 'b" where
  "elem_of e s k = (case es_elem s e of None \<Rightarrow> Inl (Undefined ''null element'') | Some x \<Rightarrow> k x)"

definition put_elem :: "elem \<Rightarrow> element \<Rightarrow> elements \<Rightarrow> elements" where
  "put_elem e x s = s\<lparr>es_elem := (es_elem s)(e \<mapsto> x)\<rparr>"

text \<open>\<open>reset\<close>: the new uid is allocated before the old one is freed.\<close>

definition set_uid :: "elem \<Rightarrow> string \<Rightarrow> elements \<Rightarrow> exn + elements" where
  "set_uid e uid s = elem_of e s (\<lambda>x. bindE (alloc_uid uid s) (\<lambda>s.
     Inr (put_elem e (x\<lparr>el_uid := Some uid\<rparr>) (free_uid (el_uid x) s))))"

definition get_uid :: "elem \<Rightarrow> elements \<Rightarrow> exn + string" where
  "get_uid e s = elem_of e s (\<lambda>x.
     case el_uid x of None \<Rightarrow> Inl (Undefined ''null uid'') | Some u \<Rightarrow> Inr u)"

section \<open>Creation\<close>

text \<open>\<open>%u\<close> of boost::format.\<close>

definition digit :: "nat \<Rightarrow> char" where
  "digit n = char_of (48 + n)"

fun dec :: "nat \<Rightarrow> string" where
  "dec n = (if n < 10 then [digit n] else dec (n div 10) @ [digit (n mod 10)])"

declare dec.simps [simp del]

definition uid_of :: "string \<Rightarrow> nat \<Rightarrow> string" where
  "uid_of name which = name @ ''_'' @ dec which"

fun undec :: "string \<Rightarrow> nat" where
  "undec cs = foldl (\<lambda>n c. 10 * n + (of_char c - 48)) 0 cs"

lemma of_char_digit: "n < 10 \<Longrightarrow> of_char (digit n) = (48 + n :: nat)"
  by (simp add: digit_def)

lemma undec_dec: "undec (dec n) = n"
proof (induction n rule: dec.induct)
  case (1 n)
  then show ?case
    by (subst dec.simps) (auto simp: of_char_digit)
qed

lemma dec_inject: "dec m = dec n \<longleftrightarrow> m = n"
  by (metis undec_dec)

lemma uid_of_inject: "uid_of name m = uid_of name n \<longleftrightarrow> m = n"
  by (simp add: uid_of_def dec_inject)

text \<open>The loop of the constructor: count up until \<open>set_uid\<close> does not throw. It ends because the set
  of uids in use is finite; \<open>fuel\<close> of its size is enough.\<close>

fun create_loop :: "nat \<Rightarrow> string \<Rightarrow> nat \<Rightarrow> elem \<Rightarrow> elements \<Rightarrow> (nat \<times> elements) option" where
  "create_loop fuel name which e s =
     (case set_uid e (uid_of name which) s of
        Inr s' \<Rightarrow> Some (which, s')
      | Inl _ \<Rightarrow> (case fuel of 0 \<Rightarrow> None | Suc f \<Rightarrow> create_loop f name (Suc which) e s))"

declare create_loop.simps [simp del]

definition new_element :: "string \<Rightarrow> elements \<Rightarrow> (elem \<times> elements) option" where
  "new_element name s =
     (let e = es_next s;
          x = \<lparr>el_name = name, el_repr = [], el_uid = None, el_parent = None, el_children = (\<lambda>_. None)\<rparr>;
          s = (put_elem e x s)\<lparr>es_next := Suc e\<rparr>
      in case create_loop (card (es_uids s)) name 0 e s of
           None \<Rightarrow> None
         | Some (which, s) \<Rightarrow>
             (case es_elem s e of
                None \<Rightarrow> None
              | Some x \<Rightarrow> Some (e, put_elem e (x\<lparr>el_repr := name @ '' ('' @ dec which @ '')''\<rparr>) s)))"

text \<open>\<open>~ElementImpl\<close> frees the uid.\<close>

definition delete_element :: "elem \<Rightarrow> elements \<Rightarrow> exn + elements" where
  "delete_element e s = elem_of e s (\<lambda>x. Inr ((free_uid (el_uid x) s)\<lparr>es_elem := (es_elem s)(e := None)\<rparr>))"

section \<open>The tree\<close>

definition adopt_element :: "elem \<Rightarrow> string \<Rightarrow> elem \<Rightarrow> elements \<Rightarrow> exn + elements" where
  "adopt_element e name child s = elem_of e s (\<lambda>x. elem_of child s (\<lambda>c.
     case el_parent c of
       Some q \<Rightarrow> elem_of q s (\<lambda>p. Inl (Invalid_Argument
         (''Could not register child '' @ el_repr c @ '' into '' @ el_repr x @ ''.'' @ [CHR 0x0A]
          @ ''The child '' @ el_repr c @ '' already has parent '' @ el_repr p @ ''.'' @ [CHR 0x0A])))
     | None \<Rightarrow>
         if el_children x name \<noteq> None
         then Inl (Invalid_Argument
           (''A child of name '' @ el_repr c @ '' already registered to element '' @ el_repr x))
         else let s = put_elem child (c\<lparr>el_parent := Some e\<rparr>) s
              in elem_of e s (\<lambda>x. Inr (put_elem e (x\<lparr>el_children := (el_children x)(name \<mapsto> child)\<rparr>) s))))"

text \<open>\<open>boost::split\<close> on \<open>"/"\<close>: one more node than there are separators.\<close>

fun split_path :: "string \<Rightarrow> string list" where
  "split_path [] = [[]]"
| "split_path (c # cs) =
     (if c = CHR ''/'' then [] # split_path cs
      else case split_path cs of n # ns \<Rightarrow> (c # n) # ns | [] \<Rightarrow> [[c]])"

text \<open>The loop to the root; it does not end in a tree with a cycle.\<close>

partial_function (option) find_root :: "elements \<Rightarrow> elem \<Rightarrow> (exn + elem) option" where
  "find_root s e =
     (case es_elem s e of
        None \<Rightarrow> Some (Inl (Undefined ''null element''))
      | Some x \<Rightarrow> (case el_parent x of None \<Rightarrow> Some (Inr e) | Some p \<Rightarrow> find_root s p))"

definition walk_node :: "elements \<Rightarrow> string \<Rightarrow> bool \<Rightarrow> string \<Rightarrow> elem \<Rightarrow> (exn + elem) option" where
  "walk_node s path first node e =
     (if node = [] \<and> first then find_root s e
      else if node = ''.'' then Some (Inr e)
      else Some (elem_of e s (\<lambda>x.
             if node = ''..''
             then (case el_parent x of
                     None \<Rightarrow> Inl (Invalid_Argument (''Element tree lookup fail - null parent: '' @ path))
                   | Some p \<Rightarrow> Inr p)
             else (case el_children x node of
                     None \<Rightarrow> Inl (Invalid_Argument (''Element tree lookup fail - no such path: '' @ path))
                   | Some c \<Rightarrow> Inr c))))"

fun walk :: "elements \<Rightarrow> string \<Rightarrow> bool \<Rightarrow> string list \<Rightarrow> elem \<Rightarrow> (exn + elem) option" where
  "walk s path first [] e = Some (Inr e)"
| "walk s path first (node # nodes) e =
     (case walk_node s path first node e of
        None \<Rightarrow> None
      | Some (Inl x) \<Rightarrow> Some (Inl x)
      | Some (Inr e) \<Rightarrow> walk s path False nodes e)"

definition locate_element :: "elem \<Rightarrow> string \<Rightarrow> elements \<Rightarrow> (exn + elem) option" where
  "locate_element e path s = walk s path True (split_path path) e"

section \<open>Runs\<close>

text \<open>The operations of the program's elements in any order. An element is destroyed when nothing
  refers to it: a parent refers to its children, and every child to its parent.\<close>

inductive tree_step :: "elements \<Rightarrow> elements \<Rightarrow> bool" where
  create: "new_element name s = Some (e, s') \<Longrightarrow> tree_step s s'"
| rename: "set_uid e uid s = Inr s' \<Longrightarrow> tree_step s s'"
| adopt: "adopt_element e name child s = Inr s' \<Longrightarrow> tree_step s s'"
| destroy: "es_elem s e = Some x \<Longrightarrow> el_parent x = None \<Longrightarrow> el_children x = (\<lambda>_. None) \<Longrightarrow>
    delete_element e s = Inr s' \<Longrightarrow> tree_step s s'"

inductive_cases tree_stepE: "tree_step s s'"

inductive tree_reach :: "elements \<Rightarrow> bool" where
  start: "tree_reach no_elements"
| step: "tree_reach s \<Longrightarrow> tree_step s s' \<Longrightarrow> tree_reach s'"

section \<open>The uid invariant\<close>

definition uid_at :: "elements \<Rightarrow> elem \<Rightarrow> string option" where
  "uid_at s e = (case es_elem s e of None \<Rightarrow> None | Some x \<Rightarrow> el_uid x)"

text \<open>Every element has a uid, the uids in use are those of the elements, and no two elements have
  the same.\<close>

definition uids_ok :: "elements \<Rightarrow> bool" where
  "uids_ok s \<longleftrightarrow>
     dom (es_elem s) \<subseteq> {..<es_next s} \<and> dom (uid_at s) = dom (es_elem s)
     \<and> es_uids s = ran (uid_at s) \<and> inj_on (uid_at s) (dom (uid_at s))"

lemma uids_okD:
  assumes "uids_ok s"
  shows "finite (es_uids s)" and "es_elem s (es_next s) = None" and "uid_at s (es_next s) = None"
    and "es_elem s e = Some x \<Longrightarrow> \<exists>u. el_uid x = Some u \<and> uid_at s e = Some u \<and> u \<in> es_uids s"
proof -
  from assms have "finite (dom (uid_at s))"
    unfolding uids_ok_def by (metis finite_lessThan finite_subset)
  then show "finite (es_uids s)" using assms by (simp add: uids_ok_def finite_ran)
  show none: "es_elem s (es_next s) = None" using assms by (auto simp: uids_ok_def)
  then show "uid_at s (es_next s) = None" by (simp add: uid_at_def)
  show "\<exists>u. el_uid x = Some u \<and> uid_at s e = Some u \<and> u \<in> es_uids s" if "es_elem s e = Some x"
  proof -
    from that assms have "e \<in> dom (uid_at s)" by (auto simp: uids_ok_def)
    with that obtain u where "el_uid x = Some u" "uid_at s e = Some u" by (auto simp: uid_at_def)
    with assms show ?thesis by (auto simp: uids_ok_def intro: ranI)
  qed
qed

lemma set_uid_Inr:
  assumes "set_uid e uid s = Inr s'"
  obtains x where "es_elem s e = Some x" "uid \<notin> es_uids s"
    "s' = put_elem e (x\<lparr>el_uid := Some uid\<rparr>) (free_uid (el_uid x) (s\<lparr>es_uids := insert uid (es_uids s)\<rparr>))"
  using assms
  by (auto simp: set_uid_def elem_of_def alloc_uid_def split: option.splits if_splits)

lemma set_uid_Inl:
  assumes "set_uid e uid s = Inl q" "es_elem s e \<noteq> None"
  shows "uid \<in> es_uids s"
  using assms by (auto simp: set_uid_def elem_of_def alloc_uid_def split: option.splits if_splits)

lemma create_loop_finds:
  assumes "es_elem s e \<noteq> None" "finite (es_uids s)"
      and "card (es_uids s \<inter> uid_of name ` {which..}) \<le> fuel"
  shows "\<exists>w s'. create_loop fuel name which e s = Some (w, s') \<and> which \<le> w
           \<and> (\<forall>v \<in> {which..<w}. uid_of name v \<in> es_uids s) \<and> set_uid e (uid_of name w) s = Inr s'"
  using assms(3)
proof (induction fuel arbitrary: which)
  case 0
  then have "uid_of name which \<notin> es_uids s" using assms(2) by auto
  then obtain s' where "set_uid e (uid_of name which) s = Inr s'"
    using set_uid_Inl [OF _ assms(1)] by (metis old.sum.exhaust)
  then show ?case by (simp add: create_loop.simps [of 0])
next
  case (Suc f)
  show ?case
  proof (cases "set_uid e (uid_of name which) s")
    case (Inr s')
    then show ?thesis by (simp add: create_loop.simps [of "Suc f"])
  next
    case (Inl q)
    then have used: "uid_of name which \<in> es_uids s" using set_uid_Inl assms(1) by blast
    have split: "{which..} = insert which {Suc which..}" by auto
    have "uid_of name which \<notin> uid_of name ` {Suc which..}" by (auto simp: uid_of_inject)
    then have "card (es_uids s \<inter> uid_of name ` {Suc which..}) \<le> f"
      using Suc.prems used assms(2) by (simp add: split)
    from Suc.IH [OF this] obtain w s' where
      w: "create_loop f name (Suc which) e s = Some (w, s')" "Suc which \<le> w"
         "\<forall>v \<in> {Suc which..<w}. uid_of name v \<in> es_uids s" "set_uid e (uid_of name w) s = Inr s'"
      by blast
    have "uid_of name v \<in> es_uids s" if "v \<in> {which..<w}" for v
      using that used w(3) by (cases "v = which") auto
    with w Inl show ?thesis by (simp add: create_loop.simps [of "Suc f"]) 
  qed
qed


lemma new_element_runs:
  assumes "finite (es_uids s)"
  obtains w where
    "new_element name s = Some (es_next s,
       s\<lparr>es_uids := insert (uid_of name w) (es_uids s),
         es_elem := (es_elem s)(es_next s \<mapsto>
           \<lparr>el_name = name, el_repr = name @ '' ('' @ dec w @ '')'', el_uid = Some (uid_of name w),
            el_parent = None, el_children = (\<lambda>_. None)\<rparr>),
         es_next := Suc (es_next s)\<rparr>)"
    "uid_of name w \<notin> es_uids s" "\<forall>v < w. uid_of name v \<in> es_uids s"
proof -
  define x where "x = \<lparr>el_name = name, el_repr = [], el_uid = None, el_parent = None,
    el_children = (\<lambda>_::string. None :: elem option)\<rparr>"
  define t where "t = (put_elem (es_next s) x s)\<lparr>es_next := Suc (es_next s)\<rparr>"
  have t: "es_elem t (es_next s) = Some x" "es_uids t = es_uids s"
    by (simp_all add: t_def put_elem_def)
  have "\<exists>w s'. create_loop (card (es_uids t)) name 0 (es_next s) t = Some (w, s') \<and> 0 \<le> w
          \<and> (\<forall>v \<in> {0..<w}. uid_of name v \<in> es_uids t) \<and> set_uid (es_next s) (uid_of name w) t = Inr s'"
    by (rule create_loop_finds) (use assms in \<open>auto simp: t intro: card_mono\<close>)
  then obtain w s' where w: "create_loop (card (es_uids t)) name 0 (es_next s) t = Some (w, s')"
      "\<forall>v \<in> {0..<w}. uid_of name v \<in> es_uids t" "set_uid (es_next s) (uid_of name w) t = Inr s'"
    by blast
  from w(3) have new: "uid_of name w \<notin> es_uids s"
    and s': "s' = put_elem (es_next s) (x\<lparr>el_uid := Some (uid_of name w)\<rparr>)
              (t\<lparr>es_uids := insert (uid_of name w) (es_uids s)\<rparr>)"
    by (auto elim!: set_uid_Inr simp: t free_uid_def x_def)
  have "new_element name s = Some (es_next s,
       s\<lparr>es_uids := insert (uid_of name w) (es_uids s),
         es_elem := (es_elem s)(es_next s \<mapsto>
           \<lparr>el_name = name, el_repr = name @ '' ('' @ dec w @ '')'', el_uid = Some (uid_of name w),
            el_parent = None, el_children = (\<lambda>_. None)\<rparr>),
         es_next := Suc (es_next s)\<rparr>)"
    using w(1) unfolding new_element_def Let_def x_def [symmetric] t_def [symmetric]
    by (simp add: s' put_elem_def x_def t_def)
  with new w(2) show ?thesis by (intro that) (auto simp: t)
qed

lemma new_element_Some:
  assumes "new_element name s = Some (e, s')" "finite (es_uids s)"
  obtains w where "e = es_next s" "uid_of name w \<notin> es_uids s" "\<forall>v < w. uid_of name v \<in> es_uids s"
    "s' = s\<lparr>es_uids := insert (uid_of name w) (es_uids s),
         es_elem := (es_elem s)(es_next s \<mapsto>
           \<lparr>el_name = name, el_repr = name @ '' ('' @ dec w @ '')'', el_uid = Some (uid_of name w),
            el_parent = None, el_children = (\<lambda>_. None)\<rparr>),
         es_next := Suc (es_next s)\<rparr>"
  by (rule new_element_runs [OF assms(2), of name]) (use assms(1) that in simp)

lemma uids_ok_new:
  assumes "uids_ok s" "new_element name s = Some (e, s')"
  shows "uids_ok s'"
proof -
  note D = uids_okD [OF assms(1)]
  obtain w where new: "uid_of name w \<notin> es_uids s"
    and w: "s' = s\<lparr>es_uids := insert (uid_of name w) (es_uids s),
         es_elem := (es_elem s)(es_next s \<mapsto>
           \<lparr>el_name = name, el_repr = name @ '' ('' @ dec w @ '')'', el_uid = Some (uid_of name w),
            el_parent = None, el_children = (\<lambda>_. None)\<rparr>),
         es_next := Suc (es_next s)\<rparr>"
    by (rule new_element_Some [OF assms(2) D(1)])
  then have s': "es_uids s' = insert (uid_of name w) (es_uids s)" "es_next s' = Suc (es_next s)"
      "dom (es_elem s') = insert (es_next s) (dom (es_elem s))"
      "uid_at s' = (uid_at s)(es_next s \<mapsto> uid_of name w)"
    by (auto simp: uid_at_def fun_eq_iff)
  have "inj_on (uid_at s') (dom (uid_at s'))"
    using assms(1) new D(3)
    by (auto simp: s'(4) uids_ok_def inj_on_def ran_def split: if_splits)
  with assms(1) D(3) show ?thesis
    by (auto simp: uids_ok_def s' less_Suc_eq)
qed

lemma uids_ok_rename:
  assumes "uids_ok s" "set_uid e uid s = Inr s'"
  shows "uids_ok s'"
proof -
  from assms(2) obtain x where x: "es_elem s e = Some x" "uid \<notin> es_uids s"
    and s': "s' = put_elem e (x\<lparr>el_uid := Some uid\<rparr>) (free_uid (el_uid x) (s\<lparr>es_uids := insert uid (es_uids s)\<rparr>))"
    by (rule set_uid_Inr)
  from uids_okD(4) [OF assms(1) x(1)] obtain u where
    u: "el_uid x = Some u" "uid_at s e = Some u" "u \<in> es_uids s" by blast
  have t: "es_uids s' = insert uid (es_uids s) - {u}" "es_next s' = es_next s"
      "dom (es_elem s') = dom (es_elem s)" "uid_at s' = (uid_at s)(e \<mapsto> uid)"
    using x(1) u(1) by (auto simp: s' free_uid_def put_elem_def uid_at_def fun_eq_iff)
  have inj: "inj_on (uid_at s) (dom (uid_at s))" and ran: "es_uids s = ran (uid_at s)"
    using assms(1) by (auto simp: uids_ok_def)
  have "ran (uid_at s') = es_uids s - {u} \<union> {uid}"
    using ran_map_upd_Some [OF u(2) inj, of uid] x(2) by (simp add: t(4) ran)
  moreover have "inj_on (uid_at s') (dom (uid_at s'))"
    using inj x(2) ran by (auto simp: t(4) inj_on_def ran_def split: if_splits)
  moreover have "u \<noteq> uid" using u(3) x(2) by blast
  ultimately show ?thesis
    using assms(1) u(2) by (auto simp: uids_ok_def t)
qed

lemma uids_ok_destroy:
  assumes "uids_ok s" "delete_element e s = Inr s'"
  shows "uids_ok s'"
proof -
  from assms(2) obtain x where x: "es_elem s e = Some x"
    and s': "s' = (free_uid (el_uid x) s)\<lparr>es_elem := (es_elem s)(e := None)\<rparr>"
    by (auto simp: delete_element_def elem_of_def split: option.splits)
  from uids_okD(4) [OF assms(1) x(1)] obtain u where
    u: "el_uid x = Some u" "uid_at s e = Some u" "u \<in> es_uids s" by blast
  have t: "es_uids s' = es_uids s - {u}" "es_next s' = es_next s"
      "es_elem s' = (es_elem s)(e := None)" "uid_at s' = (uid_at s)(e := None)"
    using x(1) u(1) by (auto simp: s' free_uid_def uid_at_def fun_eq_iff)
  have inj: "inj_on (uid_at s) (dom (uid_at s))" and ran: "es_uids s = ran (uid_at s)"
    using assms(1) by (auto simp: uids_ok_def)
  have "ran (uid_at s') = es_uids s - {u}"
    using inj u(2) unfolding t(4) ran ran_def inj_on_def dom_def by (auto split: if_splits) fastforce
  moreover have "inj_on (uid_at s') (dom (uid_at s'))"
    using inj by (auto simp: t(4) inj_on_def split: if_splits)
  ultimately show ?thesis
    using assms(1) by (auto simp: uids_ok_def t)
qed

text \<open>What an adoption does.\<close>

lemma adopt_element_Inr:
  assumes "adopt_element e name child s = Inr s'"
  obtains x c x' where "es_elem s e = Some x" "es_elem s child = Some c" "el_parent c = None"
    "el_children x name = None"
    "x' = (if child = e then x\<lparr>el_parent := Some e\<rparr> else x)"
    "s' = put_elem e (x'\<lparr>el_children := (el_children x)(name \<mapsto> child)\<rparr>)
            (put_elem child (c\<lparr>el_parent := Some e\<rparr>) s)"
proof -
  from assms obtain x c where xc: "es_elem s e = Some x" "es_elem s child = Some c" "el_parent c = None"
    "el_children x name = None"
    by (auto simp: adopt_element_def elem_of_def split: option.splits if_splits)
  show ?thesis
    by (rule that [of x c]) (use assms xc in \<open>auto simp: adopt_element_def elem_of_def put_elem_def split: if_splits\<close>)
qed

lemma uids_ok_adopt:
  assumes "uids_ok s" "adopt_element e name child s = Inr s'"
  shows "uids_ok s'"
proof -
  have "es_uids s' = es_uids s" "es_next s' = es_next s" "dom (es_elem s') = dom (es_elem s)"
    "uid_at s' = uid_at s"
    using assms(2) by (auto elim!: adopt_element_Inr simp: put_elem_def uid_at_def fun_eq_iff split: if_splits)
  then show ?thesis using assms(1) unfolding uids_ok_def by metis
qed

lemma tree_step_uids: "tree_step s s' \<Longrightarrow> uids_ok s \<Longrightarrow> uids_ok s'"
  by (auto elim!: tree_stepE intro: uids_ok_new uids_ok_rename uids_ok_adopt uids_ok_destroy)

lemma tree_reach_uids: "tree_reach s \<Longrightarrow> uids_ok s"
proof (induction rule: tree_reach.induct)
  case start
  have "uid_at no_elements = (\<lambda>_. None)" by (simp add: fun_eq_iff uid_at_def no_elements_def)
  then show ?case by (simp add: uids_ok_def no_elements_def dom_def)
qed (rule tree_step_uids)

section \<open>The link invariant\<close>

definition parent_at :: "elements \<Rightarrow> elem \<Rightarrow> elem option" where
  "parent_at s e = (case es_elem s e of None \<Rightarrow> None | Some x \<Rightarrow> el_parent x)"

definition child_at :: "elements \<Rightarrow> elem \<Rightarrow> string \<Rightarrow> elem option" where
  "child_at s e n = (case es_elem s e of None \<Rightarrow> None | Some x \<Rightarrow> el_children x n)"

text \<open>A child knows its parent, a parent its children, and each child by one name.\<close>

definition links_ok :: "elements \<Rightarrow> bool" where
  "links_ok s \<longleftrightarrow>
     (\<forall>e n c. child_at s e n = Some c \<longrightarrow> parent_at s c = Some e)
     \<and> (\<forall>c e. parent_at s c = Some e \<longrightarrow> (\<exists>n. child_at s e n = Some c))
     \<and> (\<forall>e n m c. child_at s e n = Some c \<longrightarrow> child_at s e m = Some c \<longrightarrow> n = m)"

lemma links_okD:
  assumes "links_ok s"
  shows "child_at s e n = Some c \<Longrightarrow> parent_at s c = Some e"
    and "parent_at s c = Some e \<Longrightarrow> \<exists>n. child_at s e n = Some c"
    and "child_at s e n = Some c \<Longrightarrow> child_at s e m = Some c \<Longrightarrow> n = m"
  using assms by (auto simp: links_ok_def)

lemma links_ok_cong: "child_at s' = child_at s \<Longrightarrow> parent_at s' = parent_at s \<Longrightarrow> links_ok s' = links_ok s"
  by (simp add: links_ok_def)

lemma live_child: "child_at s e n = Some c \<Longrightarrow> es_elem s e \<noteq> None"
  by (auto simp: child_at_def split: option.splits)

lemma live_elem: "parent_at s c = Some e \<Longrightarrow> es_elem s c \<noteq> None"
  by (auto simp: parent_at_def split: option.splits)

lemma free_uid_elem [simp]: "es_elem (free_uid u s) = es_elem s"
  by (simp add: free_uid_def split: option.splits)

lemma links_new:
  assumes "uids_ok s" "new_element name s = Some (e, s')"
  shows "child_at s' = child_at s" "parent_at s' = parent_at s"
  using uids_okD(2) [OF assms(1)]
  by (rule_tac [!] new_element_Some [OF assms(2) uids_okD(1) [OF assms(1)]])
    (simp_all add: child_at_def parent_at_def fun_eq_iff)

lemma links_rename:
  "set_uid e uid s = Inr s' \<Longrightarrow> child_at s' = child_at s"
  "set_uid e uid s = Inr s' \<Longrightarrow> parent_at s' = parent_at s"
  by (auto elim!: set_uid_Inr simp: child_at_def parent_at_def put_elem_def fun_eq_iff)

lemma links_destroy:
  assumes "es_elem s e = Some x" "el_parent x = None" "el_children x = (\<lambda>_. None)" "delete_element e s = Inr s'"
  shows "child_at s' = child_at s" "parent_at s' = parent_at s"
  using assms by (auto simp: delete_element_def elem_of_def child_at_def parent_at_def fun_eq_iff)

lemma links_adopt:
  assumes "adopt_element e name child s = Inr s'"
  shows "child_at s' = (child_at s)(e := (child_at s e)(name \<mapsto> child))"
    and "parent_at s' = (parent_at s)(child \<mapsto> e)"
    and "child_at s e name = None" and "parent_at s child = None" and "es_elem s e \<noteq> None"
  using assms
  by (auto elim!: adopt_element_Inr simp: child_at_def parent_at_def put_elem_def fun_eq_iff)

lemma links_ok_adopt:
  assumes "links_ok s" "adopt_element e name child s = Inr s'"
  shows "links_ok s'"
proof -
  note A = links_adopt [OF assms(2)] and D = links_okD [OF assms(1)]
  have fresh: "child_at s f n \<noteq> Some child" for f n using D(1) A(4) by fastforce
  have "\<exists>n. child_at s' f n = Some c" if "parent_at s' c = Some f" for c f
  proof (cases "c = child")
    case True
    with that have "f = e" by (simp add: A(2))
    with True show ?thesis by (auto simp: A(1))
  next
    case False
    with that D(2) obtain n where "child_at s f n = Some c" by (auto simp: A(2))
    then show ?thesis using A(3) by (intro exI [of _ n]) (auto simp: A(1))
  qed
  moreover have "parent_at s' c = Some f" if "child_at s' f n = Some c" for f n c
    using that D(1) fresh by (auto simp: A(1,2) split: if_splits)
  moreover have "n = m" if "child_at s' f n = Some c" "child_at s' f m = Some c" for f n m c
    using that D(3) fresh by (auto simp: A(1) split: if_splits)
  ultimately show ?thesis unfolding links_ok_def by blast
qed

lemma tree_step_links:
  assumes "tree_step s s'" "uids_ok s" "links_ok s"
  shows "links_ok s'"
  using assms(1)
proof cases
  case create
  from links_new [OF assms(2) this] assms(3) show ?thesis by (simp add: links_ok_def)
next
  case rename
  from links_rename [OF this] assms(3) show ?thesis by (simp add: links_ok_def)
next
  case adopt
  from links_ok_adopt [OF assms(3) this] show ?thesis .
next
  case destroy
  from links_destroy [OF this] assms(3) show ?thesis by (simp add: links_ok_def)
qed

lemma tree_reach_links: "tree_reach s \<Longrightarrow> links_ok s"
proof (induction rule: tree_reach.induct)
  case start
  show ?case by (simp add: links_ok_def child_at_def parent_at_def no_elements_def)
next
  case (step s s')
  then show ?case using tree_step_links tree_reach_uids by blast
qed

section \<open>Paths\<close>

text \<open>The element at the end of a list of child names.\<close>

fun follow :: "elements \<Rightarrow> elem \<Rightarrow> string list \<Rightarrow> elem option" where
  "follow s e [] = Some e"
| "follow s e (n # ns) = (case child_at s e n of None \<Rightarrow> None | Some c \<Rightarrow> follow s c ns)"

fun join_path :: "string list \<Rightarrow> string" where
  "join_path [] = []"
| "join_path [n] = n"
| "join_path (n # m # ns) = n @ CHR ''/'' # join_path (m # ns)"

definition plain :: "string \<Rightarrow> bool" where
  "plain n \<longleftrightarrow> n \<noteq> [] \<and> n \<noteq> ''.'' \<and> n \<noteq> ''..'' \<and> CHR ''/'' \<notin> set n"

lemma split_path_slash: "CHR ''/'' \<notin> set n \<Longrightarrow> split_path (n @ CHR ''/'' # cs) = n # split_path cs"
  by (induction n) auto

lemma split_path_node: "CHR ''/'' \<notin> set n \<Longrightarrow> split_path n = [n]"
  by (induction n) auto

lemma split_join: "ns \<noteq> [] \<Longrightarrow> \<forall>n \<in> set ns. CHR ''/'' \<notin> set n \<Longrightarrow> split_path (join_path ns) = ns"
  by (induction ns rule: join_path.induct) (auto simp: split_path_slash split_path_node)

lemma walk_node_plain:
  assumes "plain n" "es_elem s e \<noteq> None"
  shows "walk_node s path first n e = Some (case child_at s e n of
     None \<Rightarrow> Inl (Invalid_Argument (''Element tree lookup fail - no such path: '' @ path))
   | Some c \<Rightarrow> Inr c)"
  using assms by (auto simp: walk_node_def plain_def elem_of_def child_at_def)

lemma live_parent: "links_ok s \<Longrightarrow> parent_at s c = Some e \<Longrightarrow> es_elem s e \<noteq> None"
  using links_okD(2) live_child by blast

lemma live_below: "links_ok s \<Longrightarrow> child_at s e n = Some c \<Longrightarrow> es_elem s c \<noteq> None"
  using links_okD(1) live_elem by blast

lemma walk_down:
  assumes "links_ok s" "\<forall>n \<in> set ns. plain n" "es_elem s e \<noteq> None"
  shows "walk s path first ns e = Some (case follow s e ns of
     None \<Rightarrow> Inl (Invalid_Argument (''Element tree lookup fail - no such path: '' @ path))
   | Some c \<Rightarrow> Inr c)"
  using assms(2,3)
proof (induction ns arbitrary: e first)
  case (Cons n ns)
  then show ?case
    using live_below [OF assms(1), of e n]
    by (cases "child_at s e n") (simp_all add: walk_node_plain)
qed simp

lemma walk_append:
  "walk s path first (ns @ ms) e = (case walk s path first ns e of
     None \<Rightarrow> None | Some (Inl x) \<Rightarrow> Some (Inl x)
   | Some (Inr c) \<Rightarrow> walk s path (first \<and> ns = []) ms c)"
  by (induction ns arbitrary: e first) (auto split: option.splits sum.splits)

lemma walk_node_up:
  assumes "parent_at s c = Some e"
  shows "walk_node s path first ''..'' c = Some (Inr e)"
  using assms by (auto simp: walk_node_def elem_of_def parent_at_def split: option.splits)

lemma follow_append: "follow s e (ns @ ms) = (case follow s e ns of None \<Rightarrow> None | Some c \<Rightarrow> follow s c ms)"
  by (induction ns arbitrary: e) (auto split: option.splits)

lemma walk_up:
  assumes "links_ok s" "follow s e ns = Some c"
  shows "walk s path first (replicate (length ns) ''..'') c = Some (Inr e)"
  using assms(2)
proof (induction ns arbitrary: c first rule: rev_induct)
  case (snoc n ns)
  then obtain d where d: "follow s e ns = Some d" "child_at s d n = Some c"
    by (auto simp: follow_append split: option.splits)
  then have "parent_at s c = Some d" using links_okD(1) [OF assms(1)] by blast
  then show ?case using snoc.IH [OF d(1)] by (simp add: walk_node_up)
qed simp

lemma find_root_up:
  assumes "links_ok s" "follow s r ns = Some c" "es_elem s r \<noteq> None" "parent_at s r = None"
  shows "find_root s c = Some (Inr r)"
  using assms(2)
proof (induction ns arbitrary: c rule: rev_induct)
  case Nil
  then show ?case using assms(3,4) by (subst find_root.simps) (auto simp: parent_at_def)
next
  case (snoc n ns)
  then obtain d where d: "follow s r ns = Some d" "child_at s d n = Some c"
    by (auto simp: follow_append split: option.splits)
  then have "parent_at s c = Some d" using links_okD(1) [OF assms(1)] by blast
  then show ?case
    using snoc.IH [OF d(1)] by (subst find_root.simps) (auto simp: parent_at_def split: option.splits)
qed

section \<open>Properties\<close>

text \<open>A parent \<open>a\<close> and its child of the same name, adopted as \<open>k\<close>.\<close>

definition sample_tree :: elements where
  "sample_tree =
     (let r = (\<lambda>u p c. \<lparr>el_name = ''a'', el_repr = ''a ('' @ dec u @ '')'', el_uid = Some (uid_of ''a'' u),
               el_parent = p, el_children = c\<rparr>)
      in \<lparr>es_uids = {uid_of ''a'' 1, uid_of ''a'' 0},
          es_elem = [0 \<mapsto> r 0 None [''k'' \<mapsto> 1], 1 \<mapsto> r 1 (Some 0) (\<lambda>_. None)],
          es_next = 2\<rparr>)"

lemma sample_tree_reach: "tree_reach sample_tree"
proof -
  define r where "r = (\<lambda>u. \<lparr>el_name = ''a'', el_repr = ''a ('' @ dec u @ '')'',
    el_uid = Some (uid_of ''a'' u), el_parent = None, el_children = (\<lambda>_::string. None :: elem option)\<rparr>)"
  define s1 where "s1 = \<lparr>es_uids = {uid_of ''a'' 0}, es_elem = [0 \<mapsto> r 0], es_next = 1\<rparr>"
  define s2 where "s2 = \<lparr>es_uids = {uid_of ''a'' 1, uid_of ''a'' 0}, es_elem = [0 \<mapsto> r 0, 1 \<mapsto> r 1], es_next = 2\<rparr>"
  have "new_element ''a'' no_elements = Some (0, s1)"
    by (simp add: new_element_def create_loop.simps set_uid_def alloc_uid_def free_uid_def elem_of_def
        put_elem_def no_elements_def s1_def r_def)
  then have 1: "tree_reach s1" by (rule tree_reach.step [OF tree_reach.start tree_step.create])
  have "new_element ''a'' s1 = Some (1, s2)"
    by (simp add: new_element_def create_loop.simps set_uid_def alloc_uid_def free_uid_def elem_of_def
        put_elem_def s1_def s2_def r_def uid_of_inject)
  then have 2: "tree_reach s2" by (rule tree_reach.step [OF 1 tree_step.create])
  have "adopt_element 0 ''k'' 1 s2 = Inr sample_tree"
    by (simp add: adopt_element_def elem_of_def put_elem_def s2_def r_def sample_tree_def fun_eq_iff)
  then show ?thesis by (rule tree_reach.step [OF 2 tree_step.adopt])
qed

text \<open>C24 In every state the program's elements can reach, each element has a uid, the set of uids in
  use holds exactly the uids of the elements, and two elements with the same uid are the same: the
  creation, the renaming, the adoption and the destruction of elements leak no uid and share none.\<close>

theorem element_uids_unique:
  assumes "tree_reach s"
  shows "es_uids s = {u. \<exists>e. get_uid e s = Inr u}
    \<and> (\<forall>e. es_elem s e \<noteq> None \<longrightarrow> (\<exists>u. get_uid e s = Inr u))
    \<and> (\<forall>e f u. get_uid e s = Inr u \<longrightarrow> get_uid f s = Inr u \<longrightarrow> e = f)"
proof -
  have ok: "uids_ok s" using assms by (rule tree_reach_uids)
  have get: "get_uid e s = Inr u \<longleftrightarrow> uid_at s e = Some u" for e u
    by (auto simp: get_uid_def elem_of_def uid_at_def split: option.splits)
  have "es_uids s = {u. \<exists>e. get_uid e s = Inr u}"
    using ok by (auto simp: get uids_ok_def ran_def)
  moreover have "\<exists>u. get_uid e s = Inr u" if "es_elem s e \<noteq> None" for e
    using that uids_okD(4) [OF ok] by (auto simp: get)
  moreover have "e = f" if "get_uid e s = Inr u" "get_uid f s = Inr u" for e f u
    using that ok by (intro inj_onD [of "uid_at s" "dom (uid_at s)" e f]) (auto simp: get uids_ok_def)
  ultimately show ?thesis by blast
qed

theorem element_uids_unique_witness:
  "es_uids sample_tree = {u. \<exists>e. get_uid e sample_tree = Inr u}
   \<and> get_uid 1 sample_tree = Inr (uid_of ''a'' 1) \<and> get_uid 0 sample_tree \<noteq> get_uid 1 sample_tree"
proof -
  have g: "get_uid 1 sample_tree = Inr (uid_of ''a'' 1)"
    by (simp add: get_uid_def elem_of_def sample_tree_def)
  moreover from this have "get_uid 0 sample_tree \<noteq> get_uid 1 sample_tree"
    using element_uids_unique [OF sample_tree_reach] by (metis zero_neq_one)
  ultimately show ?thesis using element_uids_unique [OF sample_tree_reach] by blast
qed





text \<open>\<open>adopt_element\<close> does not look for cycles: an element without a parent can adopt itself,
  and then every lookup of an absolute path that starts at it never returns.\<close>

theorem self_adoption_never_returns:
  assumes "es_elem s e = Some x" "el_parent x = None" "el_children x name = None"
  shows "\<exists>s'. adopt_element e name e s = Inr s' \<and> locate_element e (CHR ''/'' # path) s' = None"
proof -
  obtain s' where s': "adopt_element e name e s = Inr s'"
    using assms by (simp add: adopt_element_def elem_of_def put_elem_def)
  have "parent_at s' e = Some e" by (simp add: links_adopt(2) [OF s'])
  then obtain y where y: "es_elem s' e = Some y" "el_parent y = Some e"
    by (auto simp: parent_at_def split: option.splits)
  have hang: "t = s' \<longrightarrow> f = e \<longrightarrow> False" if "find_root t f = Some q" for t f q
  proof (rule find_root.raw_induct [where P = "\<lambda>t f q. t = s' \<longrightarrow> f = e \<longrightarrow> False", OF _ that])
    fix g :: "elements \<Rightarrow> elem \<Rightarrow> (exn + elem) option" and t f q
    assume IH: "\<And>t f q. g t f = Some q \<Longrightarrow> t = s' \<longrightarrow> f = e \<longrightarrow> False"
      and "(case es_elem t f of None \<Rightarrow> Some (Inl (Undefined ''null element''))
            | Some x \<Rightarrow> (case el_parent x of None \<Rightarrow> Some (Inr f) | Some p \<Rightarrow> g t p)) = Some q"
    then show "t = s' \<longrightarrow> f = e \<longrightarrow> False" using y by auto metis
  qed
  then have "find_root s' e = None" by (metis option.exhaust)
  with s' show ?thesis by (auto simp: locate_element_def walk_node_def)
qed

theorem self_adoption_never_returns_witness:
  "\<exists>s'. adopt_element 0 ''b'' 0 sample_tree = Inr s' \<and> locate_element 0 ''/k'' s' = None"
  using self_adoption_never_returns [of sample_tree 0 _ "''b''" "''k''"]
  by (simp add: sample_tree_def)

end
