(* ===== verification/Registry.thy ===== *)
theory Registry
  imports Element_Tree "HOL-Library.List_Lexorder" "HOL-Library.Char_ord"
begin

text \<open>
  lib/callable.cpp, lib/factory.cpp and the templates of include/gras/detail/callable.hpp and
  include/gras/detail/factory.hpp: the tables of the methods an object registers by name and of the
  factory functions of the process, and the calls through them.

  The templates are expanded for 0 to 10 arguments; a model of them takes the list of the parameter
  types. The values are those of PMC, a library that is not part of the repository: its conversion
  \<open>safe_as\<close> and its null value are parameters.
\<close>

section \<open>Name tables\<close>

text \<open>A \<open>std::map\<close> from strings: the pairs in the order of their keys.\<close>

type_synonym 'e table = "(string \<times> 'e) list"

definition tab_ok :: "'e table \<Rightarrow> bool" where
  "tab_ok t \<longleftrightarrow> sorted (map fst t) \<and> distinct (map fst t)"

definition tab_put :: "string \<Rightarrow> 'e \<Rightarrow> 'e table \<Rightarrow> 'e table" where
  "tab_put n e t = insort_key fst (n, e) (filter (\<lambda>p. fst p \<noteq> n) t)"

definition tab_erase :: "string \<Rightarrow> 'e table \<Rightarrow> 'e table" where
  "tab_erase n t = filter (\<lambda>p. fst p \<noteq> n) t"

lemma set_tab_put: "set (tab_put n e t) = insert (n, e) {p \<in> set t. fst p \<noteq> n}"
  by (auto simp: tab_put_def set_insort_key)

lemma distinct_map_filter: "distinct (map f xs) \<Longrightarrow> distinct (map f (filter P xs))"
  by (induction xs) auto

lemma distinct_insort_key:
  "distinct (map fst t) \<Longrightarrow> n \<notin> fst ` set t \<Longrightarrow> distinct (map fst (insort_key fst (n, e) t))"
  by (induction t) (auto simp: set_insort_key)

lemma tab_ok_erase: "tab_ok t \<Longrightarrow> tab_ok (tab_erase n t)"
  by (simp add: tab_ok_def tab_erase_def sorted_filter distinct_map_filter)

lemma tab_ok_put: "tab_ok t \<Longrightarrow> tab_ok (tab_put n e t)"
  unfolding tab_ok_def tab_put_def
  by (auto simp: sorted_insort_key sorted_filter intro!: distinct_insort_key distinct_map_filter)

lemma map_of_erase: "map_of (tab_erase n t) = (map_of t)(n := None)"
  by (induction t) (auto simp: tab_erase_def fun_eq_iff)

lemma map_of_insort: "n \<notin> fst ` set t \<Longrightarrow> map_of (insort_key fst (n, e) t) = (map_of t)(n \<mapsto> e)"
  by (induction t) (auto simp: fun_eq_iff)

lemma map_of_put: "map_of (tab_put n e t) = (map_of t)(n \<mapsto> e)"
  by (simp add: tab_put_def map_of_insort tab_erase_def [symmetric] map_of_erase image_iff)
    (simp add: tab_erase_def map_of_insort image_iff map_of_erase [unfolded tab_erase_def])

lemma tab_ok_ext:
  assumes "tab_ok t" "tab_ok u" "map_of t = map_of u"
  shows "t = u"
proof -
  have "set t = set u"
    using assms map_of_inject_set unfolding tab_ok_def by metis
  then show ?thesis
    using assms(1,2) map_sorted_distinct_set_unique [of fst t u]
    by (auto simp: tab_ok_def inj_on_def distinct_map eq_key_imp_eq_value)
qed

text \<open>What the two registries rely on.\<close>

locale name_map =
  fixes ok :: "'t \<Rightarrow> bool"
    and find :: "'t \<Rightarrow> string \<Rightarrow> 'e option"
    and put :: "string \<Rightarrow> 'e \<Rightarrow> 't \<Rightarrow> 't"
    and erase :: "string \<Rightarrow> 't \<Rightarrow> 't"
  assumes ok_put: "ok t \<Longrightarrow> ok (put n e t)"
    and ok_erase: "ok t \<Longrightarrow> ok (erase n t)"
    and find_put: "find (put n e t) = (find t)(n \<mapsto> e)"
    and find_erase: "find (erase n t) = (find t)(n := None)"
    and same: "ok t \<Longrightarrow> ok u \<Longrightarrow> find t = find u \<Longrightarrow> t = u"
begin

lemma erase_put: "ok t \<Longrightarrow> find t n = None \<Longrightarrow> erase n (put n e t) = t"
  by (intro same ok_erase ok_put) (auto simp: find_put find_erase fun_eq_iff)

lemma put_put: "ok t \<Longrightarrow> put n e (put n f t) = put n e t"
  by (intro same ok_put) (auto simp: find_put)

lemma put_found: "find (put n e t) n = Some e" and put_other: "m \<noteq> n \<Longrightarrow> find (put n e t) m = find t m"
  by (simp_all add: find_put)

end

interpretation tab: name_map tab_ok map_of tab_put tab_erase
  by unfold_locales (simp_all add: tab_ok_put tab_ok_erase map_of_put map_of_erase tab_ok_ext)

section \<open>Callable entries\<close>

text \<open>A registered member function on an object of type \<open>'s\<close>, with or without a return value. An
  exception may leave it after it has changed the object.\<close>

datatype ('v, 's) member_fcn =
    Returns "'s \<Rightarrow> 'v list \<Rightarrow> (exn + 'v) \<times> 's"
  | Returns_Void "'s \<Rightarrow> 'v list \<Rightarrow> (exn + unit) \<times> 's"

record ('ty, 'v, 's) entry =
  en_types :: "'ty list"
  en_fcn :: "('v, 's) member_fcn"

definition arg_check :: "string \<Rightarrow> 'v list \<Rightarrow> nat \<Rightarrow> exn + unit" where
  "arg_check kind args nargs =
     (if length args \<noteq> nargs
      then Inl (Runtime_Error (kind @ '' expected '' @ dec nargs @ '' arguments but got '' @ dec (length args)))
      else Inr ())"

text \<open>The arguments \<open>a[i].safe_as<Ai>()\<close>, from the first to the last; in C++ the order is open.\<close>

fun convert :: "('ty \<Rightarrow> 'v \<Rightarrow> exn + 'v) \<Rightarrow> 'ty list \<Rightarrow> 'v list \<Rightarrow> exn + 'v list" where
  "convert safe_as [] a = Inr []"
| "convert safe_as (t # ts) [] = Inl (Undefined ''argument index'')"
| "convert safe_as (t # ts) (v # a) =
     bindE (safe_as t v) (\<lambda>w. bindE (convert safe_as ts a) (\<lambda>ws. Inr (w # ws)))"

definition entry_call :: "('ty \<Rightarrow> 'v \<Rightarrow> exn + 'v) \<Rightarrow> 'v \<Rightarrow> ('ty, 'v, 's) entry \<Rightarrow> 'v list \<Rightarrow> 's \<Rightarrow> (exn + 'v) \<times> 's" where
  "entry_call safe_as null e a s =
     (case bindE (arg_check ''callable'' a (length (en_types e))) (\<lambda>_. convert safe_as (en_types e) a) of
        Inl x \<Rightarrow> (Inl x, s)
      | Inr ws \<Rightarrow> (case en_fcn e of
            Returns f \<Rightarrow> f s ws
          | Returns_Void f \<Rightarrow> (case f s ws of
                (Inl x, s) \<Rightarrow> (Inl x, s)
              | (Inr _, s) \<Rightarrow> (Inr null, s))))"

section \<open>Callable\<close>

type_synonym ('ty, 'v, 's) registry = "('ty, 'v, 's) entry table"

definition get_registered_names :: "('ty, 'v, 's) registry \<Rightarrow> string list" where
  "get_registered_names cr = map fst cr"

definition unregister_call :: "string \<Rightarrow> ('ty, 'v, 's) registry \<Rightarrow> exn + ('ty, 'v, 's) registry" where
  "unregister_call name cr =
     (if map_of cr name = None
      then Inl (Invalid_Argument (''Callable - no method registered for name: '' @ name))
      else Inr (tab_erase name cr))"

definition register_entry :: "string \<Rightarrow> ('ty, 'v, 's) entry \<Rightarrow> ('ty, 'v, 's) registry \<Rightarrow> exn + ('ty, 'v, 's) registry" where
  "register_entry name entry cr =
     (if map_of cr name \<noteq> None
      then Inl (Invalid_Argument (''Callable - method already registered for name: '' @ name))
      else Inr (tab_put name entry cr))"

definition register_call :: "string \<Rightarrow> 'ty list \<Rightarrow> ('v, 's) member_fcn \<Rightarrow> ('ty, 'v, 's) registry \<Rightarrow> exn + ('ty, 'v, 's) registry" where
  "register_call name types fcn cr = register_entry name \<lparr>en_types = types, en_fcn = fcn\<rparr> cr"

definition callable_handle_call ::
  "('ty \<Rightarrow> 'v \<Rightarrow> exn + 'v) \<Rightarrow> 'v \<Rightarrow> ('ty, 'v, 's) registry \<Rightarrow> string \<Rightarrow> 'v list \<Rightarrow> 's \<Rightarrow> (exn + 'v) \<times> 's" where
  "callable_handle_call safe_as null cr name args s =
     (case map_of cr name of
        None \<Rightarrow> (Inl (Invalid_Argument (''Callable - no method registered for name: '' @ name)), s)
      | Some e \<Rightarrow> entry_call safe_as null e args s)"

text \<open>The calls \<open>x\<close>: for the return type \<open>ty\<close>, and without a return value. \<open>handle\<close> is the virtual
  \<open>_handle_call\<close> of the object.\<close>

definition x_call :: "('ty \<Rightarrow> 'v \<Rightarrow> exn + 'v) \<Rightarrow> (string \<Rightarrow> 'v list \<Rightarrow> 's \<Rightarrow> (exn + 'v) \<times> 's)
    \<Rightarrow> 'ty \<Rightarrow> string \<Rightarrow> 'v list \<Rightarrow> 's \<Rightarrow> (exn + 'v) \<times> 's" where
  "x_call safe_as handle ty name args s =
     (case handle name args s of (r, s) \<Rightarrow> (bindE r (safe_as ty), s))"

definition x_void :: "(string \<Rightarrow> 'v list \<Rightarrow> 's \<Rightarrow> (exn + 'v) \<times> 's) \<Rightarrow> string \<Rightarrow> 'v list \<Rightarrow> 's \<Rightarrow> (exn + unit) \<times> 's" where
  "x_void handle name args s =
     (case handle name args s of (r, s) \<Rightarrow> (bindE r (\<lambda>_. Inr ()), s))"

section \<open>Factory\<close>

text \<open>A factory function on the world \<open>'w\<close>: it ends with an element or an exception, or makes an
  element through the factory and goes on with the result.\<close>

datatype ('v, 'w) maker =
    Made "exn + elem" 'w
  | Make 'w string "'v list" "exn + elem \<Rightarrow> 'w \<Rightarrow> ('v, 'w) maker"

record ('ty, 'v, 'w) factory_entry =
  fe_types :: "'ty list"
  fe_fcn :: "'v list \<Rightarrow> 'w \<Rightarrow> ('v, 'w) maker"

text \<open>The process-wide table, the mutex, and the warnings printed.\<close>

record ('ty, 'v, 'w) factory =
  fa_table :: "('ty, 'v, 'w) factory_entry table"
  fa_locked :: bool
  fa_warnings :: "string list"

text \<open>\<open>boost::mutex\<close> is not recursive: a thread that locks it again waits for itself. \<open>None\<close> is such
  a wait without end.\<close>

definition locked :: "('ty, 'v, 'w) factory \<Rightarrow> (('ty, 'v, 'w) factory \<Rightarrow> 'r option) \<Rightarrow> 'r option" where
  "locked fa k = (if fa_locked fa then None else k (fa\<lparr>fa_locked := True\<rparr>))"

definition register_factory :: "string \<Rightarrow> 'ty list \<Rightarrow> ('v list \<Rightarrow> 'w \<Rightarrow> ('v, 'w) maker)
    \<Rightarrow> ('ty, 'v, 'w) factory \<Rightarrow> ('ty, 'v, 'w) factory option" where
  "register_factory path types fcn fa = locked fa (\<lambda>fa.
     let fa = (if map_of (fa_table fa) path \<noteq> None
               then fa\<lparr>fa_warnings := fa_warnings fa
                        @ [''Warning: Factory - function already registered for path: '' @ path]\<rparr>
               else fa)
     in Some (fa\<lparr>fa_table := tab_put path \<lparr>fe_types = types, fe_fcn = fcn\<rparr> (fa_table fa), fa_locked := False\<rparr>))"

text \<open>\<open>entry_make\<close> with the factory as it is while the function runs.\<close>

definition entry_make :: "('ty \<Rightarrow> 'v \<Rightarrow> exn + 'v) \<Rightarrow> ('ty, 'v, 'w) factory_entry \<Rightarrow> 'v list \<Rightarrow> 'w \<Rightarrow> ('v, 'w) maker" where
  "entry_make safe_as e a w =
     (case bindE (arg_check ''factory'' a (length (fe_types e))) (\<lambda>_. convert safe_as (fe_types e) a) of
        Inl x \<Rightarrow> Made (Inl x) w
      | Inr ws \<Rightarrow> fe_fcn e ws w)"

text \<open>\<open>gras::make\<close> packs the arguments and calls \<open>_handle_make\<close>, which holds the mutex while the
  function runs: what the function does to the factory happens under the mutex.\<close>

definition handle_make :: "('ty \<Rightarrow> 'v \<Rightarrow> exn + 'v) \<Rightarrow> string \<Rightarrow> 'v list \<Rightarrow> ('ty, 'v, 'w) factory \<Rightarrow> 'w
    \<Rightarrow> (('v, 'w) maker \<Rightarrow> ('ty, 'v, 'w) factory \<Rightarrow> ((exn + elem) \<times> 'w \<times> ('ty, 'v, 'w) factory) option)
    \<Rightarrow> ((exn + elem) \<times> 'w \<times> ('ty, 'v, 'w) factory) option" where
  "handle_make safe_as path args fa w run = locked fa (\<lambda>fa.
     case (case map_of (fa_table fa) path of
             None \<Rightarrow> Some (Inl (Invalid_Argument (''Factory - no function registered for path: '' @ path)), w, fa)
           | Some e \<Rightarrow> run (entry_make safe_as e args w) fa) of
       None \<Rightarrow> None
     | Some (r, w, fa) \<Rightarrow> Some (r, w, fa\<lparr>fa_locked := False\<rparr>))"

lemma handle_make_mono [partial_function_mono]:
  fixes run :: "('d \<Rightarrow> 'e option) \<Rightarrow> ('v, 'w) maker \<Rightarrow> ('ty, 'v, 'w) factory
    \<Rightarrow> ((exn + elem) \<times> 'w \<times> ('ty, 'v, 'w) factory) option"
  assumes "\<And>m fa. monotone option.le_fun option_ord (\<lambda>f. run f m fa)"
  shows "monotone option.le_fun option_ord (\<lambda>f. handle_make safe_as path args fa w (run f))"
proof (rule monotoneI)
  fix f g :: "'d \<Rightarrow> 'e option"
  assume "option.le_fun f g"
  then have run: "option_ord (run f m fa) (run g m fa)" for m fa
    using assms by (simp add: monotone_def)
  show "option_ord (handle_make safe_as path args fa w (run f)) (handle_make safe_as path args fa w (run g))"
  proof (cases "map_of (fa_table fa) path")
    case (Some e)
    with run [of "entry_make safe_as e args w" "fa\<lparr>fa_locked := True\<rparr>"] show ?thesis
      by (auto simp: handle_make_def locked_def flat_ord_def)
  qed (simp add: handle_make_def locked_def flat_ord_def)
qed

text \<open>A factory function runs; its own calls go through \<open>_handle_make\<close> again.\<close>

partial_function (option) run_maker :: "('ty \<Rightarrow> 'v \<Rightarrow> exn + 'v) \<Rightarrow> ('v, 'w) maker \<Rightarrow> ('ty, 'v, 'w) factory
    \<Rightarrow> ((exn + elem) \<times> 'w \<times> ('ty, 'v, 'w) factory) option" where
  "run_maker safe_as m fa =
     (case m of
        Made r w \<Rightarrow> Some (r, w, fa)
      | Make w path args k \<Rightarrow>
          Option.bind (handle_make safe_as path args fa w (run_maker safe_as))
            (\<lambda>(r, w, fa). run_maker safe_as (k r w) fa))"

definition make :: "('ty \<Rightarrow> 'v \<Rightarrow> exn + 'v) \<Rightarrow> string \<Rightarrow> 'v list \<Rightarrow> ('ty, 'v, 'w) factory \<Rightarrow> 'w
    \<Rightarrow> ((exn + elem) \<times> 'w \<times> ('ty, 'v, 'w) factory) option" where
  "make safe_as path args fa w = handle_make safe_as path args fa w (run_maker safe_as)"

section \<open>Facts\<close>

lemma names_tab_put:
  assumes "tab_ok t"
  shows "map fst (tab_put n e t) = sorted_list_of_set (insert n (set (map fst t)))"
proof -
  have "tab_ok (tab_put n e t)" using assms by (rule tab_ok_put)
  moreover have "set (map fst (tab_put n e t)) = insert n (set (map fst t))"
    by (force simp: set_tab_put)
  ultimately show ?thesis
    by (metis sorted_list_of_set.idem_if_sorted_distinct tab_ok_def)
qed

section \<open>Properties\<close>


text \<open>Values that are numbers or strings, and a method that adds its two arguments to the object.\<close>

definition sample_safe_as :: "bool \<Rightarrow> int + string \<Rightarrow> exn + (int + string)" where
  "sample_safe_as num v = (if num = isl v then Inr v else Inl (Runtime_Error ''conversion''))"

definition sample_add :: "(int + string, int) member_fcn" where
  "sample_add = Returns (\<lambda>s ws. (Inr (ws ! 0), s + projl (ws ! 0) + projl (ws ! 1)))"


text \<open>\<open>make\<close> runs the function last registered for the path, with the arguments converted, and
  frees the mutex; the next call finds the factory as it was. Registering a path again replaces the
  function and warns.\<close>

theorem factory_makes:
  assumes "\<not> fa_locked fa" and "register_factory path types fcn fa = Some fa'"
      and "length args = length types" and "convert safe_as types args = Inr ws" and "fcn ws w = Made r w'"
  shows "make safe_as path args fa' w = Some (r, w', fa') \<and> \<not> fa_locked fa'
    \<and> map_of (fa_table fa') = (map_of (fa_table fa))(path \<mapsto> \<lparr>fe_types = types, fe_fcn = fcn\<rparr>)
    \<and> fa_warnings fa' = fa_warnings fa
      @ (if map_of (fa_table fa) path = None then []
         else [''Warning: Factory - function already registered for path: '' @ path])"
proof -
  from assms(1,2) have fa': "fa' = fa\<lparr>fa_warnings := fa_warnings fa
      @ (if map_of (fa_table fa) path = None then []
         else [''Warning: Factory - function already registered for path: '' @ path]),
      fa_table := tab_put path \<lparr>fe_types = types, fe_fcn = fcn\<rparr> (fa_table fa), fa_locked := False\<rparr>"
    by (auto simp: register_factory_def locked_def Let_def split: if_splits)
  then have free: "\<not> fa_locked fa'"
    and tab: "map_of (fa_table fa') = (map_of (fa_table fa))(path \<mapsto> \<lparr>fe_types = types, fe_fcn = fcn\<rparr>)"
    and warned: "fa_warnings fa' = fa_warnings fa
      @ (if map_of (fa_table fa) path = None then []
         else [''Warning: Factory - function already registered for path: '' @ path])"
    by (simp_all add: map_of_put)
  have "fa'\<lparr>fa_locked := False\<rparr> = fa'" using free by simp
  then have "make safe_as path args fa' w = Some (r, w', fa')"
    using assms(3-5) free
    by (simp add: make_def handle_make_def locked_def tab entry_make_def arg_check_def run_maker.simps)
  then show ?thesis using free tab warned by blast
qed

text \<open>A factory function that itself makes an element through the factory never returns: the mutex
  of the table is held while the function runs, and is locked again by the same thread.\<close>

theorem nested_make_never_returns:
  assumes "\<not> fa_locked fa" and "map_of (fa_table fa) path = Some e"
      and "entry_make safe_as e args w = Make w' inner args' k"
  shows "make safe_as path args fa w = None"
  using assms
  by (simp add: make_def handle_make_def locked_def) (simp add: run_maker.simps handle_make_def locked_def)

definition sample_factory :: "(unit, unit, nat) factory" where
  "sample_factory = \<lparr>fa_table = [], fa_locked = False, fa_warnings = []\<rparr>"

lemma factory_makes_witness:
  "\<exists>fa. register_factory ''/t/b'' [] (\<lambda>_ w. Made (Inr w) (w + 1)) sample_factory = Some fa
     \<and> make (\<lambda>_. Inr) ''/t/b'' [] fa 4 = Some (Inr 4, 5, fa)"
proof -
  obtain fa where fa: "register_factory ''/t/b'' [] (\<lambda>_ w. Made (Inr w) (w + 1)) sample_factory = Some fa"
    by (simp add: register_factory_def sample_factory_def locked_def)
  from factory_makes [OF _ fa, of "[]" "\<lambda>_. Inr" "[]" 4 "Inr 4" 5] fa
  show ?thesis by (simp add: sample_factory_def)
qed

lemma nested_make_never_returns_witness:
  "make (\<lambda>_. Inr) ''/h'' [] (sample_factory\<lparr>fa_table :=
     [(''/h'', \<lparr>fe_types = [], fe_fcn = (\<lambda>_ w. Make w ''/t/b'' [] (\<lambda>r w. Made r w))\<rparr>)]\<rparr>) 0 = None"
proof -
  let ?e = "\<lparr>fe_types = [], fe_fcn = (\<lambda>_ w. Make w ''/t/b'' [] (\<lambda>r w. Made r w))\<rparr> :: (unit, unit, nat) factory_entry"
  let ?fa = "sample_factory\<lparr>fa_table := [(''/h'', ?e)]\<rparr>"
  have "entry_make (\<lambda>_. Inr) ?e [] 0 = Make 0 ''/t/b'' [] Made"
    by (simp add: entry_make_def arg_check_def)
  then show ?thesis
    by (intro nested_make_never_returns [of ?fa _ ?e]) (simp_all add: sample_factory_def)
qed

end
