(* ===== verification/Serialize.thy ===== *)
theory Serialize
  imports Block_State Time_Tag
begin

text \<open>
  lib/serialize_types.cpp and lib/tags.cpp: the message types and what boost serialization writes and
  reads for them. An archive is the list of the primitive values in it. PMC's own serialization of a
  PMC value is a library; the value is one item of the archive.
\<close>

section \<open>Archives\<close>

datatype item =
    Bool_Item bool
  | Size_Item nat
  | Byte_Item byte
  | Int_Item int
  | Pmc_Item pmc

text \<open>Reading anything else than what was written throws.\<close>

definition bad_archive :: exn where
  "bad_archive = Runtime_Error ''archive exception''"

fun get_bool :: "item list \<Rightarrow> exn + bool \<times> item list" where
  "get_bool (Bool_Item x # ar) = Inr (x, ar)"
| "get_bool ar = Inl bad_archive"

fun get_size :: "item list \<Rightarrow> exn + nat \<times> item list" where
  "get_size (Size_Item x # ar) = Inr (x, ar)"
| "get_size ar = Inl bad_archive"

fun get_int :: "item list \<Rightarrow> exn + int \<times> item list" where
  "get_int (Int_Item x # ar) = Inr (x, ar)"
| "get_int ar = Inl bad_archive"

fun get_pmc :: "item list \<Rightarrow> exn + pmc \<times> item list" where
  "get_pmc (Pmc_Item x # ar) = Inr (x, ar)"
| "get_pmc ar = Inl bad_archive"

section \<open>Buffers\<close>

definition save_sbuffer :: "memory \<Rightarrow> sbuffer \<Rightarrow> item list" where
  "save_sbuffer m b =
     (if \<not> sb_nonnull b then [Bool_Item True]
      else Bool_Item False # Size_Item (sb_length b) # map Byte_Item (bytes m (sb_get b 0) (sb_length b)))"

fun load_bytes :: "nat \<Rightarrow> nat \<Rightarrow> memory \<Rightarrow> item list \<Rightarrow> exn + memory \<times> item list" where
  "load_bytes 0 ptr m ar = Inr (m, ar)"
| "load_bytes (Suc n) ptr m (Byte_Item x # ar) = load_bytes n (ptr + 1) (m(ptr := x)) ar"
| "load_bytes (Suc n) ptr m ar = Inl bad_archive"

text \<open>\<open>b.reset()\<close> drops the impl; the fields of the handle stay.\<close>

definition load_sbuffer :: "(int \<Rightarrow> nat \<Rightarrow> nat) \<Rightarrow> sbuffer \<Rightarrow> item list \<Rightarrow> world \<Rightarrow> exn + sbuffer \<times> item list \<times> world" where
  "load_sbuffer numa b ar w =
     bindE (get_bool ar) (\<lambda>(null, ar).
       if null then Inr (b\<lparr>sb_impl := 0\<rparr>, ar, w)
       else bindE (get_size ar) (\<lambda>(len, ar).
         let (b, w) = make_sbuffer numa (default_sbuffer_config\<lparr>cfg_length := len\<rparr>) w
         in bindE (load_bytes len (sb_get b 0) (w_mem w) ar) (\<lambda>(m, ar).
              Inr (b, ar, w\<lparr>w_mem := m\<rparr>))))"

section \<open>Tags and messages\<close>

record stream_tag =
  stg_key :: pmc
  stg_val :: pmc
  stg_src :: pmc

record packet_msg =
  pm_info :: pmc
  pm_buff :: sbuffer

definition make_tag :: "nat \<Rightarrow> pmc \<Rightarrow> tag" where
  "make_tag offset object = \<lparr>tg_offset = offset, tg_object = object\<rparr>"

definition tag_less :: "tag \<Rightarrow> tag \<Rightarrow> bool" where
  "tag_less lhs rhs \<longleftrightarrow> tg_offset lhs < tg_offset rhs"

text \<open>\<open>eq\<close> is PMC's comparison of values.\<close>

definition tag_equal :: "(pmc \<Rightarrow> pmc \<Rightarrow> bool) \<Rightarrow> tag \<Rightarrow> tag \<Rightarrow> bool" where
  "tag_equal eq lhs rhs \<longleftrightarrow> tg_offset lhs = tg_offset rhs \<and> eq (tg_object lhs) (tg_object rhs)"

definition stream_tag_equal :: "(pmc \<Rightarrow> pmc \<Rightarrow> bool) \<Rightarrow> stream_tag \<Rightarrow> stream_tag \<Rightarrow> bool" where
  "stream_tag_equal eq lhs rhs \<longleftrightarrow>
     eq (stg_key lhs) (stg_key rhs) \<and> eq (stg_val lhs) (stg_val rhs) \<and> eq (stg_src lhs) (stg_src rhs)"

text \<open>Two buffers are equal when they are handles of the same impl.\<close>

definition packet_msg_equal :: "(pmc \<Rightarrow> pmc \<Rightarrow> bool) \<Rightarrow> packet_msg \<Rightarrow> packet_msg \<Rightarrow> bool" where
  "packet_msg_equal eq lhs rhs \<longleftrightarrow>
     eq (pm_info lhs) (pm_info rhs) \<and> sb_impl (pm_buff lhs) = sb_impl (pm_buff rhs)"

definition save_tag :: "tag \<Rightarrow> item list" where
  "save_tag t = [Size_Item (tg_offset t), Pmc_Item (tg_object t)]"

definition load_tag :: "item list \<Rightarrow> exn + tag \<times> item list" where
  "load_tag ar = bindE (get_size ar) (\<lambda>(offset, ar). bindE (get_pmc ar) (\<lambda>(object, ar).
     Inr (\<lparr>tg_offset = offset, tg_object = object\<rparr>, ar)))"

definition save_packet_msg :: "memory \<Rightarrow> packet_msg \<Rightarrow> item list" where
  "save_packet_msg m t = Pmc_Item (pm_info t) # save_sbuffer m (pm_buff t)"

definition load_packet_msg :: "(int \<Rightarrow> nat \<Rightarrow> nat) \<Rightarrow> packet_msg \<Rightarrow> item list \<Rightarrow> world \<Rightarrow> exn + packet_msg \<times> item list \<times> world" where
  "load_packet_msg numa t ar w =
     bindE (get_pmc ar) (\<lambda>(info, ar). bindE (load_sbuffer numa (pm_buff t) ar w) (\<lambda>(b, ar, w).
       Inr (\<lparr>pm_info = info, pm_buff = b\<rparr>, ar, w)))"

definition save_stream_tag :: "stream_tag \<Rightarrow> item list" where
  "save_stream_tag t = [Pmc_Item (stg_key t), Pmc_Item (stg_val t), Pmc_Item (stg_src t)]"

definition load_stream_tag :: "item list \<Rightarrow> exn + stream_tag \<times> item list" where
  "load_stream_tag ar = bindE (get_pmc ar) (\<lambda>(key, ar). bindE (get_pmc ar) (\<lambda>(val, ar).
     bindE (get_pmc ar) (\<lambda>(src, ar). Inr (\<lparr>stg_key = key, stg_val = val, stg_src = src\<rparr>, ar))))"

definition save_time_tag :: "time_tag \<Rightarrow> item list" where
  "save_time_tag t = [Int_Item (fsecs t), Int_Item (ticks t)]"

definition load_time_tag :: "item list \<Rightarrow> exn + time_tag \<times> item list" where
  "load_time_tag ar = bindE (get_int ar) (\<lambda>(fsecs, ar). bindE (get_int ar) (\<lambda>(ticks, ar).
     Inr (Time_Tag fsecs ticks, ar)))"

section \<open>Round trips\<close>

lemma load_bytes_all:
  "load_bytes (length xs) ptr m (map Byte_Item xs @ rest)
     = Inr (\<lambda>a. if ptr \<le> a \<and> a < ptr + length xs then xs ! (a - ptr) else m a, rest)"
proof (induction xs arbitrary: ptr m)
  case Nil
  then show ?case by (auto simp: fun_eq_iff)
next
  case (Cons x xs)
  have "(\<lambda>a. if Suc ptr \<le> a \<and> a < Suc (ptr + length xs) then xs ! (a - Suc ptr) else (m(ptr := x)) a)
      = (\<lambda>a. if ptr \<le> a \<and> a < ptr + length (x # xs) then (x # xs) ! (a - ptr) else m a)"
    by (auto simp: fun_eq_iff nth_Cons' Suc_le_eq)
  with Cons.IH show ?case by simp
qed

lemma bytes_written:
  "bytes (\<lambda>a. if ptr \<le> a \<and> a < ptr + length xs then xs ! (a - ptr) else m a) ptr (length xs) = xs"
  by (rule nth_equalityI) (simp_all add: bytes_def)

lemma make_sbuffer_default:
  assumes "make_sbuffer numa (default_sbuffer_config\<lparr>cfg_length := n\<rparr>) w = (b, w')"
  shows "sb_impl b = w_impl w" and "sb_length b = n" and "sb_offset b = 0"
  using assms
  by (auto simp: make_sbuffer_def default_sbuffer_config_def default_allocator_def heap_allocator_def Let_def)

lemma load_save_sbuffer:
  assumes "w_impl w \<noteq> 0"
  shows "\<exists>b' w'. load_sbuffer numa b0 (save_sbuffer m b @ rest) w = Inr (b', rest, w')
    \<and> sb_nonnull b' = sb_nonnull b
    \<and> (sb_nonnull b \<longrightarrow> sb_length b' = sb_length b \<and> sb_offset b' = 0 \<and> content (w_mem w') b' = content m b)"
proof (cases "sb_nonnull b")
  case False
  then show ?thesis by (simp add: save_sbuffer_def load_sbuffer_def sb_nonnull_def)
next
  case True
  obtain b' w' where mk: "make_sbuffer numa (default_sbuffer_config\<lparr>cfg_length := sb_length b\<rparr>) w = (b', w')"
    by fastforce
  note mb = make_sbuffer_default [OF mk]
  let ?xs = "bytes m (sb_get b 0) (sb_length b)"
  have "load_bytes (sb_length b) (sb_get b' 0) (w_mem w') (map Byte_Item ?xs @ rest)
      = Inr (\<lambda>a. if sb_get b' 0 \<le> a \<and> a < sb_get b' 0 + sb_length b then ?xs ! (a - sb_get b' 0) else w_mem w' a, rest)"
    using load_bytes_all [of ?xs "sb_get b' 0" "w_mem w'" rest] by simp
  moreover have "bytes (\<lambda>a. if sb_get b' 0 \<le> a \<and> a < sb_get b' 0 + sb_length b then ?xs ! (a - sb_get b' 0)
      else w_mem w' a) (sb_get b' 0) (sb_length b) = ?xs"
    using bytes_written [of "sb_get b' 0" ?xs "w_mem w'"] by simp
  ultimately show ?thesis
    using True assms mb
    by (simp add: save_sbuffer_def load_sbuffer_def mk sb_nonnull_def content_def)
qed



end
