(* ===== verification/Top_Block.thy ===== *)
theory Top_Block
  imports Alloc_Props
begin

text \<open>
  lib/top_block.cpp and \<open>bcast_prio_msg\<close> of lib/element_impl.hpp: how a top block starts and stops
  the actors of its topology, and how it waits for them.

  The actors are those of the workers of the topology. While a broadcast is under way every actor
  goes on handling messages of its own; what it handles is constrained only in that the top block is
  the one that sends the \<open>Top...\<close> messages and its token.
\<close>

section \<open>Broadcast\<close>

fun from_top :: "message \<Rightarrow> bool" where
  "from_top TopAlloc = True"
| "from_top TopActive = True"
| "from_top (TopInert n) = (\<not> n)"
| "from_top (TopToken t) = True"
| "from_top (TopConfig c) = True"
| "from_top (TopThread g) = True"
| "from_top m = False"

fun carries :: "token \<Rightarrow> message \<Rightarrow> bool" where
  "carries tok (To_Input i (InputTokenMessage t)) = (t = tok)"
| "carries tok (To_Output i (OutputTokenMessage t)) = (t = tok)"
| "carries tok m = False"

definition handles :: "(env \<times> message) list \<Rightarrow> actor \<Rightarrow> exn + actor" where
  "handles ms a = foldE (\<lambda>(en, m). handle_message en m) ms a"

definition own_messages :: "token \<Rightarrow> (env \<times> message) list \<Rightarrow> bool" where
  "own_messages tok ms \<longleftrightarrow> (\<forall>m \<in> snd ` set ms. \<not> from_top m \<and> \<not> carries tok m)"

text \<open>The actor gets \<open>m\<close> amid messages of its own, and all its handlers return.\<close>

inductive delivered :: "token \<Rightarrow> message \<Rightarrow> actor \<Rightarrow> actor \<Rightarrow> bool" for tok m where
  "own_messages tok ms \<Longrightarrow> handles ms a = Inr b \<Longrightarrow> handle_message en m b = Inr c \<Longrightarrow>
   own_messages tok ns \<Longrightarrow> handles ns c = Inr d \<Longrightarrow> delivered tok m a d"

inductive_cases deliveredE: "delivered tok m a d"

text \<open>The broadcast returns when every actor has sent its acknowledgement.\<close>

definition bcast_prio_msg :: "token \<Rightarrow> message \<Rightarrow> actor list \<Rightarrow> actor list \<Rightarrow> bool" where
  "bcast_prio_msg tok m = list_all2 (delivered tok m)"

section \<open>Start and stop\<close>

fun bcasts :: "token \<Rightarrow> message list \<Rightarrow> actor list \<Rightarrow> actor list \<Rightarrow> bool" where
  "bcasts tok [] as bs \<longleftrightarrow> as = bs"
| "bcasts tok (m # ms) as bs \<longleftrightarrow> (\<exists>cs. bcast_prio_msg tok m as cs \<and> bcasts tok ms cs bs)"

definition start_messages :: "nat \<Rightarrow> token \<Rightarrow> global_config \<Rightarrow> message list" where
  "start_messages tg tok cfg = [TopThread tg, TopToken tok, TopConfig cfg, TopAlloc, TopActive]"

definition top_start :: "nat \<Rightarrow> token \<Rightarrow> global_config \<Rightarrow> actor list \<Rightarrow> actor list \<Rightarrow> bool" where
  "top_start tg tok cfg = bcasts tok (start_messages tg tok cfg)"

definition top_stop :: "token \<Rightarrow> actor list \<Rightarrow> actor list \<Rightarrow> bool" where
  "top_stop tok = bcast_prio_msg tok (TopInert False)"

text \<open>\<open>token.unique()\<close> of the top block: besides the top block only the token pools of the actors
  refer to its token.\<close>

definition top_unique :: "token \<Rightarrow> actor list \<Rightarrow> bool" where
  "top_unique tok as \<longleftrightarrow> (\<forall>a \<in> set as. tok \<notin> ac_token_pool a)"

section \<open>Waiting\<close>

text \<open>What one turn of the loop of \<open>wait\<close> reads: the token, the time in milliseconds and the actors.\<close>

record seen =
  sn_unique :: bool
  sn_now :: int
  sn_actors :: "actor list"

record wait_state =
  wt_debug :: bool
  wt_check :: int
  wt_has_done :: bool

datatype wait_event = Print_Dot | Nudge nat

definition CHECK_DONE_INTERVAL :: int where "CHECK_DONE_INTERVAL = 100"
definition INPUT_DONE_GRACE_PERIOD :: int where "INPUT_DONE_GRACE_PERIOD = 100"

text \<open>The actor is sent a \<open>TopInertMessage\<close> without a sender.\<close>

definition nudged :: "bool \<Rightarrow> int \<Rightarrow> actor \<Rightarrow> bool" where
  "nudged debug now a \<longleftrightarrow> ac_in_done a \<noteq> [] \<and> list_ex (\<lambda>x. x) (ac_in_done a)
     \<and> \<not> debug \<and> ac_first_done a + INPUT_DONE_GRACE_PERIOD < now"

definition wait_turn :: "seen \<Rightarrow> wait_state \<Rightarrow> wait_state \<times> wait_event list" where
  "wait_turn s st =
     (if sn_now s < wt_check st then (st, [])
      else let st = st\<lparr>wt_check := wt_check st + CHECK_DONE_INTERVAL\<rparr>;
               (st, dot) = (if wt_has_done st \<and> wt_debug st then (st\<lparr>wt_debug := False\<rparr>, [Print_Dot])
                            else (st, []));
               as = sn_actors s
           in (st\<lparr>wt_has_done := wt_has_done st \<or> list_ex (\<lambda>a. ac_state a = BLOCK_STATE_DONE) as\<rparr>,
               dot @ map Nudge (filter (\<lambda>i. nudged (wt_debug st) (sn_now s) (as ! i)) [0..<length as])))"

text \<open>Turn \<open>n\<close> of the loop sees \<open>obs n\<close>; the loop may not end.\<close>

partial_function (option) wait_loop :: "(nat \<Rightarrow> seen) \<Rightarrow> nat \<Rightarrow> wait_state \<Rightarrow> wait_event list \<Rightarrow> wait_event list option" where
  "wait_loop obs n st evs =
     (if sn_unique (obs n) then Some evs
      else wait_loop obs (Suc n) (fst (wait_turn (obs n) st)) (evs @ snd (wait_turn (obs n) st)))"

definition top_wait :: "bool \<Rightarrow> int \<Rightarrow> (nat \<Rightarrow> seen) \<Rightarrow> wait_event list option" where
  "top_wait lockup_debug now obs =
     wait_loop obs 0 \<lparr>wt_debug = lockup_debug, wt_check = now, wt_has_done = False\<rparr> []"

text \<open>\<open>wait(timeout)\<close>; the result is read from the token once more after the loop.\<close>

partial_function (option) timed_loop :: "(nat \<Rightarrow> seen) \<Rightarrow> int \<Rightarrow> nat \<Rightarrow> bool option" where
  "timed_loop obs exit_time n =
     (if \<not> sn_unique (obs n) \<or> sn_now (obs n) < exit_time then timed_loop obs exit_time (Suc n)
      else Some (sn_unique (obs (Suc n))))"

definition top_wait_for :: "int \<Rightarrow> int \<Rightarrow> (nat \<Rightarrow> seen) \<Rightarrow> bool option" where
  "top_wait_for now timeout obs = timed_loop obs (now + timeout) 0"

section \<open>What own messages leave alone\<close>

text \<open>An actor keeps its state and the top block's token until it is marked done, and its own
  messages do not give the token back.\<close>

definition keeps :: "token \<Rightarrow> actor \<Rightarrow> actor \<Rightarrow> bool" where
  "keeps tok a b \<longleftrightarrow> (\<exists>es. ac_events b = ac_events a @ es
     \<and> ac_state b = (if Notify_Inactive \<in> set es then BLOCK_STATE_DONE else ac_state a)
     \<and> (tok \<in> ac_token_pool b \<longleftrightarrow> tok \<in> ac_token_pool a \<and> Notify_Inactive \<notin> set es))"

named_theorems keeps \<open>operations that keep the state and the token or end the block\<close>

lemma keeps_refl [simp]: "keeps tok a a"
  by (simp add: keeps_def)

lemma keeps_trans: "keeps tok a b \<Longrightarrow> keeps tok b c \<Longrightarrow> keeps tok a c"
  unfolding keeps_def by (elim exE conjE, intro exI conjI) (simp only: append_assoc, auto split: if_splits)

lemma quiet_keeps: "quiet b c \<Longrightarrow> keeps tok b c"
  by (fastforce simp: keeps_def quiet_def)

lemma keeps_quiet: "quiet b c \<Longrightarrow> keeps tok a b \<Longrightarrow> keeps tok a c"
  using keeps_trans quiet_keeps by blast

lemma keeps_post: "e \<noteq> Notify_Inactive \<Longrightarrow> keeps tok a b \<Longrightarrow> keeps tok a (post e b)"
  by (auto simp: keeps_def post_def)

lemma keeps_update [simp]:
  "keeps tok a (b\<lparr>st_work_count := x1\<rparr>) = keeps tok a b"
  "keeps tok a (b\<lparr>ac_in_done := x3\<rparr>) = keeps tok a b" "keeps tok a (b\<lparr>ac_out_done := x4\<rparr>) = keeps tok a b"
  "keeps tok a (b\<lparr>ac_first_done := x5\<rparr>) = keeps tok a b" "keeps tok a (b\<lparr>ac_msgs := x6\<rparr>) = keeps tok a b"
  "keeps tok a (b\<lparr>ac_num_inputs := x7, ac_num_outputs := x8\<rparr>) = keeps tok a b"
  "t \<noteq> tok \<Longrightarrow> keeps tok a (b\<lparr>ac_token_pool := insert t (ac_token_pool b)\<rparr>) = keeps tok a b"
  by (simp_all add: keeps_def)

lemma mark_done_keeps [keeps]:
  assumes "mark_done b = Inr c" and "keeps tok a b"
  shows "keeps tok a c"
proof (cases "ac_state b = BLOCK_STATE_DONE")
  case True
  with assms show ?thesis by (simp add: mark_done_def)
next
  case False
  note e = mark_done_effect [OF assms(1) False]
  from e obtain es where ev: "ac_events c = ac_events b @ Notify_Inactive # es"
    by (elim conjE exE) (erule that)
  from e have "ac_state c = BLOCK_STATE_DONE" "ac_token_pool c = {}" by simp_all
  with ev have "keeps tok b c" unfolding keeps_def
    by (intro exI [of _ "Notify_Inactive # es"]) simp
  with assms(2) show ?thesis by (rule keeps_trans)
qed

lemma quiet_op_keeps: "(\<And>a0. quiet a0 b \<Longrightarrow> quiet a0 c) \<Longrightarrow> keeps tok a b \<Longrightarrow> keeps tok a c"
  using keeps_quiet quiet_refl by blast

lemma update_input_avail_keeps [keeps]: "update_input_avail i b = Inr c \<Longrightarrow> keeps tok a b \<Longrightarrow> keeps tok a c"
  by (rule keeps_quiet [OF update_input_avail_quiet [OF _ quiet_refl]])

lemma in_op_keeps [keeps]: "in_op i f b = Inr c \<Longrightarrow> keeps tok a b \<Longrightarrow> keeps tok a c"
  by (rule keeps_quiet [OF in_op_quiet [OF _ quiet_refl]])

lemma out_op_keeps [keeps]: "out_op i f b = Inr c \<Longrightarrow> keeps tok a b \<Longrightarrow> keeps tok a c"
  by (rule keeps_quiet [OF out_op_quiet [OF _ quiet_refl]])

lemma task_kicker_keeps: "keeps tok a b \<Longrightarrow> keeps tok a (task_kicker en b)"
  by (rule keeps_quiet [OF task_kicker_quiet [OF quiet_refl]])

lemma input_fail_keeps [keeps]: "input_fail en i b = Inr c \<Longrightarrow> keeps tok a b \<Longrightarrow> keeps tok a c"
  by (auto simp: input_fail_def res_simps split: if_splits elim!: keeps intro!: task_kicker_keeps)

lemma api_step_keeps [keeps]:
  assumes "api_step en op b = Inr c" and "keeps tok a b"
  shows "keeps tok a c"
proof (cases "op = Mark_Done \<or> (\<exists>i. op = Mark_Input_Fail i)")
  case True
  with assms show ?thesis by (auto elim!: keeps)
next
  case False
  have "quiet a0 c" if "quiet a0 b" for a0
    using assms(1) False that by (rule api_step_quiet)
  then show ?thesis using assms(2) quiet_op_keeps by blast
qed

lemma api_run_keeps [keeps]: "api_run en ops b = Inr c \<Longrightarrow> keeps tok a b \<Longrightarrow> keeps tok a c"
  unfolding api_run_def by (rule foldE_invariant [where P = "keeps tok a"]) (auto intro: api_step_keeps)

lemma task_main_keeps [keeps]:
  assumes "task_main en b = Inr e" and "keeps tok a b"
  shows "keeps tok a e"
proof (cases "work_allowed en b")
  case False
  with assms show ?thesis by (simp add: task_main_def)
next
  case True
  then obtain c d where p: "task_prep en b = Inr c"
    and r: "api_run en (en_work en (c\<lparr>st_work_count := sz_add (st_work_count c) 1\<rparr>))
        (post Work_Called (c\<lparr>st_work_count := sz_add (st_work_count c) 1\<rparr>)) = Inr d"
    and t: "task_post en ((snd (now_of d))\<lparr>st_time_last_work := fst (now_of d)\<rparr>) = Inr e"
    using assms(1) by (auto simp: task_main_def task_work_def res_simps case_prod_unfold Let_def)
  have "quiet b c" using p by (rule task_prep_quiet) simp
  then have "keeps tok a c" using assms(2) by (rule keeps_quiet)
  then have "keeps tok a (post Work_Called (c\<lparr>st_work_count := sz_add (st_work_count c) 1\<rparr>))"
    by (simp add: keeps_post)
  with r have "keeps tok a d" by (rule api_run_keeps)
  have "quiet d ((snd (now_of d))\<lparr>st_time_last_work := fst (now_of d)\<rparr>)" by simp
  with t have "quiet d e" by (rule task_post_quiet)
  then show ?thesis using \<open>keeps tok a d\<close> by (rule keeps_quiet)
qed

lemma handle_topology_keeps:
  assumes "handle_topology b = Inr c" and "keeps tok a b"
  shows "keeps tok a c"
proof -
  let ?p = "post (Notify_Topology (ac_num_inputs b) (ac_num_outputs b)) b"
  let ?b = "resize_to_topology (ac_num_inputs b) (ac_num_outputs b) ?p"
  obtain d e f where d: "(if ac_num_inputs b = 0 \<and> ac_num_outputs b = 0 then mark_done ?b else Inr ?b) = Inr d"
    and e: "foldE handle_input_update [0..<ac_num_inputs b] d = Inr e"
    and f: "foldE handle_output_update [0..<ac_num_outputs b] e = Inr f" and c: "c = post Ack f"
    using assms(1) by (auto simp: handle_topology_def Let_def res_simps)
  have "keeps tok a ?p" using assms(2) by (simp add: keeps_post)
  then have "keeps tok a ?b"
    by (simp add: keeps_def resize_to_topology_def Let_def case_prod_unfold)
  with d have "keeps tok a d" by (auto elim!: keeps split: if_splits)
  moreover have "quiet d e" using e by (rule foldE_quiet) (auto elim!: quiet)
  with f have "quiet d f" by (rule foldE_quiet) (auto elim!: quiet)
  ultimately show ?thesis using keeps_quiet by (simp add: c keeps_post)
qed

lemma message_keeps:
  assumes "handle_message en m b = Inr c" and "m \<noteq> TopActive" and "m \<noteq> TopToken tok" and "\<not> carries tok m"
    and "keeps tok a b"
  shows "keeps tok a c"
proof (cases "calm m")
  case True
  then have "quiet b c" using assms(1) by (rule calm_quiet) simp
  then show ?thesis using assms(5) by (rule keeps_quiet)
next
  case False
  have other: "keeps tok a c" if "handle_top_token t b = Inr c" "t \<noteq> tok" for t
    using handle_top_token_quiet [OF that(1)] that(2) assms(5)
    by (metis keeps_post keeps_quiet keeps_update(7) event.distinct)
  from False assms show ?thesis
    by (cases "(en, m, b)" rule: handle_message.cases)
      (auto simp: handle_self_kick_def handle_input_msg_def handle_input_buffer_def handle_output_buffer_def
        handle_input_check_def handle_output_check_def handle_top_inert_def handle_input_token_def
        handle_output_token_def res_simps Let_def
        elim!: keeps dest: handle_topology_keeps intro: other intro!: keeps_post split: if_splits)
qed

lemma handles_keeps:
  assumes "handles ms b = Inr c" and "own_messages tok ms" and "keeps tok a b"
  shows "keeps tok a c"
proof -
  have "keeps tok a t" if "x \<in> set ms" "keeps tok a s" "(\<lambda>(en, m). handle_message en m) x s = Inr t" for x s t
  proof -
    obtain en m where x: "x = (en, m)" by fastforce
    with that(1) assms(2) have "\<not> from_top m" "\<not> carries tok m" by (auto simp: own_messages_def)
    moreover from this have "m \<noteq> TopActive" "m \<noteq> TopToken tok" by auto
    ultimately show ?thesis using that(2,3) by (auto simp: x elim: message_keeps)
  qed
  then show ?thesis
    using foldE_invariant [of ms "keeps tok a" "\<lambda>(en, m). handle_message en m" b c] assms(1,3)
    unfolding handles_def by blast
qed

lemma delivered_keeps:
  assumes "delivered tok m a d" and "m \<noteq> TopActive" and "m \<noteq> TopToken tok" and "\<not> carries tok m"
  shows "keeps tok a d"
  using assms(1)
proof (rule deliveredE)
  fix ms b en c ns
  assume s: "own_messages tok ms" "handles ms a = Inr b" "handle_message en m b = Inr c"
    "own_messages tok ns" "handles ns c = Inr d"
  have "keeps tok a b" using s(1,2) by (simp add: handles_keeps)
  then have "keeps tok a c" using message_keeps [OF s(3) assms(2-4)] by blast
  then show "keeps tok a d" using handles_keeps [OF s(5,4)] by blast
qed

text \<open>The token stays, or the actor was marked done since.\<close>

definition trail :: "token \<Rightarrow> actor \<Rightarrow> actor \<Rightarrow> bool" where
  "trail tok a b \<longleftrightarrow> (\<exists>es. ac_events b = ac_events a @ es
     \<and> (Notify_Inactive \<in> set es \<or> (tok \<in> ac_token_pool a \<longrightarrow> tok \<in> ac_token_pool b)))"

lemma trail_trans: "trail tok a b \<Longrightarrow> trail tok b c \<Longrightarrow> trail tok a c"
  by (fastforce simp: trail_def)

lemma keeps_trail: "keeps tok a b \<Longrightarrow> trail tok a b"
  by (fastforce simp: trail_def keeps_def)

lemma active_trail: "trail tok a (handle_top_active a)"
  by (auto simp: trail_def handle_top_active_def post_def now_of_def Let_def split: prod.splits)

lemma active_state: "ac_state (handle_top_active a) = BLOCK_STATE_LIVE"
  by (simp add: handle_top_active_def post_def Let_def split: prod.splits)

lemma delivered_token:
  assumes "delivered tok (TopToken tok) a d"
  shows "\<exists>es. ac_events d = ac_events a @ es \<and> (tok \<in> ac_token_pool d \<or> Notify_Inactive \<in> set es)"
  using assms
proof (rule deliveredE)
  fix ms b en c ns
  assume s: "own_messages tok ms" "handles ms a = Inr b" "handle_message en (TopToken tok) b = Inr c"
    "own_messages tok ns" "handles ns c = Inr d"
  have ab: "keeps tok a b" and cd: "keeps tok c d"
    using handles_keeps [OF s(2,1)] handles_keeps [OF s(5,4)] by simp_all
  from s(3) have "handle_top_token tok b = Inr c" by simp
  then obtain e where "quiet b e" "c = post Ack (e\<lparr>ac_token_pool := insert tok (ac_token_pool e)\<rparr>)"
    by (rule handle_top_token_quiet)
  then have "\<exists>es. ac_events c = ac_events b @ es" "tok \<in> ac_token_pool c"
    by (auto simp: quiet_def post_def)
  with ab cd show ?thesis by (auto simp: keeps_def)
qed

lemma delivered_active:
  assumes "delivered tok TopActive a d"
  shows "trail tok a d" and "ac_state d = BLOCK_STATE_LIVE \<or> ac_state d = BLOCK_STATE_DONE"
proof -
  from assms obtain ms b c ns where s: "own_messages tok ms" "handles ms a = Inr b" "c = handle_top_active b"
    "own_messages tok ns" "handles ns c = Inr d"
    by (auto elim!: deliveredE)
  have ab: "keeps tok a b" and cd: "keeps tok c d"
    using handles_keeps [OF s(2,1)] handles_keeps [OF s(5,4)] by simp_all
  have "trail tok b c" by (simp only: s(3) active_trail)
  then show "trail tok a d" using ab cd keeps_trail trail_trans by blast
  show "ac_state d = BLOCK_STATE_LIVE \<or> ac_state d = BLOCK_STATE_DONE"
    using cd by (auto simp: s(3) keeps_def active_state split: if_splits)
qed

lemma delivered_inert:
  assumes "delivered tok (TopInert False) a d" and "ac_state a = BLOCK_STATE_DONE \<Longrightarrow> tok \<notin> ac_token_pool a"
  shows "ac_state d = BLOCK_STATE_DONE \<and> tok \<notin> ac_token_pool d"
proof -
  from assms obtain ms b en c ns where s: "own_messages tok ms" "handles ms a = Inr b"
    "handle_message en (TopInert False) b = Inr c" "own_messages tok ns" "handles ns c = Inr d"
    by (auto elim!: deliveredE)
  have ab: "keeps tok a b" and cd: "keeps tok c d"
    using handles_keeps [OF s(2,1)] handles_keeps [OF s(5,4)] by simp_all
  from s(3) obtain b' where b': "mark_done b = Inr b'" "c = post Ack b'"
    by (auto simp: handle_top_inert_def res_simps)
  have "ac_state b' = BLOCK_STATE_DONE \<and> tok \<notin> ac_token_pool b'"
  proof (cases "ac_state b = BLOCK_STATE_DONE")
    case True
    then have "tok \<notin> ac_token_pool b" using ab assms(2) by (auto simp: keeps_def split: if_splits)
    with True b'(1) show ?thesis by (simp add: mark_done_def)
  next
    case False
    with mark_done_effect [OF b'(1)] show ?thesis by simp
  qed
  then show ?thesis using cd by (auto simp: keeps_def b'(2) post_def split: if_splits)
qed

lemma wait_loop_returns:
  "(\<exists>evs'. wait_loop obs n st evs = Some evs') \<longleftrightarrow> (\<exists>m \<ge> n. sn_unique (obs m))"
proof
  have "\<exists>m \<ge> n. sn_unique (obs m)" if "wait_loop obs n st evs = Some r" for obs n st evs r
  proof (rule wait_loop.raw_induct [where P = "\<lambda>obs n st evs r. \<exists>m \<ge> n. sn_unique (obs m)", OF _ that])
    fix f :: "(nat \<Rightarrow> seen) \<Rightarrow> nat \<Rightarrow> wait_state \<Rightarrow> wait_event list \<Rightarrow> wait_event list option"
      and obs n st evs r
    assume IH: "\<And>obs n st evs r. f obs n st evs = Some r \<Longrightarrow> \<exists>m \<ge> n. sn_unique (obs m)"
      and "(if sn_unique (obs n) then Some evs
            else f obs (Suc n) (fst (wait_turn (obs n) st)) (evs @ snd (wait_turn (obs n) st))) = Some r"
    then show "\<exists>m \<ge> n. sn_unique (obs m)"
      by (cases "sn_unique (obs n)") (auto dest!: IH intro: Suc_leD)
  qed
  then show "\<exists>m \<ge> n. sn_unique (obs m)" if "\<exists>evs'. wait_loop obs n st evs = Some evs'"
    using that by blast
next
  assume "\<exists>m \<ge> n. sn_unique (obs m)"
  then obtain k where "sn_unique (obs (n + k))" by (auto simp: le_iff_add)
  then show "\<exists>evs'. wait_loop obs n st evs = Some evs'"
  proof (induction k arbitrary: n st evs)
    case (Suc k)
    then show ?case by (subst wait_loop.simps) simp
  qed (subst wait_loop.simps, simp)
qed

lemma bcast_nth: "bcast_prio_msg tok m as bs \<Longrightarrow> i < length as \<Longrightarrow> delivered tok m (as ! i) (bs ! i)"
  by (simp add: bcast_prio_msg_def list_all2_nthD)

lemma bcast_length: "bcast_prio_msg tok m as bs \<Longrightarrow> length bs = length as"
  by (simp add: bcast_prio_msg_def list_all2_lengthD)

text \<open>An actor that handles nothing else than the broadcast.\<close>

lemma delivered_alone: "handle_message en m a = Inr b \<Longrightarrow> delivered tok m a b"
  by (rule delivered.intros [of tok "[]" a a en m b "[]" b]) (simp_all add: own_messages_def handles_def)

text \<open>When \<open>stop\<close> returns every actor is done and has given its tokens back.\<close>

lemma stopped:
  assumes "top_stop tok as bs" and "\<forall>a \<in> set as. ac_state a = BLOCK_STATE_DONE \<longrightarrow> tok \<notin> ac_token_pool a"
    and "b \<in> set bs"
  shows "ac_state b = BLOCK_STATE_DONE \<and> tok \<notin> ac_token_pool b"
proof -
  from assms(3) obtain i where i: "i < length bs" "b = bs ! i" by (metis in_set_conv_nth)
  with assms(1) have d: "delivered tok (TopInert False) (as ! i) b" and l: "i < length as"
    by (auto simp: top_stop_def bcast_prio_msg_def list_all2_conv_all_nth)
  show ?thesis by (rule delivered_inert [OF d]) (use assms(2) nth_mem [OF l] in blast)
qed

definition sample_live :: actor where
  "sample_live = (new_actor [] 0 1 sample_world)\<lparr>ac_state := BLOCK_STATE_LIVE, ac_token_pool := {9}\<rparr>"

lemma sample_stop: "\<exists>b. top_stop 9 [sample_live] [b]"
proof -
  obtain b where b: "mark_done sample_live = Inr b"
    by (simp add: sample_live_def mark_done_def new_actor_def now_of_def time_now_def post_def iq_flush_all_def
        oq_flush_all_def oq_resize_def iq_resize_def sample_world_def Let_def)
  have "delivered 9 (TopInert False) sample_live (post Ack b)"
    by (rule delivered_alone [of sample_env]) (simp add: handle_top_inert_def b)
  then show ?thesis by (auto simp: top_stop_def bcast_prio_msg_def)
qed

section \<open>Properties\<close>

text \<open>C12 When \<open>start\<close> returns, every actor of the topology is live or has finished already, and
  holds the token of the top block unless it was marked done meanwhile: the top block cannot find its
  token unique, and \<open>wait\<close> cannot return, while there is a block that was not marked done.\<close>

theorem start_activates:
  assumes "top_start tg tok cfg as bs" and "i < length as"
  shows "ac_state (bs ! i) \<in> {BLOCK_STATE_LIVE, BLOCK_STATE_DONE}
    \<and> (\<forall>es. ac_events (bs ! i) = ac_events (as ! i) @ es \<longrightarrow> Notify_Inactive \<notin> set es
           \<longrightarrow> tok \<in> ac_token_pool (bs ! i) \<and> \<not> top_unique tok bs)"
proof -
  obtain c1 c2 c3 c4 where c: "bcast_prio_msg tok (TopThread tg) as c1" "bcast_prio_msg tok (TopToken tok) c1 c2"
    "bcast_prio_msg tok (TopConfig cfg) c2 c3" "bcast_prio_msg tok TopAlloc c3 c4"
    "bcast_prio_msg tok TopActive c4 bs"
    using assms(1) by (auto simp: top_start_def start_messages_def)
  have len: "i < length c1" "i < length c2" "i < length c3" "i < length c4" "i < length bs"
    using c assms(2) by (auto dest!: bcast_length)
  have k: "keeps tok (as ! i) (c1 ! i)" "keeps tok (c2 ! i) (c3 ! i)" "keeps tok (c3 ! i) (c4 ! i)"
    using bcast_nth [OF c(1) assms(2)] bcast_nth [OF c(3) len(2)] bcast_nth [OF c(4) len(3)]
    by (auto intro: delivered_keeps)
  note active = delivered_active [OF bcast_nth [OF c(5) len(4)]]
  have "trail tok (c2 ! i) (bs ! i)"
    using keeps_trail [OF k(2)] keeps_trail [OF k(3)] active(1) trail_trans by blast
  moreover obtain es2 where "ac_events (c2 ! i) = ac_events (c1 ! i) @ es2"
      "tok \<in> ac_token_pool (c2 ! i) \<or> Notify_Inactive \<in> set es2"
    using delivered_token [OF bcast_nth [OF c(2) len(1)]] by blast
  moreover obtain es1 where "ac_events (c1 ! i) = ac_events (as ! i) @ es1"
    using k(1) by (auto simp: keeps_def)
  ultimately have "tok \<in> ac_token_pool (bs ! i) \<and> \<not> top_unique tok bs"
    if "ac_events (bs ! i) = ac_events (as ! i) @ es" "Notify_Inactive \<notin> set es" for es
    using that len(5) by (auto simp: trail_def top_unique_def)
  then show ?thesis using active(2) by blast
qed

text \<open>C13 When \<open>stop\<close> returns, every actor is done and none holds the token of the top block, so a
  \<open>wait\<close> that looks at the actors then returns at once, without a further message.\<close>

theorem stop_ends_wait:
  assumes "top_stop tok as bs" and "\<forall>a \<in> set as. ac_state a = BLOCK_STATE_DONE \<longrightarrow> tok \<notin> ac_token_pool a"
    and "sn_unique (obs 0) = top_unique tok bs"
  shows "(\<forall>b \<in> set bs. ac_state b = BLOCK_STATE_DONE) \<and> top_unique tok bs \<and> top_wait debug now obs = Some []"
proof -
  have "\<And>b. b \<in> set bs \<Longrightarrow> ac_state b = BLOCK_STATE_DONE \<and> tok \<notin> ac_token_pool b"
    using assms(1,2) by (rule stopped)
  then have fin: "\<forall>b \<in> set bs. ac_state b = BLOCK_STATE_DONE" and u: "top_unique tok bs"
    by (auto simp: top_unique_def)
  have "top_wait debug now obs = Some []"
    using assms(3) u by (simp add: top_wait_def) (subst wait_loop.simps, simp)
  with fin u show ?thesis by blast
qed

text \<open>\<open>wait\<close> returns if and only if one of its looks at the token finds it unique.\<close>

theorem wait_until_released:
  "(\<exists>evs. top_wait debug now obs = Some evs) \<longleftrightarrow> (\<exists>n. sn_unique (obs n))"
  by (simp add: top_wait_def wait_loop_returns)

text \<open>\<open>wait(timeout)\<close> does not end at its timeout: while a block is not done it never returns, and
  it does not return before the time is over although all blocks are done. Its documentation says
  that it blocks until timeout or done.\<close>

theorem timed_wait_ignores_timeout:
  "((\<forall>n. \<not> sn_unique (obs n)) \<longrightarrow> top_wait_for now timeout obs = None)
   \<and> (top_wait_for now timeout obs = Some r \<longrightarrow> (\<exists>n. sn_unique (obs n) \<and> now + timeout \<le> sn_now (obs n)))"
proof -
  have ret: "\<exists>m. sn_unique (obs m) \<and> e \<le> sn_now (obs m)" if "timed_loop obs e n = Some r" for obs e n r
  proof (rule timed_loop.raw_induct [where P = "\<lambda>obs e n r. \<exists>m. sn_unique (obs m) \<and> e \<le> sn_now (obs m)", OF _ that])
    fix f :: "(nat \<Rightarrow> seen) \<Rightarrow> int \<Rightarrow> nat \<Rightarrow> bool option" and obs e n r
    assume IH: "\<And>obs e n r. f obs e n = Some r \<Longrightarrow> \<exists>m. sn_unique (obs m) \<and> e \<le> sn_now (obs m)"
      and "(if \<not> sn_unique (obs n) \<or> sn_now (obs n) < e then f obs e (Suc n)
            else Some (sn_unique (obs (Suc n)))) = Some r"
    then show "\<exists>m. sn_unique (obs m) \<and> e \<le> sn_now (obs m)"
      by (cases "\<not> sn_unique (obs n) \<or> sn_now (obs n) < e") auto
  qed
  then show ?thesis unfolding top_wait_for_def by (metis option.exhaust)
qed

lemma start_activates_witness:
  "\<exists>b. top_start 7 9 default_global_config [new_actor [] 0 1 sample_world] [b]
     \<and> ac_state b \<noteq> BLOCK_STATE_INIT \<and> \<not> top_unique 9 [b]"
proof -
  define a where "a = new_actor [] 0 1 sample_world"
  let ?a = a
  let ?c1 = "handle_top_thread_group 7 ?a"
  let ?c2 = "post Ack (?c1\<lparr>ac_token_pool := {9}\<rparr>)"
  let ?c3 = "handle_top_config default_global_config ?c2"
  let ?c4 = "post Ack ?c3"
  let ?b = "handle_top_active ?c4"
  have ports: "ac_num_inputs ?c1 = 0" "ac_num_outputs ?c1 = 0" "ac_num_outputs ?c3 = 0"
    by (simp_all add: handle_top_thread_group_def handle_top_config_def post_def a_def new_actor_def Let_def)
  have pool: "ac_token_pool ?c1 = {}"
    by (simp add: handle_top_thread_group_def post_def a_def new_actor_def Let_def)
  have "delivered 9 (TopThread 7) ?a ?c1" "delivered 9 (TopConfig default_global_config) ?c2 ?c3"
    "delivered 9 TopActive ?c4 ?b"
    by (rule_tac [!] delivered_alone [of sample_env]) simp_all
  moreover have "delivered 9 (TopToken 9) ?c1 ?c2" "delivered 9 TopAlloc ?c3 ?c4"
    by (rule_tac [!] delivered_alone [of sample_env])
      (simp_all add: handle_top_token_def handle_top_alloc_def ports pool)
  ultimately have st: "top_start 7 9 default_global_config [?a] [?b]"
    unfolding top_start_def start_messages_def bcasts.simps bcast_prio_msg_def
    by (intro exI conjI) (auto intro: list_all2_Cons [THEN iffD2])
  have ev: "ac_events ?b = ac_events ([?a] ! 0) @ [Ack, Ack, Ack, Ack, Notify_Active, Ack, Self_Kick]"
    by (simp add: handle_top_active_def handle_top_thread_group_def handle_top_config_def post_def
        a_def new_actor_def now_of_def Let_def split: prod.splits)
  note S = start_activates [OF st, of 0]
  have "ac_state ?b \<noteq> BLOCK_STATE_INIT" using S by auto
  moreover have "\<not> top_unique 9 [?b]"
    using S [THEN conjunct2, THEN spec, of "[Ack, Ack, Ack, Ack, Notify_Active, Ack, Self_Kick]"] ev by simp
  ultimately show ?thesis using st unfolding a_def by blast
qed

lemma stop_ends_wait_witness:
  "\<exists>b. top_stop 9 [sample_live] [b] \<and> ac_state b = BLOCK_STATE_DONE
     \<and> top_wait False 0 (\<lambda>_. \<lparr>sn_unique = top_unique 9 [b], sn_now = 0, sn_actors = [b]\<rparr>) = Some []"
proof -
  obtain b where st: "top_stop 9 [sample_live] [b]" using sample_stop by blast
  let ?obs = "\<lambda>_. \<lparr>sn_unique = top_unique 9 [b], sn_now = 0, sn_actors = [b]\<rparr>"
  have "\<forall>x \<in> set [sample_live]. ac_state x = BLOCK_STATE_DONE \<longrightarrow> 9 \<notin> ac_token_pool x" by (simp add: sample_live_def)
  then have s: "(\<forall>b \<in> set [b]. ac_state b = BLOCK_STATE_DONE) \<and> top_unique 9 [b] \<and> top_wait False 0 ?obs = Some []"
    by (rule stop_ends_wait [OF st]) simp
  then have "ac_state b = BLOCK_STATE_DONE" by (simp only: list.set ball_simps)
  with s st show ?thesis by blast
qed

lemma timed_wait_ignores_timeout_witness:
  "top_wait_for 0 5 (\<lambda>n. \<lparr>sn_unique = False, sn_now = 10 * int n, sn_actors = []\<rparr>) = None"
  by (rule timed_wait_ignores_timeout [THEN conjunct1, THEN mp]) simp

end
