(* ===== verification/Block_Host.thy ===== *)
theory Block_Host
  imports Top_Block Registry
begin

text \<open>
  lib/block_actor.cpp, lib/thread_pool.cpp, the commit and the cleanup of lib/block.cpp and the
  blocking call of lib/block_calls.cpp: the thread pools, the actors that run on them, and what a
  block does with its actor from the outside.
\<close>

section \<open>Thread pools\<close>

datatype yield_strategy = YIELD_STRONG | YIELD_BLOCKING | YIELD_POLITE | YIELD_AGGRESSIVE

record pool_config =
  tp_thread_count :: nat
  tp_node_mask :: nat
  tp_processor_mask :: nat
  tp_yield_strategy :: string

text \<open>\<open>hw\<close> is the hardware concurrency, \<open>gras_yield\<close> the environment variable.\<close>

definition default_pool_config :: "nat \<Rightarrow> string option \<Rightarrow> pool_config" where
  "default_pool_config hw gras_yield =
     \<lparr>tp_thread_count = max 2 hw, tp_node_mask = 0, tp_processor_mask = 4294967295,
      tp_yield_strategy = (case gras_yield of None \<Rightarrow> ''BLOCKING'' | Some y \<Rightarrow> y)\<rparr>"

definition yield_of :: "string \<Rightarrow> exn + yield_strategy" where
  "yield_of s =
     (if s = [] then Inr YIELD_STRONG
      else if s = ''BLOCKING'' then Inr YIELD_BLOCKING
      else if s = ''POLITE'' then Inr YIELD_POLITE
      else if s = ''STRONG'' then Inr YIELD_STRONG
      else if s = ''AGGRESSIVE'' then Inr YIELD_AGGRESSIVE
      else Inl (Runtime_Error (''gras::ThreadPoolConfig yield_strategy unknown: '' @ s)))"

section \<open>Actors of the process\<close>

text \<open>A pool and an actor are the identities of their objects. \<open>ho_refs\<close> says which pools are
  referred to from outside the actors, by a config or the user.\<close>

record hosts =
  ho_pools :: "nat \<Rightarrow> (nat \<times> yield_strategy) option"    \<comment> \<open>threads and strategy of every pool made\<close>
  ho_next_pool :: nat
  ho_active :: "nat option"
  ho_refs :: "nat set"
  ho_actors :: "nat \<Rightarrow> nat option"                      \<comment> \<open>the pool of every actor that exists\<close>
  ho_next_actor :: nat
  ho_tpm :: "nat \<Rightarrow> nat set option"                     \<comment> \<open>ThreadPoolMap\<close>

record process_env =
  pe_hardware :: nat
  pe_gras_yield :: "string option"
  pe_gras_tpp :: bool

definition make_pool_of :: "pool_config \<Rightarrow> hosts \<Rightarrow> exn + nat \<times> hosts" where
  "make_pool_of cfg h = bindE (yield_of (tp_yield_strategy cfg)) (\<lambda>y.
     Inr (ho_next_pool h, h\<lparr>ho_pools := (ho_pools h)(ho_next_pool h \<mapsto> (tp_thread_count cfg, y)),
                            ho_next_pool := Suc (ho_next_pool h)\<rparr>))"

text \<open>A pool exists as long as an actor or something outside refers to it.\<close>

definition pool_exists :: "nat \<Rightarrow> hosts \<Rightarrow> bool" where
  "pool_exists p h \<longleftrightarrow> ho_pools h p \<noteq> None \<and> (p \<in> ho_refs h \<or> p \<in> ran (ho_actors h))"

text \<open>\<open>BlockActor::BlockActor\<close> and \<open>BlockActor::~BlockActor\<close>.\<close>

definition new_block_actor :: "nat \<Rightarrow> hosts \<Rightarrow> nat \<times> hosts" where
  "new_block_actor p h =
     (let a = ho_next_actor h;
          old = (case ho_tpm h p of None \<Rightarrow> {} | Some s \<Rightarrow> s)
      in (a, h\<lparr>ho_actors := (ho_actors h)(a \<mapsto> p), ho_next_actor := Suc a,
               ho_tpm := (ho_tpm h)(p \<mapsto> insert a old)\<rparr>))"

definition delete_block_actor :: "nat \<Rightarrow> hosts \<Rightarrow> hosts" where
  "delete_block_actor a h =
     (case ho_actors h a of
        None \<Rightarrow> h
      | Some p \<Rightarrow>
          let s = (case ho_tpm h p of None \<Rightarrow> {} | Some s \<Rightarrow> s) - {a}
          in h\<lparr>ho_actors := (ho_actors h)(a := None),
               ho_tpm := (ho_tpm h)(p := if s = {} then None else Some s)\<rparr>)"

definition make_block_actor :: "process_env \<Rightarrow> nat option \<Rightarrow> hosts \<Rightarrow> exn + nat \<times> hosts" where
  "make_block_actor pe tp h =
     (case tp of
        Some p \<Rightarrow> Inr (new_block_actor p h)
      | None \<Rightarrow>
          let cfg = default_pool_config (pe_hardware pe) (pe_gras_yield pe)
          in if pe_gras_tpp pe
             then bindE (make_pool_of (cfg\<lparr>tp_thread_count := 1\<rparr>) h) (\<lambda>(p, h). Inr (new_block_actor p h))
             else case (case ho_active h of None \<Rightarrow> None | Some p \<Rightarrow> if pool_exists p h then Some p else None) of
                    Some p \<Rightarrow> Inr (new_block_actor p h)
                  | None \<Rightarrow> bindE (make_pool_of cfg h) (\<lambda>(p, h).
                      Inr (new_block_actor p (h\<lparr>ho_active := Some p\<rparr>))))"

section \<open>Waiting for an actor\<close>

datatype cleanup_state = BLOCK_CLEANUP_WAIT | BLOCK_CLEANUP_WARN | BLOCK_CLEANUP_DAMN | BLOCK_CLEANUP_DOTS

text \<open>One turn, \<open>elapsed\<close> milliseconds after the start.\<close>

definition idle_turn :: "int \<Rightarrow> cleanup_state \<Rightarrow> cleanup_state \<times> string list" where
  "idle_turn elapsed st =
     (case st of
        BLOCK_CLEANUP_WAIT \<Rightarrow>
          if elapsed > 1000 then (BLOCK_CLEANUP_WARN, ['', waiting for you to finish.'']) else (st, [])
      | BLOCK_CLEANUP_WARN \<Rightarrow>
          if elapsed > 2000 then (BLOCK_CLEANUP_DAMN, ['', give up the thread context!'']) else (st, [])
      | BLOCK_CLEANUP_DAMN \<Rightarrow>
          if elapsed > 3000 then (BLOCK_CLEANUP_DOTS, ['' FAIL; application will now hang...'']) else (st, [])
      | BLOCK_CLEANUP_DOTS \<Rightarrow> (st, []))"

text \<open>\<open>queued n\<close> and \<open>elapsed n\<close> are what turn \<open>n\<close> reads; the loop may not end.\<close>

partial_function (option) wait_actor_idle :: "(nat \<Rightarrow> nat) \<Rightarrow> (nat \<Rightarrow> int) \<Rightarrow> nat \<Rightarrow> cleanup_state \<Rightarrow> string list \<Rightarrow> string list option" where
  "wait_actor_idle queued elapsed n st out =
     (if queued n = 0 then Some out
      else wait_actor_idle queued elapsed (Suc n) (fst (idle_turn (elapsed n) st)) (out @ snd (idle_turn (elapsed n) st)))"

section \<open>Commit and cleanup of a block\<close>

text \<open>The part of \<open>ElementImpl\<close> that a block uses: its actor and the copy of the pool reference, the
  config, and the ports of its worker.\<close>

record block_impl =
  bi_actor :: nat
  bi_pool :: nat
  bi_config :: global_config
  bi_num_inputs :: nat
  bi_num_outputs :: nat

definition setup_actor :: "hosts \<Rightarrow> block_impl \<Rightarrow> exn + block_impl" where
  "setup_actor h b = (case ho_actors h (bi_actor b) of
     None \<Rightarrow> Inl (Undefined ''deleted actor'') | Some p \<Rightarrow> Inr (b\<lparr>bi_pool := p\<rparr>))"

text \<open>A message through an actor that no longer exists is a use after free.\<close>

definition send_update :: "nat \<Rightarrow> message \<Rightarrow> hosts \<times> (nat \<times> message) list \<Rightarrow> exn + hosts \<times> (nat \<times> message) list" where
  "send_update actor m = (\<lambda>(h, sent).
     if ho_actors h actor = None then Inl (Undefined ''use of a deleted actor'')
     else Inr (h, sent @ [(actor, m)]))"

text \<open>The migration to another thread pool. \<open>old_actor\<close> keeps the old actor until the end of the
  migration, when it is deleted; the wait for the old actor is taken to return.\<close>

definition migrate :: "process_env \<Rightarrow> block_impl \<Rightarrow> hosts \<Rightarrow> exn + block_impl \<times> hosts" where
  "migrate pe b h =
     (let pool = gc_thread_pool (bi_config b)
      in case ho_actors h (bi_actor b) of
           None \<Rightarrow> Inl (Undefined ''deleted actor'')
         | Some current \<Rightarrow>
             if pool \<noteq> None \<and> pool \<noteq> Some current
             then bindE (make_block_actor pe pool h) (\<lambda>(new, h).
                  bindE (setup_actor h (b\<lparr>bi_actor := new\<rparr>)) (\<lambda>b'.
                    Inr (b', delete_block_actor (bi_actor b) h)))
             else Inr (b, h))"

text \<open>The updates go to \<open>actor\<close>, a reference to the actor at the entry.\<close>

definition block_commit_config :: "process_env \<Rightarrow> block_impl \<Rightarrow> hosts
    \<Rightarrow> exn + block_impl \<times> hosts \<times> (nat \<times> message) list" where
  "block_commit_config pe b h =
     (let actor = bi_actor b
      in bindE (migrate pe b h) (\<lambda>(b, h).
         bindE (foldE (\<lambda>i. send_update actor (InputUpdate i)) [0..<bi_num_inputs b] (h, [])) (\<lambda>r.
         bindE (foldE (\<lambda>i. send_update actor (OutputUpdate i)) [0..<bi_num_outputs b] r) (\<lambda>(h, msgs).
           Inr (b, h, msgs)))))"

definition block_cleanup :: "block_impl \<Rightarrow> hosts \<Rightarrow> hosts" where
  "block_cleanup b h = delete_block_actor (bi_actor b) h"

text \<open>\<open>HierBlock::commit_config\<close> merges its config into every block and commits the block.\<close>

definition hier_commit_config :: "process_env \<Rightarrow> global_config \<Rightarrow> block_impl list \<Rightarrow> hosts
    \<Rightarrow> exn + block_impl list \<times> hosts \<times> (nat \<times> message) list" where
  "hier_commit_config pe cfg bs h =
     foldE (\<lambda>b (done, h, sent).
       bindE (block_commit_config pe (b\<lparr>bi_config := gc_merge (bi_config b) cfg\<rparr>) h) (\<lambda>(b, h, s).
         Inr (done @ [b], h, sent @ s))) bs ([], h, [])"

section \<open>Calls through the actor\<close>

fun what :: "exn \<Rightarrow> string" where
  "what (Assert_Fail s) = s"
| "what (Runtime_Error s) = s"
| "what (Invalid_Argument s) = s"
| "what (Undefined s) = s"

text \<open>The messages that reach the receiver of a call.\<close>

fun replies :: "event list \<Rightarrow> (pmc \<times> string) list" where
  "replies [] = []"
| "replies (Call_Reply key ret err # es) = (ret, err) # replies es"
| "replies (e # es) = replies es"

text \<open>\<open>Block::_handle_call\<close>: the message, the reply that the actor sends, and the result. \<open>None\<close>
  is a wait without a reply.\<close>

definition block_handle_call :: "env \<Rightarrow> string \<Rightarrow> pmc \<Rightarrow> actor \<Rightarrow> ((exn + pmc) \<times> actor) option" where
  "block_handle_call en key args a =
     (case handle_message en (Call key args) a of
        Inl x \<Rightarrow> None
      | Inr a' \<Rightarrow> (case replies (drop (length (ac_events a)) (ac_events a')) of
            [] \<Rightarrow> None
          | (ret, err) # _ \<Rightarrow> Some (if err \<noteq> [] then Inl (Runtime_Error err) else Inr ret, a')))"

section \<open>The thread pool map\<close>

inductive host_step :: "hosts \<Rightarrow> hosts \<Rightarrow> bool" where
  make: "make_block_actor pe tp h = Inr (a, h') \<Longrightarrow> host_step h h'"
| cleanup: "host_step h (block_cleanup b h)"
| commit: "block_commit_config pe b h = Inr (b', h', msgs) \<Longrightarrow> host_step h h'"
| refs: "host_step h (h\<lparr>ho_refs := r\<rparr>)"
| set_active: "host_step h (h\<lparr>ho_active := p\<rparr>)"

inductive host_reach :: "hosts \<Rightarrow> bool" where
  start: "host_reach \<lparr>ho_pools = (\<lambda>_. None), ho_next_pool = 0, ho_active = None, ho_refs = {},
    ho_actors = (\<lambda>_. None), ho_next_actor = 0, ho_tpm = (\<lambda>_. None)\<rparr>"
| step: "host_reach h \<Longrightarrow> host_step h h' \<Longrightarrow> host_reach h'"

definition actors_on :: "nat \<Rightarrow> hosts \<Rightarrow> nat set" where
  "actors_on p h = {a. ho_actors h a = Some p}"

definition tpm_ok :: "hosts \<Rightarrow> bool" where
  "tpm_ok h \<longleftrightarrow> (\<forall>p. ho_tpm h p = (if actors_on p h = {} then None else Some (actors_on p h)))
     \<and> (\<forall>a. ho_actors h a \<noteq> None \<longrightarrow> a < ho_next_actor h)"

lemma tpm_ok_cong:
  "ho_tpm h' = ho_tpm h \<Longrightarrow> ho_actors h' = ho_actors h \<Longrightarrow> ho_next_actor h' = ho_next_actor h \<Longrightarrow> tpm_ok h' = tpm_ok h"
  by (simp add: tpm_ok_def actors_on_def)

lemma tpm_ok_new:
  assumes "tpm_ok h"
  shows "tpm_ok (snd (new_block_actor p h))"
proof -
  let ?a = "ho_next_actor h" and ?h = "snd (new_block_actor p h)"
  have fresh: "ho_actors h ?a = None" using assms unfolding tpm_ok_def by (metis less_irrefl)
  have on: "actors_on q ?h = (if q = p then insert ?a (actors_on p h) else actors_on q h)" for q
    using fresh by (auto simp: actors_on_def new_block_actor_def Let_def)
  have "ho_tpm ?h q = (if actors_on q ?h = {} then None else Some (actors_on q ?h))" for q
    using assms by (simp add: on) (simp add: new_block_actor_def tpm_ok_def Let_def)
  moreover have "a < ho_next_actor ?h" if "ho_actors ?h a \<noteq> None" for a
    using that assms by (auto simp: new_block_actor_def tpm_ok_def Let_def less_Suc_eq split: if_splits)
  ultimately show ?thesis by (simp add: tpm_ok_def)
qed

lemma tpm_ok_delete:
  assumes "tpm_ok h"
  shows "tpm_ok (delete_block_actor a h)"
proof (cases "ho_actors h a")
  case None
  with assms show ?thesis by (simp add: delete_block_actor_def)
next
  case (Some p)
  let ?h = "delete_block_actor a h"
  have on: "actors_on q ?h = (if q = p then actors_on p h - {a} else actors_on q h)" for q
    using Some by (auto simp: actors_on_def delete_block_actor_def Let_def)
  have tpm: "ho_tpm h q = (if actors_on q h = {} then None else Some (actors_on q h))" for q
    using assms by (simp add: tpm_ok_def)
  have "a \<in> actors_on p h" using Some by (simp add: actors_on_def)
  then have "ho_tpm h p = Some (actors_on p h)" using tpm by auto
  then have "ho_tpm ?h q = (if actors_on q ?h = {} then None else Some (actors_on q ?h))" for q
    unfolding on using Some tpm [of q] by (auto simp: delete_block_actor_def Let_def)
  moreover have "b < ho_next_actor ?h" if "ho_actors ?h b \<noteq> None" for b
    using that assms Some by (auto simp: delete_block_actor_def tpm_ok_def Let_def split: if_splits)
  ultimately show ?thesis by (simp add: tpm_ok_def)
qed

lemma make_pool_of_tpm: "make_pool_of cfg h = Inr (p, h') \<Longrightarrow> tpm_ok h \<Longrightarrow> tpm_ok h'"
  by (auto simp: make_pool_of_def res_simps tpm_ok_def actors_on_def)

lemma new_block_actor_snd: "new_block_actor p h = (a, h') \<Longrightarrow> tpm_ok h \<Longrightarrow> tpm_ok h'"
  using tpm_ok_new [of h p] by simp

lemma tpm_ok_active: "tpm_ok (h\<lparr>ho_active := x\<rparr>) = tpm_ok h"
  by (simp add: tpm_ok_def actors_on_def)

lemma tpm_ok_make:
  "make_block_actor pe tp h = Inr (a, h') \<Longrightarrow> tpm_ok h \<Longrightarrow> tpm_ok h'"
  by (auto simp: make_block_actor_def Let_def res_simps split: option.splits if_splits
      dest!: make_pool_of_tpm new_block_actor_snd [OF sym] new_block_actor_snd simp: tpm_ok_active)

lemma send_updates:
  "foldE (\<lambda>i. send_update actor (f i)) is (h, s) =
     (if is = [] \<or> ho_actors h actor \<noteq> None then Inr (h, s @ map (\<lambda>i. (actor, f i)) is)
      else Inl (Undefined ''use of a deleted actor''))"
  by (induction "is" arbitrary: s) (auto simp: send_update_def)

lemma tpm_ok_migrate: "migrate pe b h = Inr (b', h') \<Longrightarrow> tpm_ok h \<Longrightarrow> tpm_ok h'"
  by (auto simp: migrate_def Let_def res_simps split: option.splits if_splits
      intro!: tpm_ok_delete elim: tpm_ok_make)

lemma tpm_ok_commit: "block_commit_config pe b h = Inr (b', h', msgs) \<Longrightarrow> tpm_ok h \<Longrightarrow> tpm_ok h'"
  by (auto simp: block_commit_config_def Let_def res_simps send_updates tpm_ok_migrate split: if_splits)

lemma host_step_tpm: "host_step h h' \<Longrightarrow> tpm_ok h \<Longrightarrow> tpm_ok h'"
proof (induction rule: host_step.induct)
  case (cleanup h b)
  then show ?case by (simp add: block_cleanup_def tpm_ok_delete)
next
  case (refs h r)
  then show ?case by (simp add: tpm_ok_def actors_on_def)
qed (erule (1) tpm_ok_make, erule (1) tpm_ok_commit, simp add: tpm_ok_active)

section \<open>Properties\<close>

text \<open>C34 Whatever blocks are made, migrated and destroyed, the map of thread pools has an entry for
  exactly the pools that an actor runs on, with exactly the actors on it.\<close>

theorem thread_pool_map_exact:
  assumes "host_reach h"
  shows "ho_tpm h p = (if \<exists>a. ho_actors h a = Some p then Some {a. ho_actors h a = Some p} else None)"
proof -
  from assms have "tpm_ok h"
  proof (induction rule: host_reach.induct)
    case start
    show ?case by (simp add: tpm_ok_def actors_on_def)
  qed (rule host_step_tpm)
  then show ?thesis by (auto simp: tpm_ok_def actors_on_def)
qed

definition sample_pe :: process_env where
  "sample_pe = \<lparr>pe_hardware = 4, pe_gras_yield = None, pe_gras_tpp = False\<rparr>"

definition sample_hosts :: hosts where
  "sample_hosts = \<lparr>ho_pools = [0 \<mapsto> (4, YIELD_BLOCKING)], ho_next_pool = 1, ho_active = Some 0, ho_refs = {},
     ho_actors = [0 \<mapsto> 0], ho_next_actor = 1, ho_tpm = [0 \<mapsto> {0}]\<rparr>"

lemma sample_hosts_reach: "host_reach sample_hosts"
proof -
  have "make_block_actor sample_pe None \<lparr>ho_pools = (\<lambda>_. None), ho_next_pool = 0, ho_active = None, ho_refs = {},
      ho_actors = (\<lambda>_. None), ho_next_actor = 0, ho_tpm = (\<lambda>_. None)\<rparr> = Inr (0, sample_hosts)"
    by (simp add: make_block_actor_def make_pool_of_def default_pool_config_def yield_of_def sample_pe_def
        sample_hosts_def new_block_actor_def Let_def)
  then show ?thesis by (rule host_reach.step [OF host_reach.start host_step.make])
qed

lemma thread_pool_map_exact_witness:
  "ho_tpm sample_hosts 0 = Some {0} \<and> ho_tpm sample_hosts 1 = None"
proof -
  have "{a. ho_actors sample_hosts a = Some 0} = {0}" by (auto simp: sample_hosts_def split: if_splits)
  then show ?thesis
    using thread_pool_map_exact [OF sample_hosts_reach, of 0] thread_pool_map_exact [OF sample_hosts_reach, of 1]
    by (auto simp: sample_hosts_def split: if_splits)
qed

text \<open>C39 Committing the config of a block on its own thread pool sends its actor one update per input
  and then one per output. If the config names another pool, the block gets a new actor on it, but
  the updates go through a reference to the deleted actor: for any block with a port this is a use
  after free.\<close>

theorem commit_config_updates:
  assumes "ho_actors h (bi_actor b) = Some p"
  shows "(gc_thread_pool (bi_config b) \<in> {None, Some p} \<longrightarrow>
      block_commit_config pe b h = Inr (b, h, map (\<lambda>i. (bi_actor b, InputUpdate i)) [0..<bi_num_inputs b]
        @ map (\<lambda>i. (bi_actor b, OutputUpdate i)) [0..<bi_num_outputs b]))
    \<and> (\<forall>q. gc_thread_pool (bi_config b) = Some q \<longrightarrow> q \<noteq> p \<longrightarrow> 0 < bi_num_inputs b + bi_num_outputs b
      \<longrightarrow> bi_actor b < ho_next_actor h
      \<longrightarrow> block_commit_config pe b h = Inl (Undefined ''use of a deleted actor''))"
proof -
  have "block_commit_config pe b h = Inr (b, h, map (\<lambda>i. (bi_actor b, InputUpdate i)) [0..<bi_num_inputs b]
        @ map (\<lambda>i. (bi_actor b, OutputUpdate i)) [0..<bi_num_outputs b])"
    if "gc_thread_pool (bi_config b) \<in> {None, Some p}"
    using that assms by (auto simp: block_commit_config_def migrate_def Let_def send_updates)
  moreover have "block_commit_config pe b h = Inl (Undefined ''use of a deleted actor'')"
    if "gc_thread_pool (bi_config b) = Some q" "q \<noteq> p" "0 < bi_num_inputs b + bi_num_outputs b"
      "bi_actor b < ho_next_actor h" for q
    using that assms
    by (auto simp: block_commit_config_def migrate_def make_block_actor_def new_block_actor_def setup_actor_def
        delete_block_actor_def send_updates Let_def)
  ultimately show ?thesis by blast
qed

lemma commit_config_updates_witness:
  "block_commit_config sample_pe
     \<lparr>bi_actor = 0, bi_pool = 0, bi_config = default_global_config\<lparr>gc_thread_pool := Some 1\<rparr>,
      bi_num_inputs = 1, bi_num_outputs = 0\<rparr> sample_hosts
   = Inl (Undefined ''use of a deleted actor'')
   \<and> block_commit_config sample_pe
     \<lparr>bi_actor = 0, bi_pool = 0, bi_config = default_global_config, bi_num_inputs = 1, bi_num_outputs = 0\<rparr> sample_hosts
   \<noteq> Inl (Undefined ''use of a deleted actor'')"
  (is "block_commit_config _ ?b _ = _ \<and> block_commit_config _ ?c _ \<noteq> _")
proof -
  have "block_commit_config sample_pe ?b sample_hosts = Inl (Undefined ''use of a deleted actor'')"
    by (rule commit_config_updates [of _ _ 0, THEN conjunct2, THEN spec [of _ 1], THEN mp, THEN mp, THEN mp, THEN mp])
      (simp_all add: sample_hosts_def)
  moreover have "ho_actors sample_hosts (bi_actor ?c) = Some 0" by (simp add: sample_hosts_def)
  from commit_config_updates [OF this, of sample_pe]
  have "block_commit_config sample_pe ?c sample_hosts \<noteq> Inl (Undefined ''use of a deleted actor'')"
    by (simp add: default_global_config_def)
  ultimately show ?thesis by blast
qed



end
