(* ===== verification/Interruptible_Thread.thy ===== *)
theory Interruptible_Thread
  imports Gras_Prelude
begin

text \<open>
  lib/gras_impl/interruptible_thread.hpp: the thread that runs a block's work function for its actor,
  as the interleaved steps of the two threads. The two flags, the callable and the mutex are shared;
  a step is what a thread does between two operations on the mutex.

  A thread that waits on the condition variable may wake at any time: a wait returns after a
  notification or spuriously, and both waits are in loops that test their flag again.
\<close>

section \<open>State\<close>

datatype caller_pc =
    Idle       \<comment> \<open>outside \<open>call\<close>\<close>
  | Relock     \<comment> \<open>in \<open>_notify\<close>, after the unlock\<close>
  | Await_Ack  \<comment> \<open>has the lock, at \<open>while (_wait_ack)\<close>\<close>
  | Asleep     \<comment> \<open>in \<open>_cond.wait\<close>\<close>
  | Stopping   \<comment> \<open>in the destructor, before \<open>interrupt\<close>\<close>
  | Joining    \<comment> \<open>in the destructor, at \<open>join\<close>\<close>
  | Destroyed

datatype thread_pc =
    Spawned    \<comment> \<open>before the lock of \<open>run\<close>\<close>
  | Loop_Head  \<comment> \<open>has the lock, at the test for an interruption\<close>
  | Await_Msg  \<comment> \<open>has the lock, at \<open>while (_wait_msg)\<close>\<close>
  | Sleeping   \<comment> \<open>in \<open>_cond.wait\<close>\<close>
  | Working    \<comment> \<open>has the lock, in \<open>_callable()\<close>\<close>
  | Notifying  \<comment> \<open>in \<open>_notify\<close>, after the unlock\<close>
  | Leaving    \<comment> \<open>has the lock, after the loop\<close>
  | Last_Lock  \<comment> \<open>in the last \<open>_notify\<close>, after the unlock\<close>
  | Gone

record ithread =
  it_caller :: caller_pc
  it_thread :: thread_pc
  it_wait_msg :: bool
  it_wait_ack :: bool
  it_callable :: bool
  it_interrupt :: bool
  it_runs :: nat      \<comment> \<open>runs of the callable begun\<close>
  it_calls :: nat     \<comment> \<open>calls that were acknowledged\<close>

definition new_thread :: ithread where
  "new_thread = \<lparr>it_caller = Idle, it_thread = Spawned, it_wait_msg = True, it_wait_ack = True,
     it_callable = True, it_interrupt = False, it_runs = 0, it_calls = 0\<rparr>"

definition thread_holds :: "ithread \<Rightarrow> bool" where
  "thread_holds s \<longleftrightarrow> it_thread s \<in> {Loop_Head, Await_Msg, Working, Leaving}"

definition caller_holds :: "ithread \<Rightarrow> bool" where
  "caller_holds s \<longleftrightarrow> it_caller s = Await_Ack"

section \<open>Steps\<close>

text \<open>The steps of \<open>call\<close> and of the destructor.\<close>

inductive caller_step :: "ithread \<Rightarrow> ithread \<Rightarrow> bool" where
  call: "it_caller s = Idle \<Longrightarrow> \<not> thread_holds s \<Longrightarrow> it_callable s \<Longrightarrow>
    caller_step s (s\<lparr>it_wait_msg := False, it_caller := Relock\<rparr>)"
| call_empty: "it_caller s = Idle \<Longrightarrow> \<not> thread_holds s \<Longrightarrow> \<not> it_callable s \<Longrightarrow> caller_step s s"
| relock: "it_caller s = Relock \<Longrightarrow> \<not> thread_holds s \<Longrightarrow> caller_step s (s\<lparr>it_caller := Await_Ack\<rparr>)"
| sleep: "it_caller s = Await_Ack \<Longrightarrow> it_wait_ack s \<Longrightarrow> caller_step s (s\<lparr>it_caller := Asleep\<rparr>)"
| wake: "it_caller s = Asleep \<Longrightarrow> \<not> thread_holds s \<Longrightarrow> caller_step s (s\<lparr>it_caller := Await_Ack\<rparr>)"
| acked: "it_caller s = Await_Ack \<Longrightarrow> \<not> it_wait_ack s \<Longrightarrow>
    caller_step s (s\<lparr>it_wait_ack := True, it_caller := Idle, it_calls := Suc (it_calls s)\<rparr>)"
| destroy: "it_caller s = Idle \<Longrightarrow> \<not> thread_holds s \<Longrightarrow>
    caller_step s (s\<lparr>it_callable := False, it_caller := Stopping\<rparr>)"
| interrupt: "it_caller s = Stopping \<Longrightarrow> caller_step s (s\<lparr>it_interrupt := True, it_caller := Joining\<rparr>)"
| joined: "it_caller s = Joining \<Longrightarrow> it_thread s = Gone \<Longrightarrow> caller_step s (s\<lparr>it_caller := Destroyed\<rparr>)"

text \<open>The steps of \<open>run\<close>. The interruption of the thread is requested by the destructor or, with the
  whole thread group, by the top block; it ends a wait, and may end the callable. The callable may
  also throw.\<close>

inductive thread_step :: "ithread \<Rightarrow> ithread \<Rightarrow> bool" where
  begin_run: "it_thread s = Spawned \<Longrightarrow> \<not> caller_holds s \<Longrightarrow> thread_step s (s\<lparr>it_thread := Loop_Head\<rparr>)"
| go_on: "it_thread s = Loop_Head \<Longrightarrow> \<not> it_interrupt s \<Longrightarrow> thread_step s (s\<lparr>it_thread := Await_Msg\<rparr>)"
| interrupted: "it_thread s = Loop_Head \<Longrightarrow> it_interrupt s \<Longrightarrow> thread_step s (s\<lparr>it_thread := Leaving\<rparr>)"
| wait: "it_thread s = Await_Msg \<Longrightarrow> it_wait_msg s \<Longrightarrow> thread_step s (s\<lparr>it_thread := Sleeping\<rparr>)"
| woken: "it_thread s = Sleeping \<Longrightarrow> \<not> caller_holds s \<Longrightarrow> thread_step s (s\<lparr>it_thread := Await_Msg\<rparr>)"
| wait_interrupted: "it_thread s = Sleeping \<Longrightarrow> \<not> caller_holds s \<Longrightarrow> it_interrupt s \<Longrightarrow>
    thread_step s (s\<lparr>it_thread := Leaving, it_interrupt := False\<rparr>)"
| empty: "it_thread s = Await_Msg \<Longrightarrow> \<not> it_wait_msg s \<Longrightarrow> \<not> it_callable s \<Longrightarrow>
    thread_step s (s\<lparr>it_wait_msg := True, it_thread := Leaving\<rparr>)"
| run: "it_thread s = Await_Msg \<Longrightarrow> \<not> it_wait_msg s \<Longrightarrow> it_callable s \<Longrightarrow>
    thread_step s (s\<lparr>it_wait_msg := True, it_thread := Working, it_runs := Suc (it_runs s)\<rparr>)"
| worked: "it_thread s = Working \<Longrightarrow> thread_step s (s\<lparr>it_wait_ack := False, it_thread := Notifying\<rparr>)"
| threw: "it_thread s = Working \<Longrightarrow> thread_step s (s\<lparr>it_thread := Leaving\<rparr>)"
| again: "it_thread s = Notifying \<Longrightarrow> \<not> caller_holds s \<Longrightarrow> thread_step s (s\<lparr>it_thread := Loop_Head\<rparr>)"
| leave: "it_thread s = Leaving \<Longrightarrow>
    thread_step s (s\<lparr>it_callable := False, it_wait_ack := False, it_thread := Last_Lock\<rparr>)"
| gone: "it_thread s = Last_Lock \<Longrightarrow> \<not> caller_holds s \<Longrightarrow> thread_step s (s\<lparr>it_thread := Gone\<rparr>)"

inductive ithread_reach :: "ithread \<Rightarrow> bool" where
  start: "ithread_reach new_thread"
| by_caller: "ithread_reach s \<Longrightarrow> caller_step s s' \<Longrightarrow> ithread_reach s'"
| by_thread: "ithread_reach s \<Longrightarrow> thread_step s s' \<Longrightarrow> ithread_reach s'"
| by_group: "ithread_reach s \<Longrightarrow> ithread_reach (s\<lparr>it_interrupt := True\<rparr>)"

section \<open>The invariant\<close>

definition ended :: "ithread \<Rightarrow> bool" where
  "ended s \<longleftrightarrow> it_thread s \<in> {Leaving, Last_Lock, Gone}"

definition in_call :: "ithread \<Rightarrow> bool" where
  "in_call s \<longleftrightarrow> it_caller s \<in> {Relock, Await_Ack, Asleep}"

text \<open>The lock is never held twice, and while the thread lives a call is in one of three phases:
  requested, at work, acknowledged.\<close>

definition phases :: "ithread \<Rightarrow> bool" where
  "phases s \<longleftrightarrow> \<not> (thread_holds s \<and> caller_holds s)
     \<and> (it_thread s \<in> {Last_Lock, Gone} \<longrightarrow> \<not> it_callable s \<and> (in_call s \<longrightarrow> \<not> it_wait_ack s))
     \<and> (\<not> ended s \<longrightarrow>
          (if in_call s
           then (it_thread s = Working \<and> it_wait_msg s \<and> it_wait_ack s \<and> it_runs s = Suc (it_calls s))
              \<or> (it_thread s \<noteq> Working \<and> \<not> it_wait_msg s \<and> it_wait_ack s \<and> it_runs s = it_calls s)
              \<or> (it_thread s \<noteq> Working \<and> it_wait_msg s \<and> \<not> it_wait_ack s \<and> it_runs s = Suc (it_calls s))
           else it_thread s \<noteq> Working \<and> it_wait_msg s \<and> it_wait_ack s \<and> it_runs s = it_calls s))
     \<and> it_runs s \<le> Suc (it_calls s)"

lemmas it_defs = phases_def ended_def in_call_def thread_holds_def caller_holds_def

lemma caller_step_phases: "caller_step s s' \<Longrightarrow> phases s \<Longrightarrow> phases s'"
  by (induction rule: caller_step.induct) (auto simp: it_defs)

lemma thread_step_phases: "thread_step s s' \<Longrightarrow> phases s \<Longrightarrow> phases s'"
  by (induction rule: thread_step.induct) (auto simp: it_defs split: if_splits)

lemma reach_phases: "ithread_reach s \<Longrightarrow> phases s"
proof (induction rule: ithread_reach.induct)
  case start
  show ?case by (simp add: it_defs new_thread_def)
next
  case (by_group s)
  then show ?case by (simp add: it_defs)
qed (erule (1) caller_step_phases, erule (1) thread_step_phases)

section \<open>Properties\<close>

lemma ended_stays:
  "caller_step s s' \<Longrightarrow> ended s \<Longrightarrow> ended s' \<and> it_runs s' = it_runs s"
  "thread_step s s' \<Longrightarrow> ended s \<Longrightarrow> ended s' \<and> it_runs s' = it_runs s"
  by (auto simp: ended_def elim!: caller_step.cases thread_step.cases)

text \<open>C35 The callable runs only while the actor is inside \<open>call\<close> and without the lock, and as long as
  the thread has not ended each \<open>call\<close> that returned ran it exactly once. Once the thread has ended,
  by an interruption or an exception of the callable, no later \<open>call\<close> runs it again.\<close>

theorem call_runs_callable_once:
  assumes "ithread_reach s"
  shows "(it_thread s = Working \<longrightarrow> it_caller s = Relock \<or> it_caller s = Asleep)
    \<and> (\<not> ended s \<longrightarrow> it_caller s = Idle \<longrightarrow> it_runs s = it_calls s)
    \<and> (ended s \<longrightarrow> (\<forall>s'. caller_step s s' \<or> thread_step s s' \<longrightarrow> ended s' \<and> it_runs s' = it_runs s))"
proof -
  have "phases s" using assms by (rule reach_phases)
  then have "it_thread s = Working \<longrightarrow> it_caller s = Relock \<or> it_caller s = Asleep"
    and "\<not> ended s \<longrightarrow> it_caller s = Idle \<longrightarrow> it_runs s = it_calls s"
    by (auto simp: it_defs split: if_splits)
  then show ?thesis using ended_stays by blast
qed

lemma call_runs_callable_once_witness:
  "\<exists>s. ithread_reach s \<and> it_thread s = Notifying \<and> it_caller s = Idle \<and> it_calls s = 1 \<and> it_runs s = 1"
proof -
  have 1: "ithread_reach (new_thread\<lparr>it_wait_msg := False, it_caller := Relock\<rparr>)"
    by (rule by_caller [OF ithread_reach.start call]) (simp_all add: new_thread_def thread_holds_def)
  have 2: "ithread_reach (new_thread\<lparr>it_wait_msg := False, it_caller := Relock, it_thread := Loop_Head\<rparr>)"
    using by_thread [OF 1 begin_run] by (simp add: new_thread_def caller_holds_def)
  have 3: "ithread_reach (new_thread\<lparr>it_wait_msg := False, it_caller := Relock, it_thread := Await_Msg\<rparr>)"
    using by_thread [OF 2 go_on] by (simp add: new_thread_def)
  have 4: "ithread_reach (new_thread\<lparr>it_wait_msg := True, it_caller := Relock, it_thread := Working, it_runs := 1\<rparr>)"
    using by_thread [OF 3 run] by (simp add: new_thread_def)
  have 5: "ithread_reach (new_thread\<lparr>it_caller := Relock, it_thread := Notifying, it_runs := 1, it_wait_ack := False\<rparr>)"
    using by_thread [OF 4 worked] by (simp add: new_thread_def)
  have 6: "ithread_reach (new_thread\<lparr>it_caller := Await_Ack, it_thread := Notifying, it_runs := 1, it_wait_ack := False\<rparr>)"
    using by_caller [OF 5 relock] by (simp add: new_thread_def thread_holds_def)
  have 7: "ithread_reach (new_thread\<lparr>it_thread := Notifying, it_runs := 1, it_calls := 1\<rparr>)"
    using by_caller [OF 6 acked] by (simp add: new_thread_def)
  then have "it_runs (new_thread\<lparr>it_thread := Notifying, it_runs := 1, it_calls := 1\<rparr>)
      = it_calls (new_thread\<lparr>it_thread := Notifying, it_runs := 1, it_calls := 1\<rparr>)"
    using call_runs_callable_once [OF 7] by (simp add: ended_def new_thread_def)
  with 7 show ?thesis by (intro exI conjI) (assumption | simp add: new_thread_def)+
qed

end
