(* ===== verification/Circ_Memory.thy ===== *)
theory Circ_Memory
  imports Circ_Queue Element_Tree
begin

text \<open>
  lib/circular_buffer.cpp: the memory of a circular buffer, one shared memory object mapped twice in a
  row, with its three attempts, its self test and its deletion.

  The calls of boost::interprocess and of the C library are parameters: which of them succeed, the
  address the kernel picks, the clock and the random numbers. What they change is the state \<open>vm\<close>: the
  names of the shared memory objects, their bytes, and which byte of which object each virtual address
  shows. An exception keeps the state in which it was thrown.
\<close>

section \<open>Shared memory\<close>

record vm =
  vm_names :: "string \<Rightarrow> nat option"
  vm_objs :: "nat \<Rightarrow> byte list"
  vm_next :: nat
  vm_pages :: "nat \<Rightarrow> (nat \<times> nat) option"   \<comment> \<open>the object and the offset at an address\<close>
  vm_calls :: nat                            \<comment> \<open>library calls made\<close>
  vm_count :: nat                            \<comment> \<open>\<open>count\<close> of \<open>omg_so_unique\<close>\<close>
  vm_rands :: nat                            \<comment> \<open>calls of \<open>std::rand\<close>\<close>

record ipc =
  ip_page :: nat
  ip_ok :: "nat \<Rightarrow> bool"        \<comment> \<open>whether a call succeeds\<close>
  ip_addr :: "nat \<Rightarrow> nat"       \<comment> \<open>the address of a region mapped anywhere\<close>
  ip_tid :: string
  ip_clock :: "nat \<Rightarrow> nat"
  ip_rand :: "nat \<Rightarrow> nat"

datatype mem_exn = Ipc_Exception | Other exn

type_synonym 'a vmop = "vm \<Rightarrow> (mem_exn + 'a) \<times> vm"

definition ret :: "'a \<Rightarrow> 'a vmop" where
  "ret x s = (Inr x, s)"

definition bindS :: "'a vmop \<Rightarrow> ('a \<Rightarrow> 'b vmop) \<Rightarrow> 'b vmop" where
  "bindS m f s = (case m s of (Inl e, s) \<Rightarrow> (Inl e, s) | (Inr x, s) \<Rightarrow> f x s)"

text \<open>The destructor of a local object or of a constructed member runs when an exception passes it.\<close>

definition unwind :: "'a vmop \<Rightarrow> (vm \<Rightarrow> vm) \<Rightarrow> 'a vmop" where
  "unwind m d s = (case m s of (Inl e, s) \<Rightarrow> (Inl e, d s) | r \<Rightarrow> r)"

definition lib_call :: "ipc \<Rightarrow> (vm \<Rightarrow> ('a \<times> vm) option) \<Rightarrow> 'a vmop" where
  "lib_call ip f s =
     (let t = s\<lparr>vm_calls := Suc (vm_calls s)\<rparr>
      in if \<not> ip_ok ip (vm_calls s) then (Inl Ipc_Exception, t)
         else case f t of None \<Rightarrow> (Inl Ipc_Exception, t) | Some (x, u) \<Rightarrow> (Inr x, u))"

text \<open>\<open>create_only\<close>: the name must be new.\<close>

definition shm_create :: "ipc \<Rightarrow> string \<Rightarrow> nat vmop" where
  "shm_create ip name = lib_call ip (\<lambda>s.
     if vm_names s name \<noteq> None then None
     else Some (vm_next s, s\<lparr>vm_names := (vm_names s)(name \<mapsto> vm_next s),
                             vm_objs := (vm_objs s)(vm_next s := []), vm_next := Suc (vm_next s)\<rparr>))"

definition shm_truncate :: "ipc \<Rightarrow> nat \<Rightarrow> nat \<Rightarrow> unit vmop" where
  "shm_truncate ip obj n = lib_call ip (\<lambda>s.
     Some ((), s\<lparr>vm_objs := (vm_objs s)(obj := resize n 0 (vm_objs s obj))\<rparr>))"

definition shm_remove :: "string \<Rightarrow> vm \<Rightarrow> vm" where
  "shm_remove name s = s\<lparr>vm_names := (vm_names s)(name := None)\<rparr>"

definition free_range :: "nat \<Rightarrow> nat \<Rightarrow> vm \<Rightarrow> bool" where
  "free_range a n s \<longleftrightarrow> list_all (\<lambda>x. vm_pages s x = None) [a..<a + n]"

text \<open>A region at a given address is mapped there or not at all.\<close>

definition map_region :: "ipc \<Rightarrow> nat \<Rightarrow> nat \<Rightarrow> nat option \<Rightarrow> nat vmop" where
  "map_region ip obj n at s =
     (let a = (case at of Some a \<Rightarrow> a | None \<Rightarrow> ip_addr ip (vm_calls s))
      in lib_call ip (\<lambda>s.
        if free_range a n s
        then Some (a, s\<lparr>vm_pages := (\<lambda>x. if a \<le> x \<and> x < a + n then Some (obj, x - a) else vm_pages s x)\<rparr>)
        else None) s)"

definition unmap_region :: "nat \<Rightarrow> nat \<Rightarrow> vm \<Rightarrow> vm" where
  "unmap_region a n s = s\<lparr>vm_pages := (\<lambda>x. if a \<le> x \<and> x < a + n then None else vm_pages s x)\<rparr>"

text \<open>Access through an address; one that shows nothing is a fault.\<close>

definition read_byte :: "nat \<Rightarrow> vm \<Rightarrow> mem_exn + byte" where
  "read_byte a s = (case vm_pages s a of
     None \<Rightarrow> Inl (Other (Undefined ''unmapped address''))
   | Some (obj, k) \<Rightarrow> if k < length (vm_objs s obj) then Inr (vm_objs s obj ! k)
       else Inl (Other (Undefined ''beyond the object'')))"

definition write_byte :: "nat \<Rightarrow> byte \<Rightarrow> unit vmop" where
  "write_byte a v s = (case vm_pages s a of
     None \<Rightarrow> (Inl (Other (Undefined ''unmapped address'')), s)
   | Some (obj, k) \<Rightarrow> if k < length (vm_objs s obj)
       then (Inr (), s\<lparr>vm_objs := (vm_objs s)(obj := (vm_objs s obj)[k := v])\<rparr>)
       else (Inl (Other (Undefined ''beyond the object'')), s))"

fun write_bytes :: "nat \<Rightarrow> byte list \<Rightarrow> unit vmop" where
  "write_bytes a [] = ret ()"
| "write_bytes a (v # vs) = bindS (write_byte a v) (\<lambda>_. write_bytes (Suc a) vs)"

fun read_bytes :: "nat \<Rightarrow> nat \<Rightarrow> vm \<Rightarrow> mem_exn + byte list" where
  "read_bytes a 0 s = Inr []"
| "read_bytes a (Suc n) s = (case read_byte a s of Inl e \<Rightarrow> Inl e | Inr v \<Rightarrow>
     (case read_bytes (Suc a) n s of Inl e \<Rightarrow> Inl e | Inr vs \<Rightarrow> Inr (v # vs)))"

text \<open>A \<open>uint32_t\<close>, least significant byte first.\<close>

definition encode32 :: "nat \<Rightarrow> byte list" where
  "encode32 n = map (\<lambda>j. of_nat (n div 256 ^ j)) [0, 1, 2, 3]"

definition decode32 :: "byte list \<Rightarrow> nat" where
  "decode32 vs = foldr (\<lambda>v n. unat v + 256 * n) vs 0"

section \<open>The circular buffer\<close>

definition omg_so_unique :: "ipc \<Rightarrow> vm \<Rightarrow> string \<times> vm" where
  "omg_so_unique ip s =
     (''shmem-'' @ ip_tid ip @ ''-'' @ dec (vm_count s) @ ''-'' @ dec (ip_clock ip (vm_calls s)),
      s\<lparr>vm_count := sz_add (vm_count s) 1\<rparr>)"

definition round_up_to_ipc_page :: "nat \<Rightarrow> nat \<Rightarrow> nat" where
  "round_up_to_ipc_page chunk n = sz_mul chunk (sz_sub (sz_add n chunk) 1 div chunk)"

definition probably_get_vmem :: "ipc \<Rightarrow> nat \<Rightarrow> nat vmop" where
  "probably_get_vmem ip n s =
     (let (name, s) = omg_so_unique ip s
      in bindS (shm_create ip name) (\<lambda>obj.
         bindS (shm_truncate ip obj n) (\<lambda>_.
         bindS (map_region ip obj n None) (\<lambda>addr s.
           (Inr addr, shm_remove name (unmap_region addr n s))))) s)"

record circular_buffer =
  cb_addr :: nat
  cb_length :: nat
  cb_name :: string
  cb_obj :: nat

text \<open>The self test writes every word of the first mapping and reads it in the second.\<close>

definition test_word :: "ipc \<Rightarrow> nat \<Rightarrow> nat \<Rightarrow> nat \<Rightarrow> unit vmop" where
  "test_word ip base len i s =
     (let num = ip_rand ip (vm_rands s) mod 2 ^ 32;
          s = s\<lparr>vm_rands := Suc (vm_rands s)\<rparr>
      in bindS (write_bytes (base + 4 * i) (encode32 num)) (\<lambda>_ s.
           case read_bytes (base + 4 * (i + len div 4)) 4 s of
             Inl e \<Rightarrow> (Inl e, s)
           | Inr vs \<Rightarrow> (if decode32 vs = num then Inr () else Inl (Other (Assert_Fail ''mem[i+actual_length/sizeof(*mem)] == num'')), s)) s)"

fun test_loop :: "ipc \<Rightarrow> nat \<Rightarrow> nat \<Rightarrow> nat list \<Rightarrow> unit vmop" where
  "test_loop ip base len [] = ret ()"
| "test_loop ip base len (i # is) = bindS (test_word ip base len i) (\<lambda>_. test_loop ip base len is)"

definition new_circular_buffer :: "ipc \<Rightarrow> nat \<Rightarrow> circular_buffer vmop" where
  "new_circular_buffer ip num_bytes =
     (let n = round_up_to_ipc_page (ip_page ip) num_bytes
      in bindS (probably_get_vmem ip (sz_mul n 2)) (\<lambda>addr s.
         let (name, s) = omg_so_unique ip s
         in bindS (shm_create ip name) (\<lambda>obj.
            bindS (shm_truncate ip obj n) (\<lambda>_.
            bindS (map_region ip obj n (Some addr)) (\<lambda>region1. unwind
              (bindS (map_region ip obj n (Some (addr + n))) (\<lambda>region2. unwind
                (bindS (test_loop ip addr n [0..<n div 4]) (\<lambda>_.
                 bindS (write_bytes addr (replicate n 0)) (\<lambda>_.
                   ret \<lparr>cb_addr = addr, cb_length = n, cb_name = name, cb_obj = obj\<rparr>)))
                (unmap_region region2 n)))
              (unmap_region region1 n)))) s))"

text \<open>\<open>circular_buffer_delete\<close> and \<open>CircularBuffer::~CircularBuffer\<close>.\<close>

definition delete_circular_buffer :: "circular_buffer \<Rightarrow> vm \<Rightarrow> vm" where
  "delete_circular_buffer cb s =
     unmap_region (cb_addr cb) (cb_length cb) (unmap_region (cb_addr cb + cb_length cb) (cb_length cb)
       (shm_remove (cb_name cb) s))"

text \<open>The loop of \<open>make_circular_buffer\<close> after \<open>trial_count\<close> attempts; \<open>out\<close> are the attempts it has
  complained about.\<close>

partial_function (option) trials ::
  "ipc \<Rightarrow> nat \<Rightarrow> nat \<Rightarrow> nat list \<Rightarrow> vm \<Rightarrow> ((mem_exn + circular_buffer) \<times> nat list \<times> vm) option" where
  "trials ip num_bytes trial_count out s =
     (case new_circular_buffer ip num_bytes s of
        (Inr cb, s) \<Rightarrow> Some (Inr cb, out, s)
      | (Inl (Other e), s) \<Rightarrow> Some (Inl (Other e), out, s)
      | (Inl Ipc_Exception, s) \<Rightarrow>
          if Suc trial_count = 3 then Some (Inl Ipc_Exception, out @ [Suc trial_count], s)
          else trials ip num_bytes (Suc trial_count) (out @ [Suc trial_count]) s)"

definition make_circular_buffer ::
  "ipc \<Rightarrow> nat \<Rightarrow> vm \<Rightarrow> ((mem_exn + circular_buffer) \<times> nat list \<times> vm) option" where
  "make_circular_buffer ip num_bytes s = trials ip num_bytes 0 [] s"

section \<open>Reading and writing through the two mappings\<close>

definition mapped :: "nat \<Rightarrow> nat \<Rightarrow> nat \<Rightarrow> vm \<Rightarrow> bool" where
  "mapped base len obj s \<longleftrightarrow> length (vm_objs s obj) = len
     \<and> (\<forall>x < len. vm_pages s (base + x) = Some (obj, x) \<and> vm_pages s (base + len + x) = Some (obj, x))"

lemma mapped_cong:
  "vm_pages s' = vm_pages s \<Longrightarrow> length (vm_objs s' obj) = length (vm_objs s obj) \<Longrightarrow> mapped base len obj s' = mapped base len obj s"
  by (simp add: mapped_def)

lemma write_byte_mapped:
  assumes "mapped base len obj s" and "k < len"
  shows "write_byte (base + k) v s = (Inr (), s\<lparr>vm_objs := (vm_objs s)(obj := (vm_objs s obj)[k := v])\<rparr>)"
  using assms by (simp add: mapped_def write_byte_def)

lemma write_bytes_mapped:
  assumes "mapped base len obj s" and "k + length vs \<le> len"
  shows "write_bytes (base + k) vs s =
    (Inr (), s\<lparr>vm_objs := (vm_objs s)(obj := take k (vm_objs s obj) @ vs @ drop (k + length vs) (vm_objs s obj))\<rparr>)"
  using assms
proof (induction vs arbitrary: k s)
  case Nil
  then show ?case by (simp add: ret_def)
next
  case (Cons v vs)
  let ?o = "vm_objs s obj"
  let ?s = "s\<lparr>vm_objs := (vm_objs s)(obj := ?o[k := v])\<rparr>"
  have k: "k < len" "k < length ?o" using Cons.prems by (auto simp: mapped_def)
  have "mapped base len obj ?s" using Cons.prems(1) by (simp add: mapped_def)
  from Cons.IH [OF this, of "Suc k"] Cons.prems(2)
  have "write_bytes (Suc (base + k)) vs ?s
      = (Inr (), ?s\<lparr>vm_objs := (vm_objs ?s)(obj := take (Suc k) (?o[k := v]) @ vs @ drop (Suc k + length vs) (?o[k := v]))\<rparr>)"
    by (simp del: fun_upd_apply add: fun_upd_same)
  moreover have "take (Suc k) (?o[k := v]) = take k ?o @ [v]" using k by (simp add: take_Suc_conv_app_nth)
  ultimately show ?case using write_byte_mapped [OF Cons.prems(1) k(1)] by (simp add: bindS_def fun_upd_same del: fun_upd_apply)
qed

lemma read_byte_mapped:
  assumes "mapped base len obj s" and "k < len"
  shows "read_byte (base + k) s = Inr (vm_objs s obj ! k)"
    and "read_byte (base + len + k) s = Inr (vm_objs s obj ! k)"
  using assms by (simp_all add: mapped_def read_byte_def)

lemma read_bytes_mapped:
  assumes "mapped base len obj s" and "k + n \<le> len"
  shows "read_bytes (base + len + k) n s = Inr (take n (drop k (vm_objs s obj)))"
  using assms
proof (induction n arbitrary: k)
  case (Suc n)
  from Suc.prems have "k < length (vm_objs s obj)" by (simp add: mapped_def)
  then have "take (Suc n) (drop k (vm_objs s obj)) = vm_objs s obj ! k # take n (drop (Suc k) (vm_objs s obj))"
    by (simp add: Cons_nth_drop_Suc [symmetric])
  with Suc.IH [of "Suc k"] Suc.prems read_byte_mapped(2) [of base len obj s k] show ?case by simp
qed simp

lemma length_encode32 [simp]: "length (encode32 n) = 4"
  by (simp add: encode32_def)

lemma decode_encode32: "n < 2 ^ 32 \<Longrightarrow> decode32 (encode32 n) = n"
proof -
  assume n: "n < 2 ^ 32"
  define a b c where "a = n div 256" and "b = a div 256" and "c = b div 256"
  have "n div 65536 = b" "n div 16777216 = c"
    by (simp_all add: a_def b_def c_def div_mult2_eq [symmetric])
  then have "decode32 (encode32 n) = n mod 256 + 256 * (a mod 256 + 256 * (b mod 256 + 256 * (c mod 256)))"
    by (simp add: decode32_def encode32_def unat_of_nat a_def)
  moreover have "c mod 256 = c" using n by (simp add: a_def b_def c_def div_mult2_eq [symmetric])
  moreover have "n mod 256 + 256 * a = n" "a mod 256 + 256 * b = a" "b mod 256 + 256 * c = b"
    by (simp_all add: a_def b_def c_def)
  ultimately show ?thesis by (simp only:)
qed

text \<open>What the self test leaves alone.\<close>

definition same_map :: "nat \<Rightarrow> vm \<Rightarrow> vm \<Rightarrow> bool" where
  "same_map obj s s' \<longleftrightarrow> vm_pages s' = vm_pages s \<and> vm_names s' = vm_names s
     \<and> length (vm_objs s' obj) = length (vm_objs s obj)"

lemma test_word_passes:
  assumes "mapped base len obj s" and "4 dvd len" and "i < len div 4"
  shows "\<exists>s'. test_word ip base len i s = (Inr (), s') \<and> same_map obj s s'"
proof -
  let ?num = "ip_rand ip (vm_rands s) mod 2 ^ 32" and ?s = "s\<lparr>vm_rands := Suc (vm_rands s)\<rparr>"
  let ?o = "take (4 * i) (vm_objs s obj) @ encode32 ?num @ drop (4 * i + 4) (vm_objs s obj)"
  let ?t = "?s\<lparr>vm_objs := (vm_objs s)(obj := ?o)\<rparr>"
  have i: "4 * i + 4 \<le> len" using assms(2,3) by (auto elim: dvdE)
  have len: "length (vm_objs s obj) = len" using assms(1) by (simp add: mapped_def)
  have s: "mapped base len obj ?s" using assms(1) by (simp add: mapped_def)
  have w: "write_bytes (base + 4 * i) (encode32 ?num) ?s = (Inr (), ?t)"
    using write_bytes_mapped [OF s, of "4 * i" "encode32 ?num"] i by simp
  have "mapped base len obj ?t" using assms(1) i len by (simp add: mapped_def)
  from read_bytes_mapped [OF this, of "4 * i" 4] i len
  have "read_bytes (base + len + 4 * i) 4 ?t = Inr (encode32 ?num)" by simp
  moreover have "base + 4 * (i + len div 4) = base + len + 4 * i" using assms(2) by (auto elim: dvdE)
  ultimately have "test_word ip base len i s = (Inr (), ?t)"
    using w decode_encode32 [of ?num] by (simp add: test_word_def bindS_def Let_def ac_simps)
  moreover have "same_map obj s ?t" using i len by (simp add: same_map_def)
  ultimately show ?thesis by blast
qed

lemma test_loop_passes:
  assumes "mapped base len obj s" and "4 dvd len" and "\<forall>i \<in> set is. i < len div 4"
  shows "\<exists>s'. test_loop ip base len is s = (Inr (), s') \<and> same_map obj s s'"
  using assms
proof (induction "is" arbitrary: s)
  case Nil
  then show ?case by (simp add: ret_def same_map_def)
next
  case (Cons i "is")
  then obtain t where t: "test_word ip base len i s = (Inr (), t)" "same_map obj s t"
    using test_word_passes [of base len obj s i ip] by auto
  then have "mapped base len obj t" using Cons.prems(1) mapped_cong [of t s obj] by (simp add: same_map_def)
  with Cons obtain u where "test_loop ip base len is t = (Inr (), u)" "same_map obj t u" by fastforce
  with t show ?case by (auto simp: bindS_def same_map_def)
qed

section \<open>The construction\<close>

text \<open>No name is lost and no address changes what it shows.\<close>

definition keeps_vm :: "vm \<Rightarrow> vm \<Rightarrow> bool" where
  "keeps_vm s s' \<longleftrightarrow> vm_pages s' = vm_pages s \<and> vm_names s \<subseteq>\<^sub>m vm_names s'"

text \<open>Nothing fails: every call succeeds, nothing is mapped and no name is taken.\<close>

definition undisturbed :: "ipc \<Rightarrow> vm \<Rightarrow> bool" where
  "undisturbed ip s \<longleftrightarrow> (\<forall>k. ip_ok ip k) \<and> vm_pages s = (\<lambda>_. None) \<and> vm_names s = (\<lambda>_. None)"

lemma map_le_fresh: "m k = None \<Longrightarrow> m \<subseteq>\<^sub>m m(k \<mapsto> v)"
  by (auto simp: map_le_def)

text \<open>What each library call does, by cases.\<close>

lemma shm_create_cases:
  obtains (fails) s' where "shm_create ip name s = (Inl Ipc_Exception, s')" "vm_pages s' = vm_pages s" "vm_names s' = vm_names s"
      "\<not> ip_ok ip (vm_calls s) \<or> vm_names s name \<noteq> None"
  | (creates) s' where "shm_create ip name s = (Inr (vm_next s), s')" "vm_pages s' = vm_pages s"
      "vm_names s name = None" "vm_names s' = (vm_names s)(name \<mapsto> vm_next s)"
  by (cases "shm_create ip name s") (auto simp: shm_create_def lib_call_def Let_def split: if_splits)

lemma shm_truncate_cases:
  obtains (fails) s' where "shm_truncate ip obj n s = (Inl Ipc_Exception, s')" "vm_pages s' = vm_pages s" "vm_names s' = vm_names s"
      "\<not> ip_ok ip (vm_calls s)"
  | (sizes) s' where "shm_truncate ip obj n s = (Inr (), s')" "vm_pages s' = vm_pages s" "vm_names s' = vm_names s"
      "length (vm_objs s' obj) = n"
  by (cases "shm_truncate ip obj n s") (auto simp: shm_truncate_def lib_call_def Let_def split: if_splits)

definition shows_at :: "nat \<Rightarrow> nat \<Rightarrow> nat \<Rightarrow> (nat \<Rightarrow> (nat \<times> nat) option) \<Rightarrow> nat \<Rightarrow> (nat \<times> nat) option" where
  "shows_at a n obj pages = (\<lambda>x. if a \<le> x \<and> x < a + n then Some (obj, x - a) else pages x)"

lemma map_region_cases:
  obtains (fails) s' where "map_region ip obj n at s = (Inl Ipc_Exception, s')" "vm_pages s' = vm_pages s"
      "vm_names s' = vm_names s" "vm_objs s' = vm_objs s"
      "\<not> ip_ok ip (vm_calls s) \<or> (\<exists>a x. a \<le> x \<and> x < a + n \<and> (\<forall>b. at = Some b \<longrightarrow> a = b) \<and> vm_pages s x \<noteq> None)"
  | (maps) a s' where "map_region ip obj n at s = (Inr a, s')" "\<forall>b. at = Some b \<longrightarrow> a = b" "free_range a n s"
      "vm_pages s' = shows_at a n obj (vm_pages s)" "vm_names s' = vm_names s" "vm_objs s' = vm_objs s"
proof -
  define a where "a = (case at of Some a \<Rightarrow> a | None \<Rightarrow> ip_addr ip (vm_calls s))"
  have a: "\<forall>b. at = Some b \<longrightarrow> a = b" by (simp add: a_def)
  have e: "map_region ip obj n at s =
    (if ip_ok ip (vm_calls s) \<and> free_range a n s
     then (Inr a, s\<lparr>vm_calls := Suc (vm_calls s), vm_pages := shows_at a n obj (vm_pages s)\<rparr>)
     else (Inl Ipc_Exception, s\<lparr>vm_calls := Suc (vm_calls s)\<rparr>))"
    by (simp add: map_region_def lib_call_def Let_def free_range_def shows_at_def a_def [symmetric] cong: if_cong)
  show ?thesis
  proof (cases "ip_ok ip (vm_calls s) \<and> free_range a n s")
    case True
    with e a show ?thesis
      by (intro that(2) [of a "s\<lparr>vm_calls := Suc (vm_calls s), vm_pages := shows_at a n obj (vm_pages s)\<rparr>"]) simp_all
  next
    case False
    have "\<exists>a x. a \<le> x \<and> x < a + n \<and> (\<forall>b. at = Some b \<longrightarrow> a = b) \<and> vm_pages s x \<noteq> None" if "\<not> free_range a n s"
    proof -
      from that obtain x where "a \<le> x" "x < a + n" "vm_pages s x \<noteq> None" by (auto simp: free_range_def list_all_iff)
      with a show ?thesis by blast
    qed
    with False e show ?thesis by (intro that(1) [of "s\<lparr>vm_calls := Suc (vm_calls s)\<rparr>"]) auto
  qed
qed

lemma unmap_shows_at:
  assumes "free_range a n s" and "vm_pages t = shows_at a n obj (vm_pages s)"
  shows "vm_pages (unmap_region a n t) = vm_pages s"
  using assms by (auto simp: unmap_region_def shows_at_def free_range_def list_all_iff fun_eq_iff)

lemma unmap_region_fields [simp]:
  "vm_names (unmap_region a n s) = vm_names s" "vm_objs (unmap_region a n s) = vm_objs s"
  by (simp_all add: unmap_region_def)

lemma omg_so_unique_fields:
  "omg_so_unique ip s = (name, s') \<Longrightarrow> vm_pages s' = vm_pages s \<and> vm_names s' = vm_names s"
  by (auto simp: omg_so_unique_def)

lemma probably_get_vmem_cases:
  obtains (fails) s' where "probably_get_vmem ip n s = (Inl Ipc_Exception, s')" "keeps_vm s s'" "\<not> undisturbed ip s"
  | (finds) a s' where "probably_get_vmem ip n s = (Inr a, s')" "vm_pages s' = vm_pages s" "vm_names s' = vm_names s"
proof -
  obtain name t where u: "omg_so_unique ip s = (name, t)" by fastforce
  note t = omg_so_unique_fields [OF u]
  show ?thesis
  proof (cases rule: shm_create_cases [of ip name t])
    case (fails s')
    with u t show ?thesis by (intro that(1) [of s']) (auto simp: probably_get_vmem_def bindS_def keeps_vm_def undisturbed_def)
  next
    case (creates t1)
    note c = this
    then have le: "vm_names s \<subseteq>\<^sub>m vm_names t1" using t by (simp add: map_le_fresh)
    show ?thesis
    proof (cases rule: shm_truncate_cases [of ip "vm_next t" n t1])
      case (fails s')
      with u t c le show ?thesis by (intro that(1) [of s']) (auto simp: probably_get_vmem_def bindS_def keeps_vm_def undisturbed_def)
    next
      case (sizes t2)
      note z = this
      show ?thesis
      proof (cases rule: map_region_cases [of ip "vm_next t" n None t2])
        case (fails s')
        with u t c z le show ?thesis by (intro that(1) [of s']) (auto simp: probably_get_vmem_def bindS_def keeps_vm_def undisturbed_def)
      next
        case (maps a t3)
        then have "vm_pages (unmap_region a n t3) = vm_pages t2" by (intro unmap_shows_at)
        moreover have "(vm_names t)(name := None) = vm_names t" using c by auto
        ultimately show ?thesis using u t c z maps
          by (intro that(2) [of a "shm_remove name (unmap_region a n t3)"])
            (simp_all add: probably_get_vmem_def bindS_def shm_remove_def)
      qed
    qed
  qed
qed

text \<open>The test and the zeros, once both regions are mapped.\<close>

lemma test_and_zero:
  assumes "mapped base n obj s" and "4 dvd n"
  shows "\<exists>s'. bindS (test_loop ip base n [0..<n div 4]) (\<lambda>_. bindS (write_bytes base (replicate n 0)) (\<lambda>_. ret x)) s
      = (Inr x, s') \<and> same_map obj s s' \<and> vm_objs s' obj = replicate n 0"
proof -
  obtain t where t: "test_loop ip base n [0..<n div 4] s = (Inr (), t)" "same_map obj s t"
    using test_loop_passes [OF assms, of "[0..<n div 4]" ip] by auto
  then have "mapped base n obj t" using assms(1) mapped_cong [of t s obj] by (simp add: same_map_def)
  from write_bytes_mapped [OF this, of 0 "replicate n 0"] this
  have "write_bytes base (replicate n 0) t = (Inr (), t\<lparr>vm_objs := (vm_objs t)(obj := replicate n 0)\<rparr>)"
    by (simp add: mapped_def)
  with t assms(1) show ?thesis by (auto simp: bindS_def ret_def same_map_def mapped_def)
qed

lemma two_regions_mapped:
  assumes "vm_pages t = shows_at a n obj pages" and "vm_pages u = shows_at (a + n) n obj (vm_pages t)"
    and "length (vm_objs u obj) = n"
  shows "mapped a n obj u"
  using assms by (simp add: mapped_def shows_at_def)

definition makes_buffer :: "nat \<Rightarrow> vm \<Rightarrow> circular_buffer \<Rightarrow> vm \<Rightarrow> bool" where
  "makes_buffer n s cb s' \<longleftrightarrow> cb_length cb = n \<and> mapped (cb_addr cb) n (cb_obj cb) s'
     \<and> vm_objs s' (cb_obj cb) = replicate n 0
     \<and> vm_names s (cb_name cb) = None \<and> vm_names s' = (vm_names s)(cb_name cb \<mapsto> cb_obj cb)
     \<and> vm_pages (delete_circular_buffer cb s') = vm_pages s"

lemma makes_buffer_if:
  assumes "free_range a n s" "vm_pages t = shows_at a n obj (vm_pages s)"
    and "free_range (a + n) n t" "vm_pages u = shows_at (a + n) n obj (vm_pages t)" "length (vm_objs u obj) = n"
    and "same_map obj u v" "vm_objs v obj = replicate n 0"
    and "vm_names s0 name = None" "vm_names u = (vm_names s0)(name \<mapsto> obj)" "vm_pages s0 = vm_pages s"
  shows "makes_buffer n s0 \<lparr>cb_addr = a, cb_length = n, cb_name = name, cb_obj = obj\<rparr> v"
proof -
  have m: "mapped a n obj v"
    using two_regions_mapped [OF assms(2,4,5)] assms(6) mapped_cong [of v u obj] by (simp add: same_map_def)
  have v: "vm_pages (shm_remove name v) = shows_at (a + n) n obj (vm_pages t)"
    using assms(4,6) by (simp add: shm_remove_def same_map_def)
  have "vm_pages (unmap_region (a + n) n (shm_remove name v)) = shows_at a n obj (vm_pages s)"
    using unmap_shows_at [OF assms(3) v] assms(2) by simp
  from unmap_shows_at [OF assms(1) this] m assms show ?thesis
    by (simp add: makes_buffer_def delete_circular_buffer_def same_map_def)
qed

lemma new_circular_buffer_cases [consumes 2, case_names fails makes]:
  assumes n: "round_up_to_ipc_page (ip_page ip) num_bytes = n" and "4 dvd n"
  obtains (fails) s' where "new_circular_buffer ip num_bytes s = (Inl Ipc_Exception, s')" "keeps_vm s s'" "\<not> undisturbed ip s"
  | (makes) cb s' where "new_circular_buffer ip num_bytes s = (Inr cb, s')" "makes_buffer n s cb s'"
proof (cases rule: probably_get_vmem_cases [of ip "sz_mul n 2" s])
  case (fails s')
  with n show ?thesis by (intro that(1) [of s']) (simp_all add: new_circular_buffer_def bindS_def Let_def)
next
  case (finds addr s1)
  note f = this
  obtain name t where u: "omg_so_unique ip s1 = (name, t)" by fastforce
  note t = omg_so_unique_fields [OF u]
  note start = new_circular_buffer_def bindS_def Let_def n f(1) u
  show ?thesis
  proof (cases rule: shm_create_cases [of ip name t])
    case (fails s')
    with f t show ?thesis by (intro that(1) [of s']) (auto simp: start keeps_vm_def undisturbed_def)
  next
    case (creates t1)
    note c = this
    then have le: "vm_names s \<subseteq>\<^sub>m vm_names t1" using t f by (simp add: map_le_fresh)
    show ?thesis
    proof (cases rule: shm_truncate_cases [of ip "vm_next t" n t1])
      case (fails s')
      with f t c le show ?thesis by (intro that(1) [of s']) (auto simp: start keeps_vm_def undisturbed_def)
    next
      case (sizes t2)
      note z = this
      show ?thesis
      proof (cases rule: map_region_cases [of ip "vm_next t" n "Some addr" t2])
        case (fails s')
        with f t c z le show ?thesis by (intro that(1) [of s']) (auto simp: start keeps_vm_def undisturbed_def)
      next
        case (maps a t3)
        note m = this
        then have a: "a = addr" by simp
        show ?thesis
        proof (cases rule: map_region_cases [of ip "vm_next t" n "Some (addr + n)" t3])
          case (fails s')
          then have "vm_pages (unmap_region addr n s') = vm_pages t2"
            using m a by (intro unmap_shows_at) simp_all
          with fails f t c z m a le show ?thesis
            by (intro that(1) [of "unmap_region addr n s'"]) (auto simp: start unwind_def keeps_vm_def undisturbed_def shows_at_def)
        next
          case (maps b t4)
          then have b: "b = addr + n" by simp
          let ?cb = "\<lparr>cb_addr = addr, cb_length = n, cb_name = name, cb_obj = vm_next t\<rparr>"
          have "length (vm_objs t4 (vm_next t)) = n" using maps m z by simp
          moreover from this have "mapped addr n (vm_next t) t4"
            using two_regions_mapped [of t3 addr n "vm_next t" "vm_pages t2" t4] m maps a b by simp
          from test_and_zero [OF this assms(2), of ip ?cb] obtain v where
            v: "bindS (test_loop ip addr n [0..<n div 4]) (\<lambda>_. bindS (write_bytes addr (replicate n 0)) (\<lambda>_. ret ?cb)) t4
              = (Inr ?cb, v)" "same_map (vm_next t) t4 v" "vm_objs v (vm_next t) = replicate n 0" by blast
          ultimately have "makes_buffer n s ?cb v"
            using maps m a b c z t f by (intro makes_buffer_if [of addr n t2 t3 _ t4]) simp_all
          moreover have "new_circular_buffer ip num_bytes s = (Inr ?cb, v)"
            using maps m a b c z v(1) by (simp add: start unwind_def)
          ultimately show ?thesis by (intro that(2))
        qed
      qed
    qed
  qed
qed

section \<open>The ring\<close>

text \<open>The byte at an offset below twice the length is that of the object at the offset modulo the
  length.\<close>

lemma mapped_page:
  assumes "mapped base len obj s" and "k < 2 * len"
  shows "vm_pages s (base + k) = Some (obj, k mod len)"
proof (cases "k < len")
  case True
  with assms show ?thesis by (simp add: mapped_def)
next
  case False
  then have "k - len < len" using assms(2) by simp
  with assms(1) have "vm_pages s (base + len + (k - len)) = Some (obj, k - len)" unfolding mapped_def by blast
  with False assms(2) show ?thesis by (simp add: le_mod_geq)
qed

lemma mapped_pos: "mapped base len obj s \<Longrightarrow> k < 2 * len \<Longrightarrow> k mod len < length (vm_objs s obj)"
  by (auto simp: mapped_def)

lemma write_byte_ring:
  assumes "mapped base len obj s" and "k < 2 * len"
  shows "write_byte (base + k) v s = (Inr (), s\<lparr>vm_objs := (vm_objs s)(obj := (vm_objs s obj)[k mod len := v])\<rparr>)"
  using mapped_page [OF assms] mapped_pos [OF assms] by (simp add: write_byte_def)

lemma read_byte_ring:
  assumes "mapped base len obj s" and "k < 2 * len"
  shows "read_byte (base + k) s = Inr (vm_objs s obj ! (k mod len))"
  using mapped_page [OF assms] mapped_pos [OF assms] by (simp add: read_byte_def)

lemma write_bytes_ring:
  assumes "mapped base len obj s" and "length vs \<le> len" and "k + length vs \<le> 2 * len"
  shows "\<exists>s'. write_bytes (base + k) vs s = (Inr (), s') \<and> mapped base len obj s'
    \<and> (\<forall>j < length vs. vm_objs s' obj ! ((k + j) mod len) = vs ! j)
    \<and> (\<forall>i < len. (\<forall>j < length vs. (k + j) mod len \<noteq> i) \<longrightarrow> vm_objs s' obj ! i = vm_objs s obj ! i)"
  using assms
proof (induction vs arbitrary: k s)
  case Nil
  then show ?case by (simp add: ret_def)
next
  case (Cons v vs)
  let ?t = "s\<lparr>vm_objs := (vm_objs s)(obj := (vm_objs s obj)[k mod len := v])\<rparr>"
  have k: "k < 2 * len" "0 < len" using Cons.prems by auto
  have t: "write_byte (base + k) v s = (Inr (), ?t)" "mapped base len obj ?t"
    using write_byte_ring [OF Cons.prems(1) k(1)] Cons.prems(1) by (simp_all add: mapped_def)
  from Cons.IH [OF t(2), of "Suc k"] Cons.prems obtain u where
    u: "write_bytes (Suc (base + k)) vs ?t = (Inr (), u)" "mapped base len obj u"
      "\<forall>j < length vs. vm_objs u obj ! ((Suc k + j) mod len) = vs ! j"
      "\<forall>i < len. (\<forall>j < length vs. (Suc k + j) mod len \<noteq> i) \<longrightarrow> vm_objs u obj ! i = vm_objs ?t obj ! i" by auto
  have "(Suc k + j) mod len \<noteq> k mod len" if "j < length vs" for j
    using mod_distinct [of k "Suc j" len 0] that Cons.prems(2) k(2) by auto
  with u(4) k have "vm_objs u obj ! (k mod len) = v" using mapped_pos [OF Cons.prems(1) k(1)] by simp
  with u(3) have "\<forall>j < Suc (length vs). vm_objs u obj ! ((k + j) mod len) = (v # vs) ! j"
    by (auto simp: less_Suc_eq_0_disj)
  moreover have "vm_objs u obj ! i = vm_objs s obj ! i"
    if "i < len" "\<forall>j < Suc (length vs). (k + j) mod len \<noteq> i" for i
  proof -
    have "k mod len \<noteq> i" "\<forall>j < length vs. (Suc k + j) mod len \<noteq> i"
      using that(2) by (auto dest: spec [of _ 0] spec [of _ "Suc _"])
    with u(4) that(1) show ?thesis by simp
  qed
  ultimately show ?case using t(1) u(1,2) by (auto simp: bindS_def)
qed

section \<open>Properties\<close>

lemma round_up_page:
  assumes "0 < p" and "n + p < size_mod"
  shows "round_up_to_ipc_page p n = p * ((n + p - 1) div p)"
    and "n \<le> round_up_to_ipc_page p n" and "round_up_to_ipc_page p n < n + p"
proof -
  have le: "p * ((n + p - 1) div p) \<le> n + p - 1" by simp
  with assms have "p * ((n + p - 1) div p) < size_mod" by linarith
  from sz_mul_exact [OF this] assms show e: "round_up_to_ipc_page p n = p * ((n + p - 1) div p)"
    by (simp add: round_up_to_ipc_page_def exact_sz)
  from le assms show "round_up_to_ipc_page p n < n + p" unfolding e by linarith
  have "p * ((n + p - 1) div p) + (n + p - 1) mod p = n + p - 1" by simp
  moreover have "(n + p - 1) mod p < p" using assms(1) by simp
  ultimately show "n \<le> round_up_to_ipc_page p n" unfolding e by linarith
qed

lemma makes_buffer_zeros: "makes_buffer n t cb s \<Longrightarrow> x < n \<Longrightarrow> read_byte (cb_addr cb + x) s = Inr 0"
  using read_byte_mapped(1) [of "cb_addr cb" n "cb_obj cb" s x] by (auto simp: makes_buffer_def)

lemma makes_buffer_length: "makes_buffer n t cb s \<Longrightarrow> cb_length cb = n"
  by (simp add: makes_buffer_def)

lemma makes_buffer_pages:
  "makes_buffer n t cb s \<Longrightarrow> x < n \<Longrightarrow> vm_pages s (cb_addr cb + x) = Some (cb_obj cb, x)
     \<and> vm_pages s (cb_addr cb + n + x) = Some (cb_obj cb, x)"
  by (simp add: makes_buffer_def mapped_def)

lemma keeps_vm_trans: "keeps_vm s t \<Longrightarrow> keeps_vm t u \<Longrightarrow> keeps_vm s u"
  by (auto simp: keeps_vm_def intro: map_le_trans)

definition trials_end :: "nat \<Rightarrow> nat \<Rightarrow> vm \<Rightarrow> mem_exn + circular_buffer \<Rightarrow> nat list \<Rightarrow> vm \<Rightarrow> bool" where
  "trials_end n k s r out s' =
     (case r of Inl e \<Rightarrow> e = Ipc_Exception \<and> out = [Suc k..<4] \<and> keeps_vm s s'
      | Inr cb \<Rightarrow> length out < 3 - k \<and> (\<exists>t. keeps_vm s t \<and> makes_buffer n t cb s'))"

lemma trials_result:
  assumes "round_up_to_ipc_page (ip_page ip) num_bytes = n" and "4 dvd n" and "k < 3"
  shows "\<exists>r out' s'. trials ip num_bytes k out s = Some (r, out @ out', s') \<and> trials_end n k s r out' s'"
  using assms(3)
proof (induction "3 - k" arbitrary: k out s rule: less_induct)
  case less
  from assms(1,2) show ?case
  proof (cases rule: new_circular_buffer_cases [where s = s])
    case (makes cb s')
    with less.prems show ?thesis
      by (intro exI [of _ "Inr cb"] exI [of _ "[]"] exI [of _ s'])
        (auto simp: trials.simps [of ip num_bytes k] trials_end_def keeps_vm_def intro!: exI [of _ s])
  next
    case (fails t)
    show ?thesis
    proof (cases "Suc k = 3")
      case True
      with fails show ?thesis
        by (intro exI [of _ "Inl Ipc_Exception"] exI [of _ "[3]"] exI [of _ t])
          (simp add: trials.simps [of ip num_bytes 2] trials_end_def)
    next
      case False
      then have "3 - Suc k < 3 - k" and "Suc k < 3" using less.prems by simp_all
      from less.hyps [OF this, of "out @ [Suc k]" t] obtain r out' s' where
        "trials ip num_bytes (Suc k) (out @ [Suc k]) t = Some (r, (out @ [Suc k]) @ out', s')"
        and r: "trials_end n (Suc k) t r out' s'" by blast
      moreover have "[Suc k..<4] = Suc k # [Suc (Suc k)..<4]" using less.prems by (simp add: upt_conv_Cons)
      ultimately show ?thesis using fails False keeps_vm_trans [OF fails(2)]
        by (intro exI [of _ r] exI [of _ "Suc k # out'"] exI [of _ s'])
          (auto simp: trials.simps [of ip num_bytes k] trials_end_def split: sum.splits)
    qed
  qed
qed

text \<open>C38 On any machine whose page size is a multiple of four, \<open>make_circular_buffer\<close> returns: either a
  buffer of whole pages, no more than a page longer than asked for, of zeros, in which every address
  of the second mapping shows the byte at the same offset of the first, or, after exactly three
  failed attempts, the exception of the library with no address left mapped. The self test never
  fails.\<close>

theorem make_circular_buffer_result:
  assumes "0 < ip_page ip" and "4 dvd ip_page ip" and "num_bytes + ip_page ip < size_mod"
  shows "\<exists>r out s'. make_circular_buffer ip num_bytes s = Some (r, out, s') \<and>
     (case r of
        Inl e \<Rightarrow> e = Ipc_Exception \<and> out = [1, 2, 3] \<and> vm_pages s' = vm_pages s
      | Inr cb \<Rightarrow> length out < 3 \<and> ip_page ip dvd cb_length cb
          \<and> num_bytes \<le> cb_length cb \<and> cb_length cb < num_bytes + ip_page ip
          \<and> (\<forall>x < cb_length cb. read_byte (cb_addr cb + x) s' = Inr 0)
          \<and> (\<forall>x < cb_length cb. vm_pages s' (cb_addr cb + x) = Some (cb_obj cb, x)
               \<and> vm_pages s' (cb_addr cb + cb_length cb + x) = Some (cb_obj cb, x)))"
proof -
  define n where "n = round_up_to_ipc_page (ip_page ip) num_bytes"
  note n = round_up_page [OF assms(1,3), folded n_def]
  have "ip_page ip dvd n" using n(1) by simp
  moreover from this have "4 dvd n" using assms(2) dvd_trans by blast
  from trials_result [OF n_def [symmetric] this, of 0 "[]" s] obtain r out s' where
    m: "make_circular_buffer ip num_bytes s = Some (r, out, s')"
    and "trials_end n 0 s r out s'"
    by (simp add: make_circular_buffer_def) blast
  moreover have "[Suc 0..<4] = [1, 2, 3]" by (simp add: upt_rec)
  ultimately show ?thesis using n(2,3)
    by (intro exI [of _ r] exI [of _ out] exI [of _ s'])
      (auto simp: trials_end_def keeps_vm_def makes_buffer_zeros makes_buffer_length makes_buffer_pages split: sum.splits)
qed

definition sample_ipc :: ipc where
  "sample_ipc = \<lparr>ip_page = 4, ip_ok = (\<lambda>n. n \<noteq> 5), ip_addr = (\<lambda>n. 100 * n), ip_tid = ''7f'', ip_clock = (\<lambda>n. n),
     ip_rand = (\<lambda>n. 65536 * n + 77)\<rparr>"

definition sample_vm :: vm where
  "sample_vm = \<lparr>vm_names = (\<lambda>_. None), vm_objs = (\<lambda>_. []), vm_next = 0, vm_pages = (\<lambda>_. None), vm_calls = 0,
     vm_count = 0, vm_rands = 0\<rparr>"

lemma make_circular_buffer_result_witness:
  "\<exists>r out s'. make_circular_buffer sample_ipc 5 sample_vm = Some (r, out, s') \<and> length out \<le> 3"
proof -
  have "0 < ip_page sample_ipc" "4 dvd ip_page sample_ipc" "5 + ip_page sample_ipc < size_mod"
    by (simp_all add: sample_ipc_def size_mod_def)
  from make_circular_buffer_result [OF this, of sample_vm] obtain r out s' where
    "make_circular_buffer sample_ipc 5 sample_vm = Some (r, out, s')"
    "case r of Inl e \<Rightarrow> out = [1, 2, 3] | Inr cb \<Rightarrow> length out < 3"
    by (elim exE conjE) (auto split: sum.splits)
  then show ?thesis by (intro exI [of _ r] exI [of _ out] exI [of _ s']) (auto split: sum.splits)
qed

text \<open>Writing up to a whole buffer from any address in the two mappings never faults and wraps around:
  the bytes go to their offsets modulo the length, every other byte stays, and all of them read back
  from the first mapping.\<close>

theorem circular_write_wraps:
  assumes "mapped base len obj s" and "length vs \<le> len" and "k + length vs \<le> 2 * len"
  shows "\<exists>s'. write_bytes (base + k) vs s = (Inr (), s') \<and> mapped base len obj s'
    \<and> (\<forall>j < length vs. read_byte (base + (k + j) mod len) s' = Inr (vs ! j))
    \<and> (\<forall>i < len. (\<forall>j < length vs. (k + j) mod len \<noteq> i) \<longrightarrow> read_byte (base + i) s' = read_byte (base + i) s)"
proof (cases "len = 0")
  case True
  with assms show ?thesis by (simp add: ret_def)
next
  case False
  from write_bytes_ring [OF assms] obtain s' where s': "write_bytes (base + k) vs s = (Inr (), s')" "mapped base len obj s'"
    "\<forall>j < length vs. vm_objs s' obj ! ((k + j) mod len) = vs ! j"
    "\<forall>i < len. (\<forall>j < length vs. (k + j) mod len \<noteq> i) \<longrightarrow> vm_objs s' obj ! i = vm_objs s obj ! i" by blast
  with False show ?thesis using read_byte_mapped(1) [OF s'(2)] read_byte_mapped(1) [OF assms(1)]
    by (intro exI [of _ s']) simp
qed

definition sample_mapped :: vm where
  "sample_mapped = sample_vm\<lparr>vm_objs := (\<lambda>_. [1, 2, 3, 4]),
     vm_pages := (\<lambda>x. if 8 \<le> x \<and> x < 16 then Some (0, (x - 8) mod 4) else None)\<rparr>"

lemma circular_write_wraps_witness:
  "\<exists>s'. write_bytes (8 + 3) [9, 10] sample_mapped = (Inr (), s') \<and> read_byte 11 s' = Inr 9
     \<and> read_byte 8 s' = Inr 10 \<and> read_byte 9 s' = read_byte 9 sample_mapped"
proof -
  have "vm_pages sample_mapped (8 + x) = Some (0, x) \<and> vm_pages sample_mapped (8 + 4 + x) = Some (0, x)"
    if "x < 4" for x
  proof -
    have "(12 + x - 8) mod 4 = x" using that by (simp add: mod_if)
    with that show ?thesis by (simp add: sample_mapped_def)
  qed
  then have m: "mapped 8 4 0 sample_mapped" by (simp add: mapped_def sample_mapped_def)
  have p: "length [9, 10 :: byte] \<le> 4" "3 + length [9, 10 :: byte] \<le> 2 * 4" by simp_all
  from circular_write_wraps [OF m p] obtain s' where w: "write_bytes (8 + 3) [9, 10] sample_mapped = (Inr (), s')"
    and r: "\<forall>j < length [9, 10 :: byte]. read_byte (8 + (3 + j) mod 4) s' = Inr ([9, 10] ! j)"
    and k: "\<forall>i < 4. (\<forall>j < length [9, 10 :: byte]. (3 + j) mod 4 \<noteq> i) \<longrightarrow> read_byte (8 + i) s' = read_byte (8 + i) sample_mapped"
    by blast
  have "\<forall>j < length [9, 10 :: byte]. (3 + j) mod 4 \<noteq> (1::nat)" by (auto simp: less_Suc_eq)
  with k [THEN spec [of _ 1]] have "read_byte 9 s' = read_byte 9 sample_mapped" by simp
  moreover from r [THEN spec [of _ 0]] have "read_byte 11 s' = Inr 9" by simp
  moreover from r [THEN spec [of _ 1]] have "read_byte 8 s' = Inr 10" by simp
  ultimately show ?thesis using w by (intro exI [of _ s']) simp
qed

text \<open>Deleting a circular buffer undoes its construction: the addresses show what they showed before,
  and the names are those from before, less none and more only by what earlier failed attempts of
  the same call left behind.\<close>

theorem circular_buffer_deleted:
  assumes "make_circular_buffer ip num_bytes s = Some (Inr cb, out, s')" and "4 dvd round_up_to_ipc_page (ip_page ip) num_bytes"
  shows "vm_pages (delete_circular_buffer cb s') = vm_pages s
    \<and> vm_names s \<subseteq>\<^sub>m vm_names (delete_circular_buffer cb s')
    \<and> (out = [] \<longrightarrow> vm_names (delete_circular_buffer cb s') = vm_names s)"
proof -
  let ?n = "round_up_to_ipc_page (ip_page ip) num_bytes"
  have names: "vm_names (delete_circular_buffer cb u) = (vm_names u)(cb_name cb := None)" for u
    by (simp add: delete_circular_buffer_def shm_remove_def)
  have undo: "vm_names (delete_circular_buffer cb s') = vm_names t" if "makes_buffer ?n t cb s'" for t
    using that by (auto simp: names makes_buffer_def fun_eq_iff)
  have "\<exists>t. keeps_vm s t \<and> makes_buffer ?n t cb s'"
    using trials_result [OF refl assms(2), of 0 "[]" s] assms(1)
    by (auto simp: make_circular_buffer_def trials_end_def)
  then obtain t where t: "keeps_vm s t" "makes_buffer ?n t cb s'" by blast
  then have "vm_pages (delete_circular_buffer cb s') = vm_pages s" "vm_names s \<subseteq>\<^sub>m vm_names (delete_circular_buffer cb s')"
    using undo [OF t(2)] by (simp_all add: keeps_vm_def makes_buffer_def)
  moreover have "makes_buffer ?n s cb s'" if "out = []"
    using refl assms(2)
  proof (cases rule: new_circular_buffer_cases [where s = s])
    case (fails t)
    with assms(1) trials_result [OF refl assms(2), of 1 "[1]" t] that show ?thesis
      by (auto simp: make_circular_buffer_def trials.simps [of ip num_bytes 0])
  next
    case (makes cb' t)
    with assms(1) show ?thesis by (simp add: make_circular_buffer_def trials.simps [of ip num_bytes 0])
  qed
  ultimately show ?thesis using undo by blast
qed

lemma circular_buffer_deleted_witness:
  "\<exists>cb s'. make_circular_buffer (sample_ipc\<lparr>ip_ok := \<lambda>_. True\<rparr>) 5 sample_vm = Some (Inr cb, [], s')
     \<and> vm_names (delete_circular_buffer cb s') = vm_names sample_vm"
proof -
  let ?ip = "sample_ipc\<lparr>ip_ok := \<lambda>_. True\<rparr>"
  have n: "round_up_to_ipc_page (ip_page ?ip) 5 = 8" and d: "4 dvd (8::nat)"
    by (simp_all add: round_up_to_ipc_page_def sample_ipc_def sz_defs)
  have "undisturbed ?ip sample_vm" by (simp add: undisturbed_def sample_vm_def)
  with n d obtain cb s' where "new_circular_buffer ?ip 5 sample_vm = (Inr cb, s')"
    by (cases rule: new_circular_buffer_cases [where s = sample_vm]) auto
  then have "make_circular_buffer ?ip 5 sample_vm = Some (Inr cb, [], s')"
    by (simp add: make_circular_buffer_def trials.simps [of ?ip 5 0])
  from circular_buffer_deleted [OF this] this n show ?thesis by auto
qed

text \<open>An attempt that fails after its shared memory object was created does not remove the name of the
  object: neither the constructor nor its unwinding does, only the destructor of a finished buffer.\<close>

theorem failed_attempt_leaks_name:
  assumes "probably_get_vmem ip (sz_mul (round_up_to_ipc_page (ip_page ip) num_bytes) 2) s = (Inr addr, s1)"
    and "omg_so_unique ip s1 = (name, t)" and "shm_create ip name t = (Inr obj, t1)"
    and "new_circular_buffer ip num_bytes s = (Inl Ipc_Exception, s')"
    and "4 dvd round_up_to_ipc_page (ip_page ip) num_bytes"
  shows "vm_names s name = None \<and> vm_names s' name = Some obj"
proof -
  let ?n = "round_up_to_ipc_page (ip_page ip) num_bytes"
  have s1: "vm_names s1 = vm_names s"
    using assms(1) by (cases rule: probably_get_vmem_cases [of ip "sz_mul ?n 2" s]) simp_all
  have t: "vm_names t = vm_names s1" using omg_so_unique_fields [OF assms(2)] by simp
  have c: "vm_names t name = None" "vm_names t1 name = Some obj"
    using assms(3) by (cases rule: shm_create_cases [of ip name t]; simp)+
  note start = new_circular_buffer_def bindS_def Let_def assms(1-3)
  have "vm_names s' name = vm_names t1 name"
  proof (cases rule: shm_truncate_cases [of ip obj ?n t1])
    case (fails u)
    with assms(4) show ?thesis by (simp add: start)
  next
    case (sizes t2)
    note z = this
    show ?thesis
    proof (cases rule: map_region_cases [of ip obj ?n "Some addr" t2])
      case (fails u)
      with assms(4) z show ?thesis by (simp add: start)
    next
      case (maps a t3)
      note m = this
      show ?thesis
      proof (cases rule: map_region_cases [of ip obj ?n "Some (addr + ?n)" t3])
        case (fails u)
        with assms(4) z m show ?thesis by (auto simp: start unwind_def)
      next
        case (maps b t4)
        then have "mapped addr ?n obj t4"
          using two_regions_mapped [of t3 addr ?n obj "vm_pages t2" t4] m z by simp
        from test_and_zero [OF this assms(5), of ip "\<lparr>cb_addr = addr, cb_length = ?n, cb_name = name, cb_obj = obj\<rparr>"]
        have False using assms(4) m z maps by (auto simp: start unwind_def)
        then show ?thesis ..
      qed
    qed
  qed
  with s1 t c show ?thesis by simp
qed

lemmas vm_eval = probably_get_vmem_def bindS_def omg_so_unique_def shm_create_def shm_truncate_def map_region_def
  lib_call_def sample_ipc_def sample_vm_def Let_def free_range_def shm_remove_def unmap_region_def resize_def
  list_all_iff new_circular_buffer_def unwind_def round_up_to_ipc_page_def sz_defs

lemma failed_attempt_leaks_name_witness:
  "\<exists>name s'. new_circular_buffer sample_ipc 5 sample_vm = (Inl Ipc_Exception, s')
     \<and> vm_names sample_vm name = None \<and> vm_names s' name = Some 1"
proof -
  have n: "round_up_to_ipc_page (ip_page sample_ipc) 5 = 8" and d: "4 dvd (8::nat)"
    by (simp_all add: round_up_to_ipc_page_def sample_ipc_def sz_defs)
  obtain s1 where v: "probably_get_vmem sample_ipc (sz_mul 8 2) sample_vm = (Inr 200, s1)"
    and s1: "vm_names s1 = (\<lambda>_. None)" "vm_calls s1 = 3" "vm_next s1 = 1"
    by (simp add: vm_eval)
  obtain name t where u: "omg_so_unique sample_ipc s1 = (name, t)" by fastforce
  obtain t1 where c: "shm_create sample_ipc name t = (Inr 1, t1)"
    using u s1 by (auto simp: vm_eval)
  obtain s' where "new_circular_buffer sample_ipc 5 sample_vm = (Inl Ipc_Exception, s')"
    by (simp add: vm_eval)
  with failed_attempt_leaks_name [of sample_ipc 5 sample_vm, unfolded n, OF v u c _ d] show ?thesis by blast
qed

end
