(* ===== verification/Circ_Safety.thy ===== *)
theory Circ_Safety
  imports Circ_Memory Output_Props
begin

text \<open>
  The circular queue of lib/buffer_queue_circ.cpp on the memory of lib/circular_buffer.cpp: what a
  block writes into the buffer it is offered, through either mapping, is never seen in a buffer that
  is still out.
\<close>

section \<open>The memory as the queue sees it\<close>

text \<open>Offsets below twice the length; those that agree modulo the length are the same place.\<close>

locale ring_memory =
  fixes len :: nat
    and ok :: "'m \<Rightarrow> bool"
    and get :: "nat \<Rightarrow> 'm \<Rightarrow> 'v"
    and put :: "nat \<Rightarrow> 'w list \<Rightarrow> 'm \<Rightarrow> 'm option"
  assumes put_elsewhere: "ok m \<Longrightarrow> length vs \<le> len \<Longrightarrow> k + length vs \<le> 2 * len \<Longrightarrow>
    \<exists>m'. put k vs m = Some m' \<and> ok m'
      \<and> (\<forall>i < 2 * len. (\<forall>x < length vs. (k + x) mod len \<noteq> i mod len) \<longrightarrow> get i m' = get i m)"
begin

lemma regions_kept:
  assumes "ok m" and "length vs \<le> len" and "k + length vs \<le> 2 * len"
    and "\<And>a n y x. (a, n) \<in> R \<Longrightarrow> y < n \<Longrightarrow> x < length vs \<Longrightarrow> (k + x) mod len \<noteq> (a + y) mod len"
    and "\<And>a n. (a, n) \<in> R \<Longrightarrow> a + n \<le> 2 * len"
  shows "\<exists>m'. put k vs m = Some m' \<and> ok m' \<and> (\<forall>(a, n) \<in> R. \<forall>y < n. get (a + y) m' = get (a + y) m)"
proof -
  obtain m' where m': "put k vs m = Some m'" "ok m'"
    "\<forall>i < 2 * len. (\<forall>x < length vs. (k + x) mod len \<noteq> i mod len) \<longrightarrow> get i m' = get i m"
    using put_elsewhere [OF assms(1-3)] by blast
  have "get (a + y) m' = get (a + y) m" if "(a, n) \<in> R" "y < n" for a n y
  proof -
    have "a + y < 2 * len" using assms(5) [OF that(1)] that(2) by linarith
    with m'(3) assms(4) [OF that] show ?thesis by blast
  qed
  with m'(1,2) show ?thesis by blast
qed

end

definition ring_put :: "nat \<Rightarrow> nat \<Rightarrow> byte list \<Rightarrow> vm \<Rightarrow> vm option" where
  "ring_put base k vs s = (case write_bytes (base + k) vs s of (Inr _, s) \<Rightarrow> Some s | (Inl e, s) \<Rightarrow> None)"

lemma ring_put_Some: "ring_put base k vs s = Some s' \<longleftrightarrow> write_bytes (base + k) vs s = (Inr (), s')"
proof -
  obtain r t where "write_bytes (base + k) vs s = (r, t)" by (rule prod.exhaust)
  then show ?thesis by (cases r) (simp_all add: ring_put_def)
qed

interpretation ring: ring_memory len "mapped base len obj" "\<lambda>k. read_byte (base + k)" "ring_put base"
  for base len obj
proof
  fix s :: vm and vs :: "byte list" and k
  assume m: "mapped base len obj s" and l: "length vs \<le> len" "k + length vs \<le> 2 * len"
  from write_bytes_ring [OF m l] obtain s' where w: "write_bytes (base + k) vs s = (Inr (), s')" "mapped base len obj s'"
    "\<forall>i < len. (\<forall>j < length vs. (k + j) mod len \<noteq> i) \<longrightarrow> vm_objs s' obj ! i = vm_objs s obj ! i" by blast
  have "read_byte (base + i) s' = read_byte (base + i) s"
    if "i < 2 * len" "\<forall>x < length vs. (k + x) mod len \<noteq> i mod len" for i
    using that w(3) read_byte_ring [OF w(2) that(1)] read_byte_ring [OF m that(1)] by simp
  with w(1,2) show "\<exists>s'. ring_put base k vs s = Some s' \<and> mapped base len obj s'
      \<and> (\<forall>i < 2 * len. (\<forall>x < length vs. (k + x) mod len \<noteq> i mod len) \<longrightarrow> read_byte (base + i) s' = read_byte (base + i) s)"
    by (auto simp: ring_put_Some)
qed

section \<open>The queue on its memory\<close>

lemma circ_reach_addr:
  assumes "circ_reach clen c0 c addr" and "circ_inv clen c0" and "circ_ring 0 (\<lambda>_. 0) c0"
  shows "addr i \<le> cq_base c0 + cq_len c0"
  using assms(1)
proof (induction rule: circ_reach.induct)
  case (send c addr k b c')
  have inv: "circ_inv clen c" "cq_base c = cq_base c0" "cq_len c = cq_len c0"
    using circ_reach_inv [OF send.hyps(1) assms(2,3)] by auto
  obtain c1 where f: "circ_front c = Inr (b, c1)" using send.hyps(3) by (auto simp: circ_send_def res_simps)
  then have "cq_available c \<noteq> []" by (auto simp: circ_front_def circ_empty_def res_simps)
  with f circ_front_eq(1) [OF inv(1)] have "sb_memory b = cq_write c" by auto
  with inv send.IH show ?case by (auto simp: circ_inv_def circ_sizes_def)
qed simp_all

text \<open>C6 Whatever sequence of produced and returned buffers a circular queue on mapped memory has gone
  through, a block that fills the buffer it is offered next, up to its whole length, never faults,
  and no byte of a buffer that is still out changes as its holder reads it.\<close>

theorem circular_output_safe:
  assumes "make_circ (base, len) cfg n w = ((c0, bs), w')" and "0 < n" and "0 < cfg_length cfg"
    and "n * cfg_length cfg \<le> len" and "len < size_mod" and "mapped base len obj s"
    and "circ_reach (cfg_length cfg) c0 c addr" and "circ_front c = Inr (b, c1)" and "length vs \<le> cfg_length cfg"
  shows "\<exists>s'. write_bytes (sb_memory b) vs s = (Inr (), s') \<and> mapped base len obj s'
    \<and> (\<forall>j < circ_out c. \<forall>y < cq_outgone c ! circ_idx c j.
         read_byte (addr (circ_idx c j) + y) s' = read_byte (addr (circ_idx c j) + y) s)"
proof -
  let ?l = "cfg_length cfg"
  note m = make_circ_inv [OF assms(1-5)]
  obtain written where inv: "circ_inv ?l c" "circ_ring written addr c" "cq_base c = base" "cq_len c = len"
    using circ_reach_inv [OF assms(7) m(1,2)] m(3,4) by blast
  then have s: "circ_sizes ?l c" by (simp add: circ_inv_def)
  have "cq_available c \<noteq> []" using assms(8) by (auto simp: circ_front_def circ_empty_def res_simps)
  with circ_front_eq(1) [OF inv(1)] assms(8) have b: "sb_memory b = cq_write c" by auto
  define k where "k = cq_write c - base"
  have k: "sb_memory b = base + k" "k \<le> len" using s inv(3,4) b by (auto simp: k_def circ_sizes_def)
  have "?l \<le> n * ?l" using assms(2) by simp
  then have l: "?l \<le> len" using assms(4) by (rule order_trans)
  define R where "R = {(addr (circ_idx c j) - base, cq_outgone c ! circ_idx c j) | j.
    j < circ_out c \<and> cq_outgone c ! circ_idx c j \<noteq> 0}"
  have out: "base \<le> addr (circ_idx c j) \<and> addr (circ_idx c j) - base + cq_outgone c ! circ_idx c j \<le> 2 * len"
    if j: "j < circ_out c" "cq_outgone c ! circ_idx c j \<noteq> 0" for j
  proof -
    have "circ_idx c j < cq_cap c" using s by (intro circ_idx_less) (simp add: circ_sizes_def)
    then have "cq_outgone c ! circ_idx c j \<le> ?l" using s by (simp add: circ_sizes_def)
    moreover have "addr (circ_idx c j) \<le> base + len" using circ_reach_addr [OF assms(7) m(1,2)] m(3,4) by simp
    ultimately show ?thesis using inv(2,3) j l by (auto simp: circ_ring_def)
  qed
  have apart: "(k + x) mod len \<noteq> (a + y) mod len" if "(a, n) \<in> R" "y < n" "x < length vs" for a n x y
  proof -
    obtain j where j: "j < circ_out c" "cq_outgone c ! circ_idx c j \<noteq> 0" "a = addr (circ_idx c j) - base"
      "n = cq_outgone c ! circ_idx c j" using \<open>(a, n) \<in> R\<close> by (auto simp: R_def)
    with circ_apart [OF inv(1,2) assms(8) j(1), of x y] that assms(9) k(1) inv(3,4) out [OF j(1,2)] show ?thesis by simp
  qed
  have inside: "a + n \<le> 2 * len" if "(a, n) \<in> R" for a n using that out by (auto simp: R_def)
  have fits: "length vs \<le> len" "k + length vs \<le> 2 * len" using assms(9) l k(2) by linarith+
  have "\<exists>s'. ring_put base k vs s = Some s' \<and> mapped base len obj s'
      \<and> (\<forall>(a, n) \<in> R. \<forall>y < n. read_byte (base + (a + y)) s' = read_byte (base + (a + y)) s)"
    by (rule ring.regions_kept [OF assms(6) fits]) (erule (2) apart, erule inside)
  then obtain s' where w: "ring_put base k vs s = Some s'" "mapped base len obj s'"
    and same: "\<forall>(a, n) \<in> R. \<forall>y < n. read_byte (base + (a + y)) s' = read_byte (base + (a + y)) s" by blast
  have "read_byte (addr (circ_idx c j) + y) s' = read_byte (addr (circ_idx c j) + y) s"
    if j: "j < circ_out c" and y: "y < cq_outgone c ! circ_idx c j" for j y
  proof -
    have "(addr (circ_idx c j) - base, cq_outgone c ! circ_idx c j) \<in> R" using j y by (auto simp: R_def)
    with same y have "read_byte (base + (addr (circ_idx c j) - base + y)) s'
        = read_byte (base + (addr (circ_idx c j) - base + y)) s" by blast
    with out [OF j] y show ?thesis by (simp add: add.assoc [symmetric])
  qed
  with w k(1) show ?thesis by (auto simp: ring_put_Some)
qed

lemma circ_mapped: "mapped 4096 8 0 (sample_vm\<lparr>vm_objs := (\<lambda>_. replicate 8 1),
    vm_pages := (\<lambda>x. if 4096 \<le> x \<and> x < 4112 then Some (0, (x - 4096) mod 8) else None)\<rparr>)"
  by (auto simp: mapped_def le_mod_geq)

lemma circular_output_safe_witness:
  "\<exists>c addr b c1 s s'. circ_reach 4 sample_circ c addr \<and> circ_front c = Inr (b, c1) \<and> 0 < circ_out c
     \<and> write_bytes (sb_memory b) [7, 7, 7, 7] s = (Inr (), s')
     \<and> read_byte (addr (circ_idx c 0) + 2) s' = read_byte (addr (circ_idx c 0) + 2) s"
proof -
  obtain bs w' where "circ_buffers (sample_circ_cfg\<lparr>cfg_memory := 4096, cfg_has_deleter := True\<rparr>) 0 2 sample_world
      = (bs, w')" by fastforce
  then have mk: "make_circ (4096, 8) sample_circ_cfg 2 sample_world = ((sample_circ, bs), w')"
    by (simp add: make_circ_def sample_circ_def) (simp add: sample_circ_cfg_def numeral_2_eq_2)
  have l: "cfg_length sample_circ_cfg = 4" by (simp add: sample_circ_cfg_def)
  obtain c addr b c1 where r: "circ_reach 4 sample_circ c addr" "circ_front c = Inr (b, c1)" "0 < circ_out c"
    "cq_outgone c ! circ_idx c 0 = 4"
    using sample_circ_sent by blast
  let ?s = "sample_vm\<lparr>vm_objs := (\<lambda>_. replicate 8 1),
    vm_pages := (\<lambda>x. if 4096 \<le> x \<and> x < 4112 then Some (0, (x - 4096) mod 8) else None)\<rparr>"
  obtain s' where w: "write_bytes (sb_memory b) [7, 7, 7, 7] ?s = (Inr (), s')"
    and same: "\<forall>j < circ_out c. \<forall>y < cq_outgone c ! circ_idx c j.
      read_byte (addr (circ_idx c j) + y) s' = read_byte (addr (circ_idx c j) + y) ?s"
    using circular_output_safe [OF mk _ _ _ _ circ_mapped r(1) [folded l] r(2), of "[7, 7, 7, 7]"]
    by (auto simp: l size_mod_def)
  from same [rule_format, OF r(3), of 2] r(4) have "read_byte (addr (circ_idx c 0) + 2) s' = read_byte (addr (circ_idx c 0) + 2) ?s"
    by simp
  with r(1-3) w show ?thesis by blast
qed

end
