(* ===== verification/Pmc_Tree.thy ===== *)
theory Pmc_Tree
  imports Element_Tree
begin

text \<open>
  lib/pmc_to_ptree.cpp and lib/json_parser.cpp: the values of a query on their way between PMC,
  property trees and JSON text.

  A property tree of boost is a string with an ordered list of keys and children. The conversions
  between text and numbers, and the reader and writer of JSON, are those of boost and the streams:
  parameters.
\<close>

section \<open>Property trees\<close>

datatype ptree = Ptree (pt_data: string) (pt_children: "(string \<times> ptree) list")

definition empty_tree :: ptree where
  "empty_tree = Ptree [] []"

definition pt_count :: "string \<Rightarrow> ptree \<Rightarrow> nat" where
  "pt_count k t = length (filter (\<lambda>p. fst p = k) (pt_children t))"

definition get_child :: "string \<Rightarrow> ptree \<Rightarrow> exn + ptree" where
  "get_child k t = (case map_of (pt_children t) k of
     None \<Rightarrow> Inl (Runtime_Error ''No such node'') | Some c \<Rightarrow> Inr c)"

definition get_string :: "string \<Rightarrow> ptree \<Rightarrow> exn + string" where
  "get_string k t = bindE (get_child k t) (\<lambda>c. Inr (pt_data c))"

definition push_back :: "string \<Rightarrow> ptree \<Rightarrow> ptree \<Rightarrow> ptree" where
  "push_back k c t = Ptree (pt_data t) (pt_children t @ [(k, c)])"

text \<open>\<open>put\<close> under a key that the tree does not have yet.\<close>

definition pt_put :: "string \<Rightarrow> string \<Rightarrow> ptree \<Rightarrow> ptree" where
  "pt_put k v t = push_back k (Ptree v []) t"

lemma get_child_push_back:
  "get_child k (push_back m c t) =
     (case get_child k t of Inr d \<Rightarrow> Inr d | Inl e \<Rightarrow> if k = m then Inr c else Inl e)"
  by (auto simp: get_child_def push_back_def map_add_def split: option.splits)

section \<open>PMC values\<close>

datatype int_type = T_char | T_signed_char | T_unsigned_char | T_signed_short | T_unsigned_short
  | T_signed_int | T_unsigned_int | T_signed_long | T_unsigned_long | T_signed_long_long | T_unsigned_long_long

datatype real_type = T_float | T_double | T_complex_float | T_complex_double

text \<open>A value of one of the types that the conversion knows, or of any other type.\<close>

datatype 'd pmc_value =
    P_Null
  | P_Int int_type int
  | P_Real real_type 'd
  | P_String string
  | P_Ints int_type "int list"
  | P_Reals real_type "'d list"
  | P_Other

text \<open>\<open>put_value\<close> of the number types, and \<open>get_value\<close> of \<open>int64_t\<close>, \<open>double\<close> and \<open>complex<double>\<close>, where
  \<open>None\<close> is an exception.\<close>

record 'd text_conv =
  tx_int :: "int_type \<Rightarrow> int \<Rightarrow> string"
  tx_real :: "real_type \<Rightarrow> 'd \<Rightarrow> string"
  tx_get_int :: "string \<Rightarrow> int option"
  tx_get_double :: "string \<Rightarrow> 'd option"
  tx_get_complex :: "string \<Rightarrow> 'd option"

definition first_of :: "'a option list \<Rightarrow> 'a \<Rightarrow> 'a" where
  "first_of os x = (case filter (\<lambda>y. y \<noteq> None) os of Some y # _ \<Rightarrow> y | _ \<Rightarrow> x)"

definition all_values :: "(string \<Rightarrow> 'a option) \<Rightarrow> ptree \<Rightarrow> 'a list option" where
  "all_values get t = those (map (\<lambda>(_, c). get (pt_data c)) (pt_children t))"

definition ptree_to_pmc :: "'d text_conv \<Rightarrow> ptree \<Rightarrow> 'd pmc_value" where
  "ptree_to_pmc tx t =
     (if pt_children t = []
      then first_of
        [map_option (P_Int T_signed_long) (tx_get_int tx (pt_data t)),
         map_option (P_Real T_double) (tx_get_double tx (pt_data t)),
         map_option (P_Real T_complex_double) (tx_get_complex tx (pt_data t)),
         Some (P_String (pt_data t))] P_Null
      else first_of
        [map_option (P_Ints T_signed_long) (all_values (tx_get_int tx) t),
         map_option (P_Reals T_double) (all_values (tx_get_double tx) t),
         map_option (P_Reals T_complex_double) (all_values (tx_get_complex tx) t)] P_Null)"

text \<open>A vector is pushed element by element under empty keys; a value of no known type gives the empty
  tree.\<close>

definition array_tree :: "string list \<Rightarrow> ptree" where
  "array_tree ts = Ptree [] (map (\<lambda>t. ([], Ptree t [])) ts)"

fun pmc_to_ptree :: "'d text_conv \<Rightarrow> 'd pmc_value \<Rightarrow> ptree" where
  "pmc_to_ptree tx (P_Int ty n) = Ptree (tx_int tx ty n) []"
| "pmc_to_ptree tx (P_Real ty d) = Ptree (tx_real tx ty d) []"
| "pmc_to_ptree tx (P_String s) = Ptree s []"
| "pmc_to_ptree tx (P_Ints ty ns) = array_tree (map (tx_int tx ty) ns)"
| "pmc_to_ptree tx (P_Reals ty ds) = array_tree (map (tx_real tx ty) ds)"
| "pmc_to_ptree tx P_Null = empty_tree"
| "pmc_to_ptree tx P_Other = empty_tree"

section \<open>JSON text\<close>

text \<open>The regular expression \<open>"(null|true|false|[0-9]+(\.[0-9]+)?)"\<close>: \<open>quoted_word\<close> matches it after the first
  quote and gives the group with the rest of the text.\<close>

definition is_digit :: "char \<Rightarrow> bool" where
  "is_digit c \<longleftrightarrow> (of_char c :: nat) \<in> {48..57}"

definition bare_number :: "string \<Rightarrow> bool" where
  "bare_number s \<longleftrightarrow>
     (let n = takeWhile is_digit s; r = dropWhile is_digit s
      in n \<noteq> [] \<and> (r = [] \<or> hd r = CHR ''.'' \<and> tl r \<noteq> [] \<and> list_all is_digit (tl r)))"

definition bare_word :: "string \<Rightarrow> bool" where
  "bare_word s \<longleftrightarrow> s = ''null'' \<or> s = ''true'' \<or> s = ''false'' \<or> bare_number s"

definition quote :: char where
  "quote = CHR 0x22"

definition quoted_word :: "string \<Rightarrow> (string \<times> string) option" where
  "quoted_word s =
     (let w = takeWhile (\<lambda>c. c \<noteq> quote) s; r = dropWhile (\<lambda>c. c \<noteq> quote) s
      in if r \<noteq> [] \<and> bare_word w then Some (w, tl r) else None)"

lemma quoted_word_length: "quoted_word s = Some (w, r) \<Longrightarrow> length r < length s"
proof -
  assume q: "quoted_word s = Some (w, r)"
  then have r: "dropWhile (\<lambda>c. c \<noteq> quote) s \<noteq> []" "r = tl (dropWhile (\<lambda>c. c \<noteq> quote) s)"
    by (auto simp: quoted_word_def Let_def split: if_splits)
  moreover have "length (dropWhile (\<lambda>c. c \<noteq> quote) s) \<le> length s" by (rule length_dropWhile_le)
  ultimately show ?thesis by (cases "dropWhile (\<lambda>c. c \<noteq> quote) s") auto
qed

text \<open>\<open>regex_replace\<close>: from left to right, a match is replaced by its group.\<close>

function unquote :: "string \<Rightarrow> string" where
  "unquote [] = []"
| "unquote (c # s) =
     (if c = quote then (case quoted_word s of Some (w, r) \<Rightarrow> w @ unquote r | None \<Rightarrow> c # unquote s)
      else c # unquote s)"
  by pat_completeness auto
termination
  by (relation "measure length") (auto dest!: quoted_word_length)

record json =
  js_read :: "string \<Rightarrow> exn + ptree"
  js_write :: "ptree \<Rightarrow> string"

definition json_to_ptree :: "json \<Rightarrow> string \<Rightarrow> exn + ptree" where
  "json_to_ptree js s = js_read js s"

definition ptree_to_json :: "json \<Rightarrow> ptree \<Rightarrow> string" where
  "ptree_to_json js t = unquote (js_write js t)"

section \<open>Facts\<close>

lemma first_of_Cons [simp]: "first_of (Some y # os) x = y" "first_of (None # os) x = first_of os x" "first_of [] x = x"
  by (simp_all add: first_of_def)

lemma those_map_Some: "(\<And>x. x \<in> set xs \<Longrightarrow> f x = Some (g x)) \<Longrightarrow> those (map f xs) = Some (map g xs)"
  by (induction xs) auto

lemma all_values_array:
  "(\<And>n. n \<in> set ns \<Longrightarrow> get (sh n) = Some n) \<Longrightarrow> all_values get (array_tree (map sh ns)) = Some ns"
  using those_map_Some [of ns "\<lambda>n. get (sh n)" "\<lambda>n. n"] by (simp add: all_values_def array_tree_def o_def)

lemma pt_children_array: "pt_children (array_tree ts) = [] \<longleftrightarrow> ts = []"
  by (simp add: array_tree_def)

lemma takeWhile_until: "c \<notin> set w \<Longrightarrow> takeWhile (\<lambda>x. x \<noteq> c) (w @ c # r) = w"
  "c \<notin> set w \<Longrightarrow> dropWhile (\<lambda>x. x \<noteq> c) (w @ c # r) = c # r"
  by (induction w) auto

lemma quoted_word_at: "quote \<notin> set w \<Longrightarrow> quoted_word (w @ quote # r) = (if bare_word w then Some (w, r) else None)"
  by (simp add: quoted_word_def takeWhile_until)

lemma quoted_word_none: "quote \<notin> set w \<Longrightarrow> quoted_word w = None"
  by (simp add: quoted_word_def Let_def)

lemma unquote_plain: "quote \<notin> set u \<Longrightarrow> unquote (u @ s) = u @ unquote s"
  by (induction u) auto

lemma unquote_string:
  "quote \<notin> set w \<Longrightarrow> unquote (quote # w @ quote # r) =
     (if bare_word w then w @ unquote r else quote # w @ unquote (quote # r))"
  by (simp add: quoted_word_at unquote_plain)

lemma unquote_after_string:
  assumes "quote \<notin> set u" and "\<not> bare_word u" and "s = [] \<or> hd s = quote"
  shows "unquote (quote # u @ s) = quote # u @ unquote s"
proof (cases s)
  case Nil
  with assms show ?thesis using unquote_plain [of u "[]"] by (simp add: quoted_word_none)
next
  case (Cons c r)
  with assms show ?thesis by (simp add: quoted_word_at unquote_plain)
qed

section \<open>Properties\<close>

definition char_types :: "int_type set" where
  "char_types = {T_char, T_signed_char, T_unsigned_char}"

text \<open>The text of a 64-bit number, but for the character types, is read as the number.\<close>

definition reads_back :: "'d text_conv \<Rightarrow> bool" where
  "reads_back tx \<longleftrightarrow>
     (\<forall>ty n. ty \<notin> char_types \<longrightarrow> - (2 ^ 63) \<le> n \<longrightarrow> n < 2 ^ 63 \<longrightarrow> tx_get_int tx (tx_int tx ty n) = Some n)"


text \<open>The text of integers as the streams write it, a reader of it, and no other number.\<close>

definition int_text :: "int \<Rightarrow> string" where
  "int_text n = (if n < 0 then CHR ''-'' # dec (nat (- n)) else dec (nat n))"

definition read_int :: "string \<Rightarrow> int option" where
  "read_int s =
     (let (sg, ds) = (case s of c # t \<Rightarrow> if c = CHR ''-'' then (-1, t) else (1, s) | [] \<Rightarrow> (1, s))
      in if ds \<noteq> [] \<and> list_all is_digit ds then Some (sg * int (undec ds)) else None)"

definition sample_text :: "nat text_conv" where
  "sample_text = \<lparr>tx_int = (\<lambda>_. int_text), tx_real = (\<lambda>_. dec), tx_get_int = read_int,
     tx_get_double = (\<lambda>_. None), tx_get_complex = (\<lambda>_. None)\<rparr>"

lemma dec_digits: "list_all is_digit (dec n) \<and> dec n \<noteq> []"
proof (induction n rule: dec.induct)
  case (1 n)
  have "is_digit (digit k)" if "k < 10" for k
    using that by (simp add: is_digit_def of_char_digit)
  with 1 show ?case by (subst (1 2) dec.simps) auto
qed

lemma minus_not_digit: "\<not> is_digit (CHR ''-'')"
  by (simp add: is_digit_def)

lemma read_int_text: "read_int (int_text n) = Some n"
proof (cases "n < 0")
  case True
  then show ?thesis using dec_digits [of "nat (- n)"] by (simp add: read_int_def int_text_def undec_dec del: undec.simps)
next
  case False
  obtain c t where ct: "dec (nat n) = c # t" using dec_digits [of "nat n"] by (cases "dec (nat n)") auto
  then have "c \<noteq> CHR ''-''" using dec_digits [of "nat n"] minus_not_digit by auto
  with False ct show ?thesis using dec_digits [of "nat n"] undec_dec [of "nat n"]
    by (simp add: read_int_def int_text_def del: undec.simps)
qed


text \<open>The text of a document: after the opening each string with the text up to the next one.\<close>

fun json_strings :: "(string \<Rightarrow> string) \<Rightarrow> (string \<times> string) list \<Rightarrow> string" where
  "json_strings show_string [] = []"
| "json_strings show_string ((w, u) # segs) = show_string w @ u @ json_strings show_string segs"

definition quoted :: "string \<Rightarrow> string" where
  "quoted w = quote # w @ [quote]"

lemma quoted_append: "quoted w @ r = quote # w @ quote # r"
  by (simp add: quoted_def)

text \<open>Of the strings of a JSON text, keys and values alike, exactly those that are null, true, false or
  an unsigned decimal number lose their quotes, and nothing else changes: a negative number stays a
  string, and a key that is a number is no key of JSON any more.\<close>

theorem unquote_bare_strings:
  assumes "quote \<notin> set start" and "\<forall>(w, u) \<in> set segs. quote \<notin> set w \<and> quote \<notin> set u \<and> \<not> bare_word u"
  shows "unquote (start @ json_strings quoted segs)
    = start @ json_strings (\<lambda>w. if bare_word w then w else quoted w) segs"
proof -
  have hd: "json_strings quoted segs = [] \<or> hd (json_strings quoted segs) = quote" for segs
    by (cases segs) (auto simp: quoted_def)
  have "unquote (json_strings quoted segs) = json_strings (\<lambda>w. if bare_word w then w else quoted w) segs"
    using assms(2)
  proof (induction segs)
    case (Cons seg segs)
    obtain w u where seg: "seg = (w, u)" by (cases seg)
    let ?r = "json_strings quoted segs"
    have wu: "quote \<notin> set w" "quote \<notin> set u" "\<not> bare_word u" using Cons.prems seg by auto
    then have "unquote (quote # w @ quote # u @ ?r) =
        (if bare_word w then w @ u @ unquote ?r else quote # w @ quote # u @ unquote ?r)"
      using unquote_string [of w "u @ ?r"] unquote_after_string [of u ?r] hd [of segs] unquote_plain [of u ?r] by simp
    with Cons seg show ?case by (simp add: quoted_append del: unquote.simps)
  qed simp
  with unquote_plain [OF assms(1)] show ?thesis by simp
qed

lemma unquote_bare_strings_witness:
  "unquote (''{'' @ quoted ''a'' @ '':'' @ quoted ''12'' @ '','' @ quoted ''7'' @ '':'' @ quoted ''-3'' @ ''}'')
   = ''{'' @ quoted ''a'' @ '':12,7:'' @ quoted ''-3'' @ ''}''"
proof -
  have b: "bare_word ''12'' \<and> bare_word ''7'' \<and> \<not> bare_word ''a'' \<and> \<not> bare_word ''-3'' \<and> \<not> bare_word '':''
    \<and> \<not> bare_word '','' \<and> \<not> bare_word ''}''"
    by (simp add: bare_word_def bare_number_def is_digit_def)
  then show ?thesis
    using unquote_bare_strings [of "''{''" "[(''a'', '':''), (''12'', '',''), (''7'', '':''), (''-3'', ''}'')]"]
    by (simp add: quote_def del: unquote.simps)
qed

end
