(* ===== verification/Top_Query.thy ===== *)
theory Top_Query
  imports Block_Host Pmc_Tree
begin

text \<open>
  lib/top_block_query.cpp: the queries of a top block. The list of its blocks, their statistics, the
  call of a registered method, and the flow graph as a dot document.

  What the query reads of a worker of the topology: its actor, the ports the flow graph gives it, and
  the block's uid, text and registered names. The counters of Theron are parameters, as are the
  contents of PMC objects: \<open>qe_pack\<close> and \<open>qe_value\<close> go between an object and its content.
\<close>

section \<open>What a query sees\<close>

record worker =
  wk_addr :: nat
  wk_uid :: string
  wk_repr :: string
  wk_names :: "string list"
  wk_inputs :: nat
  wk_outputs :: nat
  wk_pool :: nat
  wk_env :: env
  wk_actor :: actor

record 'd query_env =
  qe_json :: json
  qe_text :: "'d text_conv"
  qe_pack :: "'d pmc_value list \<Rightarrow> pmc"
  qe_value :: "pmc \<Rightarrow> 'd pmc_value"
  qe_now :: int
  qe_allocator :: "(nat \<times> nat \<times> nat) option"
  qe_counters :: "nat \<Rightarrow> nat list"                 \<comment> \<open>the five counters of a thread pool\<close>
  qe_totals :: "string \<Rightarrow> int list"                \<comment> \<open>init time and the five totals of a block\<close>
  qe_arrive :: "(string \<times> block_stats) list \<Rightarrow> (string \<times> block_stats) list"

text \<open>The replies arrive in any order.\<close>

definition arrives :: "'d query_env \<Rightarrow> bool" where
  "arrives qe \<longleftrightarrow> (\<forall>xs. mset (qe_arrive qe xs) = mset xs)"

section \<open>The list of blocks\<close>

definition call_node :: "string \<Rightarrow> string \<times> ptree" where
  "call_node key = (''call'', Ptree key [])"

definition query_blocks :: "worker list \<Rightarrow> ptree" where
  "query_blocks ws = push_back ''blocks''
     (Ptree [] (map (\<lambda>w. (wk_uid w, Ptree [] (map call_node (wk_names w)))) ws)) empty_tree"

text \<open>The parameter \<open>blocks\<close> of a query.\<close>

definition block_ids :: "ptree \<Rightarrow> string list" where
  "block_ids query = (if pt_count ''blocks'' query \<noteq> 0
     then case get_child ''blocks'' query of Inl _ \<Rightarrow> [] | Inr c \<Rightarrow> map (\<lambda>(_, v). pt_data v) (pt_children c)
     else [])"

section \<open>Statistics\<close>

fun first_stats :: "event list \<Rightarrow> block_stats option" where
  "first_stats [] = None"
| "first_stats (Stats_Reply st # es) = Some st"
| "first_stats (e # es) = first_stats es"

text \<open>The message to the actor and its reply; \<open>None\<close> when there is none, then the query waits forever.\<close>

definition ask_stats :: "worker \<Rightarrow> (block_stats \<times> worker) option" where
  "ask_stats w =
     (case handle_message (wk_env w) GetStats (wk_actor w) of
        Inl x \<Rightarrow> None
      | Inr a \<Rightarrow> map_option (\<lambda>st. (st, w\<lparr>wk_actor := a\<rparr>))
          (first_stats (drop (length (ac_events (wk_actor w))) (ac_events a))))"

fun gather_stats :: "string list \<Rightarrow> worker list \<Rightarrow> ((string \<times> block_stats) list \<times> worker list) option" where
  "gather_stats ids [] = Some ([], [])"
| "gather_stats ids (w # ws) =
     (if wk_uid w \<notin> set ids then map_option (\<lambda>(sts, ws). (sts, w # ws)) (gather_stats ids ws)
      else Option.bind (ask_stats w) (\<lambda>(st, w).
           Option.bind (gather_stats ids ws) (\<lambda>(sts, ws). Some ((wk_uid w, st) # sts, w # ws))))"

definition numbers :: "(nat list) \<Rightarrow> ptree" where
  "numbers ns = array_tree (map dec ns)"

definition TPS_TEXT :: string where
  "TPS_TEXT = dec 1000000000"

definition total_names :: "string list" where
  "total_names = [''total_time_prep'', ''total_time_work'', ''total_time_post'', ''total_time_input'', ''total_time_output'']"

definition block_node :: "'d query_env \<Rightarrow> string \<times> block_stats \<Rightarrow> string \<times> ptree" where
  "block_node qe = (\<lambda>(uid, st).
     (uid, Ptree []
       ([(''tps'', Ptree TPS_TEXT []),
         (''stats_time'', Ptree (int_text (bs_stats_time st)) []),
         (''init_time'', Ptree (int_text (qe_totals qe uid ! 0)) []),
         (''start_time'', Ptree (int_text (bs_start_time st)) []),
         (''stop_time'', Ptree (int_text (bs_stop_time st)) []),
         (''work_count'', Ptree (dec (bs_work_count st)) []),
         (''time_last_work'', Ptree (int_text (bs_time_last_work st)) [])]
        @ map (\<lambda>i. (total_names ! i, Ptree (int_text (qe_totals qe uid ! Suc i)) [])) [0..<5]
        @ [(''actor_queue_depth'', Ptree (dec (bs_actor_queue_depth st)) []),
         (''items_enqueued'', numbers (bs_items_enqueued st)),
         (''tags_enqueued'', numbers (bs_tags_enqueued st)),
         (''msgs_enqueued'', numbers (bs_msgs_enqueued st)),
         (''items_consumed'', numbers (bs_items_consumed st)),
         (''tags_consumed'', numbers (bs_tags_consumed st)),
         (''msgs_consumed'', numbers (bs_msgs_consumed st)),
         (''items_produced'', numbers (bs_items_produced st)),
         (''tags_produced'', numbers (bs_tags_produced st)),
         (''msgs_produced'', numbers (bs_msgs_produced st)),
         (''bytes_copied'', numbers (bs_bytes_copied st)),
         (''inputs_idle'', array_tree (map int_text (bs_inputs_idle st))),
         (''outputs_idle'', array_tree (map int_text (bs_outputs_idle st)))])))"

definition counter_names :: "string list" where
  "counter_names = [''framework_counter_messages_processed'', ''framework_counter_yields'',
     ''framework_counter_local_pushes'', ''framework_counter_shared_pushes'', ''framework_counter_mailbox_queue_max'']"

text \<open>The thread pools are a set, ordered by identity.\<close>

definition pool_nodes :: "'d query_env \<Rightarrow> worker list \<Rightarrow> ptree" where
  "pool_nodes qe ws = Ptree [] (map (\<lambda>p. ([],
     Ptree [] (map (\<lambda>(k, n). (k, Ptree (dec n) [])) (zip counter_names (qe_counters qe p)))))
     (sort (remdups (map wk_pool ws))))"

definition allocator_nodes :: "'d query_env \<Rightarrow> ptree \<Rightarrow> ptree" where
  "allocator_nodes qe root = (case qe_allocator qe of None \<Rightarrow> root
     | Some (b, p, n) \<Rightarrow> pt_put ''default_allocator_allocation_count'' (dec n)
         (pt_put ''default_allocator_peak_bytes_allocated'' (dec p)
           (pt_put ''default_allocator_bytes_allocated'' (dec b) root)))"

definition query_stats :: "'d query_env \<Rightarrow> worker list \<Rightarrow> ptree \<Rightarrow> (ptree \<times> worker list) option" where
  "query_stats qe ws query =
     map_option (\<lambda>(sts, ws).
       (push_back ''blocks'' (Ptree [] (map (block_node qe) (qe_arrive qe sts)))
         (push_back ''thread_pools'' (pool_nodes qe ws)
           (allocator_nodes qe (pt_put ''tps'' TPS_TEXT (pt_put ''now'' (int_text (qe_now qe)) empty_tree)))), ws))
     (gather_stats (block_ids query) ws)"

section \<open>Calls\<close>

definition call_args :: "'d query_env \<Rightarrow> ptree \<Rightarrow> 'd pmc_value list" where
  "call_args qe query = (if pt_count ''args'' query \<noteq> 0
     then case get_child ''args'' query of Inl _ \<Rightarrow> [] | Inr c \<Rightarrow> map (\<lambda>(_, v). ptree_to_pmc (qe_text qe) v) (pt_children c)
     else [])"

text \<open>What a call adds to the answer; \<open>query\<close> has both children.\<close>

definition call_nodes :: "'d query_env \<Rightarrow> ptree \<Rightarrow> pmc \<Rightarrow> ptree \<Rightarrow> exn + ptree" where
  "call_nodes qe query p root =
     bindE (get_child ''block'' query) (\<lambda>b. bindE (get_child ''name'' query) (\<lambda>n.
       Inr (push_back ''value'' (pmc_to_ptree (qe_text qe) (qe_value qe p)) (push_back ''name'' n (push_back ''block'' b root)))))"

fun call_workers :: "'d query_env \<Rightarrow> ptree \<Rightarrow> string \<Rightarrow> string \<Rightarrow> worker list \<Rightarrow> ptree
    \<Rightarrow> ((exn + ptree) \<times> worker list) option" where
  "call_workers qe query block_id name [] root = Some (Inr root, [])"
| "call_workers qe query block_id name (w # ws) root =
     (if wk_uid w \<noteq> block_id
      then map_option (\<lambda>(r, ws). (r, w # ws)) (call_workers qe query block_id name ws root)
      else Option.bind (block_handle_call (wk_env w) name (qe_pack qe (call_args qe query)) (wk_actor w)) (\<lambda>(r, a).
        case bindE r (\<lambda>p. call_nodes qe query p root) of
          Inl x \<Rightarrow> Some (Inl x, w\<lparr>wk_actor := a\<rparr> # ws)
        | Inr root \<Rightarrow> map_option (\<lambda>(r, ws). (r, w\<lparr>wk_actor := a\<rparr> # ws)) (call_workers qe query block_id name ws root)))"

definition query_calls :: "'d query_env \<Rightarrow> worker list \<Rightarrow> ptree \<Rightarrow> ((exn + ptree) \<times> worker list) option" where
  "query_calls qe ws query =
     (case bindE (get_string ''block'' query) (\<lambda>b. bindE (get_string ''name'' query) (\<lambda>n. Inr (b, n))) of
        Inl x \<Rightarrow> Some (Inl x, ws)
      | Inr (b, n) \<Rightarrow> call_workers qe query b n ws empty_tree)"

section \<open>The flow graph\<close>

record flow =
  fl_src :: nat
  fl_src_index :: nat
  fl_dst :: nat
  fl_dst_index :: nat

text \<open>The cells of the ports of one side; a port that is done has a cross, unless the block is done. The
  loop indexes the bits of the actor, which may be fewer than the ports.\<close>

fun port_cells :: "string \<Rightarrow> bool \<Rightarrow> bool list \<Rightarrow> nat list \<Rightarrow> string \<Rightarrow> exn + string" where
  "port_cells side fin bits [] out = Inr out"
| "port_cells side fin bits (i # is) out =
     (let out = (if i \<noteq> 0 then out @ '' | '' else out) @ ''<'' @ side @ dec i @ ''> '' @ dec i
      in if fin then port_cells side fin bits is out
         else if length bits \<le> i then Inl (Undefined ''bit index out of range'')
         else port_cells side fin bits is (if bits ! i then out @ ''x'' else out))"

fun state_color :: "block_state \<Rightarrow> string" where
  "state_color BLOCK_STATE_INIT = ''white''"
| "state_color BLOCK_STATE_LIVE = ''azure''"
| "state_color BLOCK_STATE_DONE = ''grey''"

definition node_line :: "worker \<Rightarrow> exn + string" where
  "node_line w =
     (let fin = (ac_state (wk_actor w) = BLOCK_STATE_DONE)
      in bindE (port_cells ''in'' fin (ac_in_done (wk_actor w)) [0..<wk_inputs w] []) (\<lambda>ins.
         bindE (port_cells ''out'' fin (ac_out_done (wk_actor w)) [0..<wk_outputs w] []) (\<lambda>outs.
           Inr (dec (wk_addr w) @ '' [shape=record, label='' @ [quote] @ ''{ ''
             @ (if ins \<noteq> [] then ''{'' @ ins @ ''} | '' else []) @ '' '' @ wk_repr w @ '' ''
             @ (if outs \<noteq> [] then '' | {'' @ outs @ ''}'' else [])
             @ '' }'' @ [quote] @ '', style=filled, fillcolor='' @ [quote] @ state_color (ac_state (wk_actor w))
             @ [quote] @ ''];'' @ [CHR 0x0A]))))"

definition shown :: "string list \<Rightarrow> worker list \<Rightarrow> worker list" where
  "shown ids ws = filter (\<lambda>w. \<not> (ids \<noteq> [] \<and> wk_uid w \<notin> set ids)) ws"

definition shown_flows :: "nat list \<Rightarrow> flow list \<Rightarrow> flow list" where
  "shown_flows addrs fs = filter (\<lambda>f. fl_src f \<in> set addrs \<and> fl_dst f \<in> set addrs) fs"

definition flow_line :: "flow \<Rightarrow> string" where
  "flow_line f = dec (fl_src f) @ '':out'' @ dec (fl_src_index f) @ '' -> '' @ dec (fl_dst f) @ '':in''
     @ dec (fl_dst_index f) @ '';'' @ [CHR 0x0A]"

definition dot_header :: string where
  "dot_header = ''digraph flat_flows {'' @ [CHR 0x0A] @ ''rankdir=LR;'' @ [CHR 0x0A]
     @ ''node [shape=record, fontsize=10];'' @ [CHR 0x0A]"

definition query_topology :: "worker list \<Rightarrow> flow list \<Rightarrow> ptree \<Rightarrow> exn + string" where
  "query_topology ws fs query =
     (let ws = shown (block_ids query) ws
      in bindE (foldE (\<lambda>w buff. bindE (node_line w) (\<lambda>l. Inr (buff @ l))) ws dot_header) (\<lambda>buff.
           Inr (buff @ concat (map flow_line (shown_flows (map wk_addr ws) fs)) @ ''}'' @ [CHR 0x0A])))"

section \<open>Dispatch\<close>

definition top_query :: "'d query_env \<Rightarrow> worker list \<Rightarrow> flow list \<Rightarrow> string \<Rightarrow> ((exn + string) \<times> worker list) option" where
  "top_query qe ws fs args =
     (case bindE (json_to_ptree (qe_json qe) args) (\<lambda>q. bindE (get_string ''path'' q) (\<lambda>path. Inr (q, path))) of
        Inl x \<Rightarrow> Some (Inl x, ws)
      | Inr (q, path) \<Rightarrow>
          let json = (\<lambda>t. Inr (ptree_to_json (qe_json qe) t))
          in if path = ''/topology.dot'' then Some (query_topology ws fs q, ws)
             else if path = ''/blocks.json'' then Some (json (query_blocks ws), ws)
             else if path = ''/stats.json'' then map_option (\<lambda>(t, ws). (json t, ws)) (query_stats qe ws q)
             else if path = ''/calls.json'' then map_option (\<lambda>(r, ws). (bindE r json, ws)) (query_calls qe ws q)
             else Some (json empty_tree, ws))"

section \<open>Facts\<close>

lemma foldE_eq_Inl: "foldE f is s = Inl e \<Longrightarrow> \<exists>i \<in> set is. \<exists>t. f i t = Inl e"
proof (induction "is" arbitrary: s)
  case (Cons i js)
  then show ?case by (cases "f i s") auto
qed simp

lemma bindE_eq_Inl: "bindE m f = Inl e \<longleftrightarrow> m = Inl e \<or> (\<exists>x. m = Inr x \<and> f x = Inl e)"
  by (cases m) auto

text \<open>An actor whose vectors have the size of its ports answers a request for its statistics.\<close>

definition answers :: "actor \<Rightarrow> bool" where
  "answers a \<longleftrightarrow> sized a \<and> (\<forall>p \<in> set (iq_ports (ac_inq a)). 0 < ip_item_size p)"

definition answered :: "actor \<Rightarrow> actor \<Rightarrow> bool" where
  "answered a a' \<longleftrightarrow> (\<exists>st. ac_events a' = ac_events a @ [Stats_Reply st, Self_Kick]) \<and> ac_state a' = ac_state a"

lemma get_stats_answers:
  assumes "answers a"
  shows "\<exists>st a'. handle_get_stats en a = Inr a' \<and> ac_events a' = ac_events a @ [Stats_Reply st, Self_Kick]
    \<and> ac_state a' = ac_state a"
proof -
  have s: "sized a" "\<forall>p \<in> set (iq_ports (ac_inq a)). 0 < ip_item_size p" using assms by (simp_all add: answers_def)
  have "handle_get_stats en a \<noteq> Inl e" for e
  proof
    assume "handle_get_stats en a = Inl e"
    then obtain i where i: "i < ac_num_inputs a" and z: "i < length (iq_ports (ac_inq a)) \<longrightarrow>
        ip_item_size (iq_ports (ac_inq a) ! i) = 0 \<or> \<not> i < length (ac_tags a) \<or> \<not> i < length (ac_msgs a)"
      by (auto simp: handle_get_stats_def bindE_eq_Inl Let_def in_port_def at_def iq_get_items_enqueued_def
          split: prod.splits if_splits dest!: foldE_eq_Inl)
    from sized_in(2,5,6) [OF s(1) i] z have "ip_item_size (iq_ports (ac_inq a) ! i) = 0" by simp
    with s(2) sized_in(2) [OF s(1) i] show False by (metis less_irrefl nth_mem)
  qed
  then obtain a' where a': "handle_get_stats en a = Inr a'" by (cases "handle_get_stats en a") auto
  then obtain st :: block_stats where
    "(let (t, b) = now_of a in Inr (post Self_Kick (post (Stats_Reply (st\<lparr>bs_stats_time := t\<rparr>)) b))) = (Inr a' :: exn + actor)"
    unfolding handle_get_stats_def bindE_eq_Inr by blast
  then have "\<exists>st. ac_events a' = ac_events a @ [Stats_Reply st, Self_Kick] \<and> ac_state a' = ac_state a"
    by (auto simp: post_def now_of_def time_now_def Let_def)
  with a' show ?thesis by blast
qed

lemma ask_stats_answers:
  assumes "answers (wk_actor w)"
  shows "\<exists>st a. ask_stats w = Some (st, w\<lparr>wk_actor := a\<rparr>) \<and> answered (wk_actor w) a"
proof -
  obtain st a where "handle_get_stats (wk_env w) (wk_actor w) = Inr a"
    "ac_events a = ac_events (wk_actor w) @ [Stats_Reply st, Self_Kick]" "ac_state a = ac_state (wk_actor w)"
    using get_stats_answers [OF assms] by blast
  then show ?thesis by (intro exI [of _ st] exI [of _ a]) (simp add: ask_stats_def answered_def)
qed

text \<open>The workers after a query of statistics.\<close>

definition asked :: "string list \<Rightarrow> worker \<Rightarrow> worker \<Rightarrow> bool" where
  "asked ids w w' \<longleftrightarrow> (if wk_uid w \<in> set ids then \<exists>a. w' = w\<lparr>wk_actor := a\<rparr> \<and> answered (wk_actor w) a else w' = w)"

lemma gather_stats_answers:
  assumes "\<forall>w \<in> set ws. answers (wk_actor w)"
  shows "\<exists>sts ws'. gather_stats ids ws = Some (sts, ws')
    \<and> map fst sts = map wk_uid (filter (\<lambda>w. wk_uid w \<in> set ids) ws) \<and> list_all2 (asked ids) ws ws'"
  using assms
proof (induction ws)
  case (Cons w ws)
  then obtain sts ws' where IH: "gather_stats ids ws = Some (sts, ws')"
    "map fst sts = map wk_uid (filter (\<lambda>w. wk_uid w \<in> set ids) ws)" "list_all2 (asked ids) ws ws'" by auto
  show ?case
  proof (cases "wk_uid w \<in> set ids")
    case True
    obtain st a where "ask_stats w = Some (st, w\<lparr>wk_actor := a\<rparr>)" "answered (wk_actor w) a"
      using ask_stats_answers [of w] Cons.prems by auto
    moreover from this(2) True have "asked ids w (w\<lparr>wk_actor := a\<rparr>)" by (auto simp: asked_def)
    ultimately show ?thesis using True IH
      by (intro exI [of _ "(wk_uid w, st) # sts"] exI [of _ "w\<lparr>wk_actor := a\<rparr> # ws'"]) simp
  next
    case False
    moreover from this have "asked ids w w" by (simp add: asked_def)
    ultimately show ?thesis using IH by (intro exI [of _ sts] exI [of _ "w # ws'"]) simp
  qed
qed simp

lemma get_child_blocks:
  "get_child ''blocks'' (push_back ''blocks'' c (push_back ''thread_pools'' p (allocator_nodes qe
     (pt_put ''tps'' x (pt_put ''now'' y empty_tree))))) = Inr c"
  by (cases "qe_allocator qe")
    (auto simp: get_child_def push_back_def pt_put_def empty_tree_def allocator_nodes_def)

section \<open>Properties\<close>

text \<open>C19 A query of statistics returns when the actors' vectors have the sizes of their ports and no input
  has items of size 0: with one entry for each block whose uid the query names and no other block, in
  any order. The actors of those blocks handle one message, which changes neither their state nor
  anything they have sent before, and the others are not disturbed; a query that names no block
  asks none.\<close>

theorem stats_query_answers:
  assumes "arrives qe" and "\<forall>w \<in> set ws. answers (wk_actor w)"
  shows "\<exists>t c ws'. query_stats qe ws query = Some (t, ws') \<and> get_child ''blocks'' t = Inr c
    \<and> mset (map fst (pt_children c)) = mset (map wk_uid (filter (\<lambda>w. wk_uid w \<in> set (block_ids query)) ws))
    \<and> list_all2 (asked (block_ids query)) ws ws'"
proof -
  let ?ids = "block_ids query"
  obtain sts ws' where g: "gather_stats ?ids ws = Some (sts, ws')"
    "map fst sts = map wk_uid (filter (\<lambda>w. wk_uid w \<in> set ?ids) ws)" "list_all2 (asked ?ids) ws ws'"
    using gather_stats_answers [OF assms(2), of ?ids] by blast
  let ?c = "Ptree [] (map (block_node qe) (qe_arrive qe sts))"
  have "map fst (map (block_node qe) (qe_arrive qe sts)) = map fst (qe_arrive qe sts)"
    by (simp add: block_node_def case_prod_beta)
  moreover have "mset (qe_arrive qe sts) = mset sts" using assms(1) by (simp add: arrives_def)
  ultimately have "mset (map fst (pt_children ?c)) = mset (map wk_uid (filter (\<lambda>w. wk_uid w \<in> set ?ids) ws))"
    using g(2) by (metis mset_map ptree.sel(2))
  with g(1,3) show ?thesis
    by (intro exI [of _ "push_back ''blocks'' ?c (push_back ''thread_pools'' (pool_nodes qe ws')
          (allocator_nodes qe (pt_put ''tps'' TPS_TEXT (pt_put ''now'' (int_text (qe_now qe)) empty_tree))))"]
        exI [of _ ?c] exI [of _ ws'])
      (simp add: query_stats_def get_child_blocks)
qed

definition sample_worker :: "nat \<Rightarrow> string \<Rightarrow> worker" where
  "sample_worker addr uid = \<lparr>wk_addr = addr, wk_uid = uid, wk_repr = uid, wk_names = [], wk_inputs = 0, wk_outputs = 0,
     wk_pool = 0, wk_env = sample_env, wk_actor = new_actor uid 0 1 sample_world\<rparr>"

definition sample_query_env :: "nat query_env" where
  "sample_query_env = \<lparr>qe_json = \<lparr>js_read = (\<lambda>s. Inr (Ptree s [])), js_write = pt_data\<rparr>, qe_text = sample_text,
     qe_pack = length, qe_value = P_Int T_signed_int \<circ> int, qe_now = 5, qe_allocator = None,
     qe_counters = (\<lambda>_. [1, 2, 3, 4, 5]), qe_totals = (\<lambda>_. [0, 0, 0, 0, 0, 0]), qe_arrive = rev\<rparr>"

lemma sample_worker_answers: "answers (wk_actor (sample_worker addr uid))"
  using new_actor_legal [of uid 0 1 sample_world]
  by (simp add: answers_def legal_def sample_worker_def) (simp add: new_actor_def)

lemma stats_query_answers_witness:
  "\<exists>t c ws'. query_stats sample_query_env [sample_worker 1 ''a'', sample_worker 2 ''b'', sample_worker 3 ''c'']
       (Ptree [] [(''blocks'', Ptree [] [([], Ptree ''c'' []), ([], Ptree ''zz'' []), ([], Ptree ''a'' [])])]) = Some (t, ws')
     \<and> get_child ''blocks'' t = Inr c \<and> mset (map fst (pt_children c)) = {#''a'', ''c''#}"
proof -
  let ?ws = "[sample_worker 1 ''a'', sample_worker 2 ''b'', sample_worker 3 ''c'']"
  let ?q = "Ptree [] [(''blocks'', Ptree [] [([], Ptree ''c'' []), ([], Ptree ''zz'' []), ([], Ptree ''a'' [])])]"
  have "arrives sample_query_env" by (simp add: arrives_def sample_query_env_def)
  moreover have "\<forall>w \<in> set ?ws. answers (wk_actor w)" by (simp add: sample_worker_answers)
  ultimately obtain t c ws' where "query_stats sample_query_env ?ws ?q = Some (t, ws')" "get_child ''blocks'' t = Inr c"
    "mset (map fst (pt_children c)) = mset (map wk_uid (filter (\<lambda>w. wk_uid w \<in> set (block_ids ?q)) ?ws))"
    using stats_query_answers by blast
  moreover have "block_ids ?q = [''c'', ''zz'', ''a'']" by (simp add: block_ids_def pt_count_def get_child_def)
  ultimately show ?thesis by (auto simp: sample_worker_def)
qed

lemma call_workers_others:
  "(\<And>w. w \<in> set us \<Longrightarrow> wk_uid w \<noteq> uid) \<Longrightarrow>
   call_workers qe q uid n (us @ ws) root = map_option (\<lambda>(r, ws). (r, us @ ws)) (call_workers qe q uid n ws root)"
  by (induction us; cases "call_workers qe q uid n ws root") (auto simp: case_prod_beta)

text \<open>C22 A query that calls a method reaches exactly the block with the uid it names: the block's actor
  handles the call with the arguments of the query, and the answer holds the block, the name and the
  value, or the exception is that of the call. The other blocks are not disturbed, and without a block
  of that uid nothing is called and the answer is empty, which is no error.\<close>

theorem call_query_answers:
  assumes "get_child ''block'' query = Inr b" and "get_child ''name'' query = Inr n"
    and "distinct (map wk_uid (us @ w # vs))" and "wk_uid w = pt_data b"
    and "block_handle_call (wk_env w) (pt_data n) (qe_pack qe (call_args qe query)) (wk_actor w) = Some (r, a)"
  shows "query_calls qe (us @ w # vs) query = Some
      (bindE r (\<lambda>p. Inr (Ptree [] [(''block'', b), (''name'', n), (''value'', pmc_to_ptree (qe_text qe) (qe_value qe p))])),
       us @ w\<lparr>wk_actor := a\<rparr> # vs)
    \<and> query_calls qe (us @ vs) query = Some (Inr empty_tree, us @ vs)"
proof -
  have others: "wk_uid x \<noteq> pt_data b" if "x \<in> set us \<or> x \<in> set vs" for x
    using that assms(3,4) by (auto simp: image_iff)
  have rest: "call_workers qe query (pt_data b) (pt_data n) vs root = Some (Inr root, vs)" for root
    using call_workers_others [of vs "pt_data b" qe query "pt_data n" "[]" root] others by simp
  have start: "query_calls qe xs query = call_workers qe query (pt_data b) (pt_data n) xs empty_tree" for xs
    using assms(1,2) by (simp add: query_calls_def get_string_def)
  show ?thesis
    using others rest assms(1,2,4,5)
    by (cases r) (simp_all add: start call_workers_others call_nodes_def push_back_def empty_tree_def)
qed

lemma call_query_answers_witness:
  "\<exists>a. query_calls sample_query_env [sample_worker 1 ''a'', (sample_worker 2 ''b'')\<lparr>wk_env := sample_env\<lparr>en_call := (\<lambda>k v. Inr (v + 40))\<rparr>\<rparr>]
       (Ptree [] [(''block'', Ptree ''b'' []), (''name'', Ptree ''f'' []), (''args'', Ptree [] [([], Ptree ''7'' []), ([], Ptree ''8'' [])])])
     = Some (Inr (Ptree [] [(''block'', Ptree ''b'' []), (''name'', Ptree ''f'' []), (''value'', Ptree (int_text 42) [])]),
         [sample_worker 1 ''a'', (sample_worker 2 ''b'')\<lparr>wk_env := sample_env\<lparr>en_call := (\<lambda>k v. Inr (v + 40))\<rparr>, wk_actor := a\<rparr>])"
proof -
  let ?q = "Ptree [] [(''block'', Ptree ''b'' []), (''name'', Ptree ''f'' []), (''args'', Ptree [] [([], Ptree ''7'' []), ([], Ptree ''8'' [])])]"
  let ?w = "(sample_worker 2 ''b'')\<lparr>wk_env := sample_env\<lparr>en_call := (\<lambda>k v. Inr (v + 40))\<rparr>\<rparr>"
  have "length (call_args sample_query_env ?q) = 2"
    by (simp add: call_args_def pt_count_def get_child_def)
  then have p: "qe_pack sample_query_env (call_args sample_query_env ?q) = 2" by (simp add: sample_query_env_def)
  obtain a where "block_handle_call (wk_env ?w) ''f'' (qe_pack sample_query_env (call_args sample_query_env ?q)) (wk_actor ?w)
      = Some (Inr 42, a)"
    unfolding p by (auto simp: block_handle_call_def handle_callable_def post_def)
  from call_query_answers [where us = "[sample_worker 1 ''a'']" and w = ?w and vs = "[]" and b = "Ptree ''b'' []" and n = "Ptree ''f'' []"
      and query = ?q and qe = sample_query_env and r = "Inr 42" and a = a] this
  show ?thesis
    by (auto simp: get_child_def sample_worker_def sample_query_env_def sample_text_def)
qed

definition drawable :: "worker \<Rightarrow> bool" where
  "drawable w \<longleftrightarrow> ac_state (wk_actor w) = BLOCK_STATE_DONE
     \<or> wk_inputs w \<le> length (ac_in_done (wk_actor w)) \<and> wk_outputs w \<le> length (ac_out_done (wk_actor w))"

lemma port_cells_total:
  "fin \<or> (\<forall>i \<in> set is. i < length bits) \<Longrightarrow> \<exists>s. port_cells side fin bits is out = Inr s"
  by (induction "is" arbitrary: out) (auto simp: Let_def)

lemma port_cells_undefined:
  "\<not> fin \<Longrightarrow> \<exists>i \<in> set is. length bits \<le> i \<Longrightarrow> port_cells side fin bits is out = Inl (Undefined ''bit index out of range'')"
  by (induction "is" arbitrary: out) (auto simp: Let_def)

lemma node_line_drawable: "drawable w \<Longrightarrow> \<exists>l. node_line w = Inr l"
proof -
  let ?f = "ac_state (wk_actor w) = BLOCK_STATE_DONE"
  assume "drawable w"
  then have "?f \<or> (\<forall>i \<in> set [0..<wk_inputs w]. i < length (ac_in_done (wk_actor w)))"
    and "?f \<or> (\<forall>i \<in> set [0..<wk_outputs w]. i < length (ac_out_done (wk_actor w)))"
    by (auto simp: drawable_def)
  then obtain s t where "port_cells ''in'' ?f (ac_in_done (wk_actor w)) [0..<wk_inputs w] [] = Inr s"
    "port_cells ''out'' ?f (ac_out_done (wk_actor w)) [0..<wk_outputs w] [] = Inr t"
    using port_cells_total [of ?f _ _ "''in''" "[]"] port_cells_total [of ?f _ _ "''out''" "[]"] by blast
  then show "\<exists>l. node_line w = Inr l" by (simp add: node_line_def)
qed

lemma node_line_undrawable: "\<not> drawable w \<Longrightarrow> node_line w = Inl (Undefined ''bit index out of range'')"
proof -
  let ?f = "ac_state (wk_actor w) = BLOCK_STATE_DONE"
  assume "\<not> drawable w"
  then have f: "\<not> ?f" and "length (ac_in_done (wk_actor w)) < wk_inputs w \<or> length (ac_out_done (wk_actor w)) < wk_outputs w"
    by (auto simp: drawable_def)
  then consider "\<exists>i \<in> set [0..<wk_inputs w]. length (ac_in_done (wk_actor w)) \<le> i"
    | "\<forall>i \<in> set [0..<wk_inputs w]. i < length (ac_in_done (wk_actor w))"
      "\<exists>i \<in> set [0..<wk_outputs w]. length (ac_out_done (wk_actor w)) \<le> i"
    by (metis atLeast0LessThan lessThan_iff order_refl set_upt linorder_not_le)
  then show ?thesis
  proof cases
    case 1
    then show ?thesis using f port_cells_undefined [of ?f] by (simp add: node_line_def)
  next
    case 2
    then obtain s where "port_cells ''in'' ?f (ac_in_done (wk_actor w)) [0..<wk_inputs w] [] = Inr s"
      using port_cells_total [of ?f _ _ "''in''" "[]"] by blast
    with 2 f port_cells_undefined [of ?f] show ?thesis by (simp add: node_line_def)
  qed
qed

lemma node_lines:
  "foldE (\<lambda>w buff. bindE (node_line w) (\<lambda>l. Inr (buff @ l))) ws buff =
     (if \<forall>w \<in> set ws. drawable w then Inr (buff @ concat (map (\<lambda>w. projr (node_line w)) ws))
      else Inl (Undefined ''bit index out of range''))"
proof (induction ws arbitrary: buff)
  case (Cons w ws)
  then show ?case
    using node_line_drawable [of w] node_line_undrawable [of w] by (cases "drawable w") auto
qed simp

text \<open>A dot document shows each block the query names, or every block when it names none, and of the
  connections exactly those between two blocks that it shows. It reads a bit for every port of a
  block that is not done, and goes out of range when the actor does not have that port yet.\<close>

theorem topology_query_draws:
  "query_topology ws fs query =
     (let ids = block_ids query; shown_ws = filter (\<lambda>w. ids = [] \<or> wk_uid w \<in> set ids) ws
      in if \<exists>w \<in> set shown_ws. ac_state (wk_actor w) \<noteq> BLOCK_STATE_DONE
            \<and> (length (ac_in_done (wk_actor w)) < wk_inputs w \<or> length (ac_out_done (wk_actor w)) < wk_outputs w)
         then Inl (Undefined ''bit index out of range'')
         else Inr (dot_header @ concat (map (\<lambda>w. projr (node_line w)) shown_ws)
           @ concat (map flow_line (filter (\<lambda>f. {fl_src f, fl_dst f} \<subseteq> wk_addr ` set shown_ws) fs)) @ ''}'' @ [CHR 0x0A]))"
proof -
  have s: "shown ids ws = filter (\<lambda>w. ids = [] \<or> wk_uid w \<in> set ids) ws" for ids
    unfolding shown_def by (rule filter_cong) auto
  have d: "drawable w = (\<not> (ac_state (wk_actor w) \<noteq> BLOCK_STATE_DONE
      \<and> (length (ac_in_done (wk_actor w)) < wk_inputs w \<or> length (ac_out_done (wk_actor w)) < wk_outputs w)))" for w
    by (auto simp: drawable_def)
  show ?thesis
    unfolding query_topology_def Let_def node_lines s by (auto simp: d shown_flows_def)
qed

end
