(* ===== verification/Loader.thy ===== *)
theory Loader
  imports Element_Tree
begin

text \<open>
  lib/module_loader.cpp and lib/jit_factory.cpp: the modules that are loaded when the library starts,
  and the compilation of a source text into the running process.

  The file system, \<open>dlopen\<close>, \<open>system\<close> and LLVM are parameters. A directory is the list of its entries
  in the order the iterator gives; links back into the tree are not considered.
\<close>

section \<open>Paths\<close>

datatype fs_node = Regular_File | Directory "(string \<times> fs_node) list" | Special_File

text \<open>\<open>operator/\<close> of fs::path.\<close>

definition slash :: "string \<Rightarrow> string \<Rightarrow> string" where
  "slash p q = (if p = [] then q else if q = [] then p
     else if last p = CHR ''/'' then p @ q else p @ CHR ''/'' # q)"

text \<open>boost::tokenizer with a char_separator: the non-empty pieces between separators.\<close>

fun split_at_all :: "char \<Rightarrow> string \<Rightarrow> string \<Rightarrow> string list" where
  "split_at_all sep acc [] = [acc]"
| "split_at_all sep acc (c # cs) =
     (if c = sep then acc # split_at_all sep [] cs else split_at_all sep (acc @ [c]) cs)"

definition tokens :: "char \<Rightarrow> string \<Rightarrow> string list" where
  "tokens sep s = filter (\<lambda>t. t \<noteq> []) (split_at_all sep [] s)"

section \<open>The module loader\<close>

text \<open>What is tried, with the result of \<open>dlopen\<close>; a failure prints a line and goes on.\<close>

record load_attempt =
  la_path :: string
  la_loaded :: bool

fun load_all_modules_in_path :: "(string \<Rightarrow> bool) \<Rightarrow> string \<Rightarrow> fs_node \<Rightarrow> load_attempt list" where
  "load_all_modules_in_path dl p Regular_File = [\<lparr>la_path = p, la_loaded = dl p\<rparr>]"
| "load_all_modules_in_path dl p (Directory es) =
     concat (map (\<lambda>e. load_all_modules_in_path dl (slash p (fst e)) (snd e)) es)"
| "load_all_modules_in_path dl p Special_File = []"

text \<open>\<open>disk p\<close> is what the path \<open>p\<close> names, if it exists.\<close>

definition load_modules_from_paths ::
  "(string \<Rightarrow> bool) \<Rightarrow> (string \<Rightarrow> fs_node option) \<Rightarrow> string \<Rightarrow> string \<Rightarrow> load_attempt list" where
  "load_modules_from_paths dl disk paths suffix =
     (if paths = [] then []
      else concat (map (\<lambda>path. if path = [] then [] else
        case disk (slash path suffix) of None \<Rightarrow> []
        | Some t \<Rightarrow> load_all_modules_in_path dl (slash path suffix) t) (tokens (CHR '':'') paths)))"

definition my_get_env :: "(string \<Rightarrow> string option) \<Rightarrow> string \<Rightarrow> string \<Rightarrow> string" where
  "my_get_env getenv name defalt = (case getenv name of None \<Rightarrow> defalt | Some v \<Rightarrow> v)"

definition get_gras_runtime_include_path :: "(string \<Rightarrow> string option) \<Rightarrow> string \<Rightarrow> string" where
  "get_gras_runtime_include_path getenv gras_root = slash (my_get_env getenv ''GRAS_ROOT'' gras_root) ''include''"

text \<open>The static block; \<open>gras_root\<close> and \<open>lib_suffix\<close> are filled in by the build.\<close>

definition gras_module_loader ::
  "(string \<Rightarrow> bool) \<Rightarrow> (string \<Rightarrow> fs_node option) \<Rightarrow> (string \<Rightarrow> string option) \<Rightarrow> string \<Rightarrow> string \<Rightarrow> load_attempt list" where
  "gras_module_loader dl disk getenv gras_root lib_suffix =
     (let modules = slash (slash (slash [] (''lib'' @ lib_suffix)) ''gras'') ''modules''
      in load_modules_from_paths dl disk (my_get_env getenv ''GRAS_ROOT'' gras_root) modules
         @ load_modules_from_paths dl disk (my_get_env getenv ''GRAS_PATH'' []) modules
         @ load_modules_from_paths dl disk (my_get_env getenv ''GRAS_MODULE_PATH'' []) [])"

section \<open>The compiler\<close>

text \<open>\<open>ExecutionEngineMonitor\<close>: the engines it holds, and the static constructors (\<open>False\<close>) and
  destructors (\<open>True\<close>) that were run.\<close>

record ee_monitor =
  em_ees :: "nat list"
  em_ran :: "(nat \<times> bool) list"

definition em_add :: "nat \<Rightarrow> ee_monitor \<Rightarrow> ee_monitor" where
  "em_add ee m = m\<lparr>em_ran := em_ran m @ [(ee, False)], em_ees := em_ees m @ [ee]\<rparr>"

definition em_destroy :: "ee_monitor \<Rightarrow> ee_monitor" where
  "em_destroy m = m\<lparr>em_ran := em_ran m @ map (\<lambda>ee. (ee, True)) (em_ees m), em_ees := []\<rparr>"

text \<open>What LLVM and the system do for the compiler.\<close>

record 'm compiler =
  co_llvm :: bool                          \<comment> \<open>\<open>HAVE_LLVM\<close>\<close>
  co_tmpnam :: "nat \<Rightarrow> string option"        \<comment> \<open>the result of the \<open>n\<close>-th \<open>tmpnam\<close>\<close>
  co_clang :: string
  co_system :: "string \<Rightarrow> string \<Rightarrow> int"   \<comment> \<open>with the text in the source file\<close>
  co_bitcode :: "string \<Rightarrow> string"           \<comment> \<open>the file after the command\<close>
  co_parse :: "string \<Rightarrow> string \<times> 'm"        \<comment> \<open>the error text and the module\<close>
  co_engine :: "'m \<Rightarrow> string \<times> nat"
  co_getenv :: "string \<Rightarrow> string option"
  co_root :: string

definition clang_words :: "string \<Rightarrow> string \<Rightarrow> string \<Rightarrow> string list \<Rightarrow> string list" where
  "clang_words clang source_file bitcode_file flags =
     [clang, ''-emit-llvm'', ''-c'', ''-x'', ''c++'', source_file, ''-o'', bitcode_file] @ flags"

definition command_line :: "string list \<Rightarrow> string" where
  "command_line cmd = concat (map (\<lambda>c. c @ '' '') cmd)"

definition call_clang_exe :: "'m compiler \<Rightarrow> string \<Rightarrow> string \<Rightarrow> string list \<Rightarrow> exn + 'm" where
  "call_clang_exe co source source_file flags =
     (case co_tmpnam co 1 of
        None \<Rightarrow> Inl (Runtime_Error ''GRAS compiler: tmp bitcode file path failed'')
      | Some bitcode_file \<Rightarrow>
          if co_system co source (command_line (clang_words (co_clang co) source_file bitcode_file flags)) \<noteq> 0
          then Inl (Runtime_Error ''GRAS compiler: error system exec clang'')
          else let (error, m) = co_parse co (co_bitcode co bitcode_file)
               in if error \<noteq> [] then Inl (Runtime_Error (''GRAS compiler: ParseBitcodeFile '' @ error)) else Inr m)"

definition jit_factory :: "'m compiler \<Rightarrow> string \<Rightarrow> string list \<Rightarrow> ee_monitor \<Rightarrow> exn + ee_monitor" where
  "jit_factory co source flags mon =
     (if \<not> co_llvm co then Inl (Runtime_Error ''GRAS compiler not built with Clang support!'')
      else case co_tmpnam co 0 of
        None \<Rightarrow> Inl (Runtime_Error ''GRAS compiler: tmp source file path failed'')
      | Some source_file \<Rightarrow>
          bindE (call_clang_exe co source source_file (flags @ [''-I'' @ get_gras_runtime_include_path (co_getenv co) (co_root co)])) (\<lambda>m.
            let (error, ee) = co_engine co m
            in if error \<noteq> [] then Inl (Runtime_Error (''GRAS compiler: ExecutionEngine '' @ error))
               else Inr (em_add ee mon)))"

section \<open>Facts\<close>

text \<open>A file below a path.\<close>

inductive file_below :: "string \<Rightarrow> fs_node \<Rightarrow> string \<Rightarrow> bool" where
  here: "file_below p Regular_File p"
| inside: "(n, t) \<in> set es \<Longrightarrow> file_below (slash p n) t q \<Longrightarrow> file_below p (Directory es) q"

inductive_simps file_below_simps:
  "file_below p Special_File q" "file_below p Regular_File q" "file_below p (Directory es) q"

lemma attempts_below:
  "l \<in> set (load_all_modules_in_path dl p t) \<longleftrightarrow> file_below p t (la_path l) \<and> la_loaded l = dl (la_path l)"
proof (induction dl p t rule: load_all_modules_in_path.induct)
  case (1 dl p)
  show ?case by (cases l) (auto simp: file_below_simps)
next
  case (2 dl p es)
  have "file_below p (Directory es) q \<longleftrightarrow> (\<exists>e \<in> set es. file_below (slash p (fst e)) (snd e) q)" for q
    by (auto simp: file_below_simps Bex_def)
  with 2 show ?case by auto
next
  case (3 dl p)
  show ?case by (simp add: file_below_simps)
qed

lemma split_at_all_piece: "sep \<notin> set t \<Longrightarrow> split_at_all sep acc (t @ sep # r) = (acc @ t) # split_at_all sep [] r"
  by (induction t arbitrary: acc) auto

lemma tokens_Cons: "sep \<notin> set t \<Longrightarrow> t \<noteq> [] \<Longrightarrow> tokens sep (t @ sep # r) = t # tokens sep r"
  by (simp add: tokens_def split_at_all_piece)

section \<open>Properties\<close>

text \<open>Loading a list of search paths tries exactly the regular files below the paths that exist, at any
  depth, whatever the loading of other files gives; a path that does not exist and an empty piece of
  the list do no harm.\<close>

theorem modules_tried:
  "set (load_modules_from_paths dl disk paths suffix)
    = {\<lparr>la_path = q, la_loaded = dl q\<rparr> | q path t.
        path \<in> set (tokens (CHR '':'') paths) \<and> disk (slash path suffix) = Some t \<and> file_below (slash path suffix) t q}"
  (is "?l = ?r")
proof -
  have "l \<in> ?l \<longleftrightarrow> l \<in> ?r" for l
    by (cases l) (auto simp: load_modules_from_paths_def tokens_def attempts_below eq_commute [of "Some _"] split: option.splits if_splits)
  then show ?thesis by blast
qed

text \<open>The shell gets the words of the compiler command as they are when no word is empty or has a space,
  and every engine that was added has its static constructors run once, when it is added, and its
  destructors once, in the order of adding, when the monitor ends.\<close>

theorem compiler_command_words:
  assumes "\<forall>c \<in> set cmd. c \<noteq> [] \<and> CHR '' '' \<notin> set c"
  shows "tokens (CHR '' '') (command_line cmd) = cmd
    \<and> em_ran (em_destroy (fold em_add ees \<lparr>em_ees = [], em_ran = []\<rparr>)) = map (\<lambda>e. (e, False)) ees @ map (\<lambda>e. (e, True)) ees"
proof -
  have "tokens (CHR '' '') (command_line cmd) = cmd"
    using assms
  proof (induction cmd)
    case Nil
    show ?case by (simp add: command_line_def tokens_def)
  next
    case (Cons c cmd)
    then show ?case using tokens_Cons [of "CHR '' ''" c "command_line cmd"] by (simp add: command_line_def)
  qed
  moreover have "fold em_add ees m = m\<lparr>em_ees := em_ees m @ ees, em_ran := em_ran m @ map (\<lambda>e. (e, False)) ees\<rparr>" for m
    by (induction ees arbitrary: m) (simp_all add: em_add_def)
  ultimately show ?thesis by (simp add: em_destroy_def)
qed

lemma compiler_command_words_witness:
  "tokens (CHR '' '') (command_line (clang_words ''clang'' ''/tmp/a'' ''/tmp/b'' [''-O3'']))
   = clang_words ''clang'' ''/tmp/a'' ''/tmp/b'' [''-O3'']"
  using compiler_command_words [of "clang_words ''clang'' ''/tmp/a'' ''/tmp/b'' [''-O3'']"]
  by (simp add: clang_words_def)

end
