(* ===== verification/Double.thy ===== *)
theory Double
  imports "HOL-Library.Log_Nat" Complex_Main
begin

text \<open>
  The \<open>double\<close> of C++ as the IEEE format has it: a number of 53 bits, the result of every operation
  rounded to the nearest, a tie to the even one. The numbers are the rationals they stand for. The
  exponent is not bounded: the code in view converts each result back to an integer, and what is too
  large or too small for the format is out of the range of the integer or rounds to zero.
\<close>

definition dbl_exp :: "rat \<Rightarrow> int" where
  "dbl_exp x =
     (let (p, q) = quotient_of \<bar>x\<bar>; k = bitlen p - bitlen q
      in if 2 powi k \<le> \<bar>x\<bar> then k - 52 else k - 53)"

definition round_even :: "rat \<Rightarrow> int" where
  "round_even y =
     (let f = \<lfloor>y\<rfloor>; d = y - of_int f in if d < 1 / 2 \<or> d = 1 / 2 \<and> even f then f else f + 1)"

definition dbl :: "rat \<Rightarrow> rat" where
  "dbl x = (if x = 0 then 0 else of_int (round_even (x / 2 powi dbl_exp x)) * 2 powi dbl_exp x)"

text \<open>The conversion of a \<open>double\<close> to an integer drops the fraction.\<close>

definition trunc :: "rat \<Rightarrow> int" where
  "trunc x = (if x < 0 then - \<lfloor>- x\<rfloor> else \<lfloor>x\<rfloor>)"

lemma round_even_int [simp]: "round_even (of_int n) = n"
  by (simp add: round_even_def)

lemma round_even_near: "\<bar>of_int (round_even y) - y\<bar> \<le> 1 / 2"
proof -
  have "of_int \<lfloor>y\<rfloor> \<le> y" "y < of_int \<lfloor>y\<rfloor> + 1" by linarith+
  then show ?thesis by (auto simp: round_even_def Let_def abs_le_iff)
qed

lemma bitlen_powi:
  assumes "0 < n"
  shows "2 powi (bitlen n - 1) \<le> (of_int n :: rat)" and "(of_int n :: rat) < 2 powi bitlen n"
proof -
  have "0 < bitlen n" using assms bitlen_eq_zero_iff [of n] bitlen_nonneg [of n] by linarith
  then have p: "(2 :: rat) powi (bitlen n - 1) = of_int (2 ^ nat (bitlen n - 1))"
    "(2 :: rat) powi bitlen n = of_int (2 ^ nat (bitlen n))"
    by (simp_all add: power_int_nonneg_exp)
  show "2 powi (bitlen n - 1) \<le> (of_int n :: rat)" "(of_int n :: rat) < 2 powi bitlen n"
    unfolding p of_int_le_iff of_int_less_iff using bitlen_bounds [OF assms] by simp_all
qed

lemma dbl_exp_bounds:
  assumes "x \<noteq> 0"
  shows "2 ^ 52 * 2 powi dbl_exp x \<le> \<bar>x\<bar>" and "\<bar>x\<bar> < 2 ^ 53 * 2 powi dbl_exp x"
proof -
  obtain p q where pq: "quotient_of \<bar>x\<bar> = (p, q)" by fastforce
  have q: "0 < q" using quotient_of_denom_pos [OF pq] .
  have x: "\<bar>x\<bar> = of_int p / of_int q" using quotient_of_div [OF pq] .
  have "0 < p"
  proof -
    have "0 < (of_int p / of_int q :: rat)" using assms x by simp
    then show ?thesis using q by (simp add: zero_less_divide_iff)
  qed
  note bp = bitlen_powi [OF this] and bq = bitlen_powi [OF q]
  define k where "k = bitlen p - bitlen q"
  have "(2 :: rat) powi (k - 1) = 2 powi (bitlen p - 1) / 2 powi bitlen q"
    by (simp add: k_def power_int_diff [symmetric] algebra_simps)
  also have "\<dots> \<le> \<bar>x\<bar>"
    unfolding x using bp(1) bq(2) q \<open>0 < p\<close> by (intro frac_le) simp_all
  finally have lo: "2 powi (k - 1) \<le> \<bar>x\<bar>" .
  have "\<bar>x\<bar> < 2 powi bitlen p / 2 powi (bitlen q - 1)"
    unfolding x using bp(2) bq(1) \<open>0 < p\<close> by (intro frac_less) simp_all
  also have "\<dots> = 2 powi (k + 1)"
    by (simp add: k_def power_int_diff [symmetric] algebra_simps)
  finally have hi: "\<bar>x\<bar> < 2 powi (k + 1)" .
  have e: "dbl_exp x = (if 2 powi k \<le> \<bar>x\<bar> then k - 52 else k - 53)"
    by (simp add: dbl_exp_def pq k_def)
  have s: "(2 :: rat) ^ 52 * 2 powi (m - 52) = 2 powi m" "(2 :: rat) ^ 53 * 2 powi (m - 52) = 2 powi (m + 1)"
    "(2 :: rat) ^ 52 * 2 powi (m - 53) = 2 powi (m - 1)" "(2 :: rat) ^ 53 * 2 powi (m - 53) = 2 powi m" for m
    by (simp_all add: power_int_diff power_int_add)
  have "2 ^ 52 * 2 powi dbl_exp x \<le> \<bar>x\<bar> \<and> \<bar>x\<bar> < 2 ^ 53 * 2 powi dbl_exp x"
  proof (cases "2 powi k \<le> \<bar>x\<bar>")
    case True
    then have "dbl_exp x = k - 52" by (simp only: e if_True)
    then show ?thesis by (simp only: s True hi simp_thms)
  next
    case False
    then have "dbl_exp x = k - 53" by (simp only: e if_False)
    with False show ?thesis by (simp only: s lo simp_thms not_le)
  qed
  then show "2 ^ 52 * 2 powi dbl_exp x \<le> \<bar>x\<bar>" "\<bar>x\<bar> < 2 ^ 53 * 2 powi dbl_exp x" by blast+
qed

text \<open>The relative error of a rounding, and the numbers it leaves alone.\<close>

lemma dbl_error: "\<bar>dbl x - x\<bar> \<le> \<bar>x\<bar> / 9007199254740992"
proof (cases "x = 0")
  case False
  let ?u = "2 powi dbl_exp x :: rat"
  have "dbl x - x = (of_int (round_even (x / ?u)) - x / ?u) * ?u"
    using False by (simp add: dbl_def left_diff_distrib)
  then have "\<bar>dbl x - x\<bar> = \<bar>of_int (round_even (x / ?u)) - x / ?u\<bar> * ?u"
    by (simp only: abs_mult) simp
  also have "\<dots> \<le> 1 / 2 * ?u"
    by (intro mult_right_mono round_even_near) simp
  also have "\<dots> \<le> \<bar>x\<bar> / 9007199254740992"
    using dbl_exp_bounds(1) [OF False] by simp
  finally show ?thesis .
qed (simp add: dbl_def)

lemma dbl_0 [simp]: "dbl 0 = 0"
  by (simp add: dbl_def)

lemma dbl_scaled:
  assumes "\<bar>m\<bar> \<le> 2 ^ 53"
  shows "dbl (of_int m * 2 powi k) = of_int m * 2 powi k"
proof (cases "m = 0")
  case False
  define x :: rat where "x = of_int m * 2 powi k"
  define e where "e = dbl_exp x"
  have x0: "x \<noteq> 0" using False by (simp add: x_def)
  have "\<bar>x\<bar> = of_int \<bar>m\<bar> * 2 powi k" by (simp add: x_def abs_mult)
  also have "\<dots> \<le> 2 ^ 53 * 2 powi k"
  proof (rule mult_right_mono)
    have "(of_int \<bar>m\<bar> :: rat) \<le> of_int (2 ^ 53)" using assms by (simp only: of_int_le_iff)
    then show "(of_int \<bar>m\<bar> :: rat) \<le> 2 ^ 53" by simp
  qed simp
  finally have le: "\<bar>x\<bar> \<le> 2 ^ 53 * 2 powi k" .
  with dbl_exp_bounds(1) [OF x0] have "2 powi e \<le> (2 :: rat) * 2 powi k" by (simp add: e_def)
  then have "(2 :: rat) powi e \<le> 2 powi (k + 1)" by (simp add: power_int_add)
  then have "e \<le> k + 1"
    using power_int_strict_increasing [of "k + 1" e "2 :: rat"] by (cases "k + 1 < e") auto
  have "\<exists>n. x / 2 powi e = of_int n"
  proof (cases "e \<le> k")
    case True
    then have "x / 2 powi e = of_int m * 2 powi (k - e)" by (simp add: x_def power_int_diff)
    also have "\<dots> = of_int (m * 2 ^ nat (k - e))" using True by (simp add: power_int_nonneg_exp)
    finally show ?thesis by blast
  next
    case False
    with \<open>e \<le> k + 1\<close> have e1: "e = k + 1" by simp
    have "2 ^ 53 * 2 powi k \<le> \<bar>x\<bar>"
      using dbl_exp_bounds(1) [OF x0] by (simp add: e_def [symmetric] e1 power_int_add)
    with le have "\<bar>x\<bar> = 2 ^ 53 * 2 powi k" by (rule antisym)
    then have "\<bar>x\<bar> / 2 powi e = 2 ^ 52" by (simp only: e1) (simp add: power_int_add)
    then have "x / 2 powi e = of_int (2 ^ 52) \<or> x / 2 powi e = of_int (- (2 ^ 52))"
      by (auto simp: abs_if split: if_splits)
    then show ?thesis by blast
  qed
  then obtain n where n: "x / 2 powi e = of_int n" by blast
  have "dbl x = of_int (round_even (x / 2 powi e)) * 2 powi e"
    using x0 by (simp add: dbl_def e_def)
  also have "\<dots> = x / 2 powi e * 2 powi e" by (simp only: n round_even_int)
  also have "\<dots> = x" by simp
  finally show ?thesis by (simp only: x_def)
qed simp

lemma dbl_int: "\<bar>m\<bar> \<le> 2 ^ 53 \<Longrightarrow> dbl (of_int m) = of_int m"
  using dbl_scaled [of m 0] by simp

lemma trunc_int [simp]: "trunc (of_int n) = n"
  by (simp add: trunc_def)

lemma trunc_near: "\<bar>of_int (trunc x) - x\<bar> < 1"
  by (simp add: trunc_def) linarith

text \<open>Two roundings in a row.\<close>

lemma abs_via: "\<bar>a - b\<bar> \<le> s \<Longrightarrow> \<bar>b - c\<bar> \<le> t \<Longrightarrow> \<bar>a - c\<bar> \<le> s + (t :: rat)"
  by (simp only: abs_le_iff) linarith

lemma dbl_le: "\<bar>dbl x\<bar> \<le> 2 * \<bar>x\<bar>"
proof -
  have "\<bar>dbl x\<bar> \<le> \<bar>x\<bar> / 9007199254740992 + \<bar>x\<bar>"
    using abs_via [OF dbl_error, of x 0 "\<bar>x\<bar>"] by simp
  then show ?thesis by simp
qed

lemma dbl_within: "\<bar>x\<bar> \<le> b \<Longrightarrow> \<bar>dbl x - x\<bar> \<le> b / 9007199254740992"
  using dbl_error [of x] by (rule order_trans) simp

lemma dbl_mul_within:
  assumes "0 < z" and "\<bar>p\<bar> * z \<le> b"
  shows "\<bar>dbl (dbl p * z) - p * z\<bar> \<le> 3 * b / 9007199254740992"
proof -
  have "\<bar>dbl p * z\<bar> \<le> 2 * \<bar>p\<bar> * z" using assms(1) dbl_le [of p] by (simp add: abs_mult mult_right_mono)
  with assms(2) have "\<bar>dbl p * z\<bar> \<le> 2 * b" by simp
  then have "\<bar>dbl (dbl p * z) - dbl p * z\<bar> \<le> 2 * b / 9007199254740992" by (rule dbl_within)
  moreover have "\<bar>dbl p * z - p * z\<bar> \<le> b / 9007199254740992"
  proof -
    have "\<bar>dbl p * z - p * z\<bar> = \<bar>dbl p - p\<bar> * z" using assms(1) by (simp add: abs_mult left_diff_distrib [symmetric])
    also have "\<dots> \<le> \<bar>p\<bar> / 9007199254740992 * z" using assms(1) by (intro mult_right_mono dbl_error) simp
    finally show ?thesis using assms(2) by simp
  qed
  ultimately have "\<bar>dbl (dbl p * z) - p * z\<bar> \<le> 2 * b / 9007199254740992 + b / 9007199254740992" by (rule abs_via)
  then show ?thesis by simp
qed

lemma dbl_div_within: "0 < z \<Longrightarrow> \<bar>p\<bar> / z \<le> b \<Longrightarrow> \<bar>dbl (dbl p / z) - p / z\<bar> \<le> 3 * b / 9007199254740992"
  using dbl_mul_within [of "1 / z" p b] by simp

end
