(* ===== verification/Time_Convert.thy ===== *)
theory Time_Convert
  imports Time_Tag Double
begin

text \<open>
  lib/time_tag.cpp: the conversions of a time tag that go through \<open>double\<close>, to and from the ticks of a
  given rate and to and from a PMC tuple.

  The numbers of type \<open>double\<close> are those of Double, rounded after every operation; a rate of zero
  makes an infinity or a NaN, which no integer can hold. boost's \<open>llround\<close> and the values of PMC are
  libraries: the first is an argument, the second a record of functions.
\<close>

section \<open>The code\<close>

definition to_s64 :: "rat \<Rightarrow> exn + int" where
  "to_s64 x = (if in_s64 (trunc x) then Inr (trunc x) else Inl (Undefined ''double out of range''))"

text \<open>PMC values: the tuple of two, the unsigned 64-bit integer and the double.\<close>

record 'p time_pmc =
  tp_tuple :: "'p \<Rightarrow> 'p \<Rightarrow> 'p"
  tp_as_tuple :: "'p \<Rightarrow> exn + 'p \<times> 'p"
  tp_u64 :: "int \<Rightarrow> 'p"
  tp_as_u64 :: "'p \<Rightarrow> exn + int"
  tp_double :: "rat \<Rightarrow> 'p"
  tp_as_double :: "'p \<Rightarrow> exn + rat"

definition from_ticks_rate :: "(rat \<Rightarrow> exn + int) \<Rightarrow> int \<Rightarrow> rat \<Rightarrow> exn + time_tag" where
  "from_ticks_rate llround n rate =
     (if rate = 0 then Inl (Undefined ''double out of range'')
      else bindE (to_s64 (dbl (dbl (of_int n) / rate))) (\<lambda>f.
           let error = dbl (dbl (of_int n) - dbl (dbl (of_int f) * rate))
           in bindE (llround (dbl (dbl (error * of_int TIME_TAG_TPS) / rate))) (\<lambda>k.
              tt_normalize (Time_Tag f k))))"

definition to_ticks_rate :: "(rat \<Rightarrow> exn + int) \<Rightarrow> time_tag \<Rightarrow> rat \<Rightarrow> exn + int" where
  "to_ticks_rate llround t rate =
     (if rate = 0 then Inl (Runtime_Error ''rounding_error'')
      else bindE (to_s64 (dbl (dbl (of_int (fsecs t)) * rate))) (\<lambda>full.
           let error = dbl (dbl (of_int (fsecs t)) - dbl (dbl (of_int full) / rate));
               x = dbl (dbl (dbl (dbl (of_int (ticks t)) * rate) / of_int TIME_TAG_TPS) + dbl (error * rate))
           in bindE (llround x) (\<lambda>k. s64 (full + k))))"

definition from_pmc :: "'p time_pmc \<Rightarrow> (rat \<Rightarrow> exn + int) \<Rightarrow> 'p \<Rightarrow> exn + time_tag" where
  "from_pmc tp llround p =
     bindE (tp_as_tuple tp p) (\<lambda>(a, b).
     bindE (tp_as_u64 tp a) (\<lambda>u.
     bindE (tp_as_double tp b) (\<lambda>d.
     bindE (llround (dbl (d * of_int TIME_TAG_TPS))) (\<lambda>k. tt_normalize (Time_Tag (wrap_s64 u) k)))))"

definition to_pmc :: "'p time_pmc \<Rightarrow> time_tag \<Rightarrow> 'p" where
  "to_pmc tp t = tp_tuple tp (tp_u64 tp (fsecs t mod 2 ^ 64))
     (tp_double tp (dbl (dbl (of_int (ticks t)) / of_int TIME_TAG_TPS)))"

section \<open>The libraries\<close>

text \<open>\<open>llround\<close> gives an integer that is at most one half away, whichever it takes of two; the values
  of PMC read back as what they were made from.\<close>

definition rounds :: "(rat \<Rightarrow> exn + int) \<Rightarrow> bool" where
  "rounds llround \<longleftrightarrow> (\<forall>x. \<bar>x\<bar> \<le> 2 ^ 62 \<longrightarrow> (\<exists>k. llround x = Inr k \<and> \<bar>of_int k - x\<bar> \<le> 1 / 2))"

definition reads_back :: "'p time_pmc \<Rightarrow> bool" where
  "reads_back tp \<longleftrightarrow> (\<forall>a b. tp_as_tuple tp (tp_tuple tp a b) = Inr (a, b))
     \<and> (\<forall>u. 0 \<le> u \<and> u < 2 ^ 64 \<longrightarrow> tp_as_u64 tp (tp_u64 tp u) = Inr u)
     \<and> (\<forall>d. tp_as_double tp (tp_double tp d) = Inr d)"

lemma rounds_to:
  assumes "rounds llround" and "\<bar>x - of_int k\<bar> < 1 / 2" and "\<bar>x\<bar> \<le> 2 ^ 62"
  shows "llround x = Inr k"
proof -
  obtain m where m: "llround x = Inr m" "\<bar>of_int m - x\<bar> \<le> 1 / 2"
    using assms(1,3) by (auto simp: rounds_def)
  have "\<bar>of_int m - of_int k :: rat\<bar> < 1" using m(2) assms(2) by linarith
  then have "\<bar>m - k\<bar> < 1" by (simp only: of_int_diff [symmetric] of_int_abs [symmetric] of_int_less_1_iff)
  with m(1) show ?thesis by simp
qed

lemma tt_normalize_small:
  assumes "\<bar>ticks t\<bar> < TIME_TAG_TPS" and "in_s64 (fsecs t)"
  shows "tt_normalize t = Inr t"
proof -
  have "c_quot (ticks t) TIME_TAG_TPS = 0"
    using assms(1) by (auto simp: c_quot_def TIME_TAG_TPS_def Let_def abs_less_iff)
  then show ?thesis using assms
    by (auto simp: tt_normalize_def wrap_s32_def s64_def in_s64_def TIME_TAG_TPS_def abs_less_iff)
qed

lemma wrap_s64_mod: "in_s64 x \<Longrightarrow> wrap_s64 (x mod 2 ^ 64) = x"
  by (simp add: wrap_s64_def mod_add_left_eq in_s64_def)

section \<open>Rates\<close>

lemma of_int_le_pow: "\<bar>m\<bar> \<le> 2 ^ k \<Longrightarrow> \<bar>of_int m :: rat\<bar> \<le> 2 ^ k"
proof -
  assume "\<bar>m\<bar> \<le> 2 ^ k"
  then have "(of_int \<bar>m\<bar> :: rat) \<le> of_int (2 ^ k)" by (simp only: of_int_le_iff)
  then show ?thesis by simp
qed

text \<open>The full seconds of a count of ticks leave at most a second.\<close>

lemma rate_seconds:
  assumes "0 < R" and "\<bar>n\<bar> \<le> 2 ^ 52"
  defines "F \<equiv> trunc (dbl (of_int n / of_int R))"
  shows "\<bar>n - F * R\<bar> \<le> R"
proof -
  let ?q = "of_int n / of_int R :: rat"
  have R: "0 < (of_int R :: rat)" using assms(1) by simp
  have "\<bar>?q\<bar> * of_int R \<le> 4503599627370496" using R of_int_le_pow [OF assms(2)] by (simp add: abs_mult)
  then have "\<bar>?q\<bar> * of_int R / 9007199254740992 \<le> 4503599627370496 / 9007199254740992"
    by (rule divide_right_mono) simp
  also have "\<dots> < 1" by simp
  finally have q: "\<bar>?q\<bar> * of_int R / 9007199254740992 < 1" .
  have "\<bar>of_int F - ?q\<bar> < 1 + \<bar>?q\<bar> / 9007199254740992"
    using trunc_near [of "dbl ?q"] dbl_error [of ?q] unfolding F_def
    by (simp only: abs_less_iff abs_le_iff) linarith
  then have "\<bar>of_int F - ?q\<bar> * of_int R < (1 + \<bar>?q\<bar> / 9007199254740992) * of_int R"
    using R by (rule mult_strict_right_mono)
  then have "\<bar>of_int F - ?q\<bar> * of_int R < of_int R + \<bar>?q\<bar> * of_int R / 9007199254740992"
    by (simp add: algebra_simps)
  also have "\<dots> < of_int R + 1" using q by (rule add_strict_left_mono)
  finally have lt: "\<bar>of_int F - ?q\<bar> * of_int R < of_int R + 1" .
  have "(of_int F - ?q) * of_int R = of_int (F * R - n)" using R by (simp add: left_diff_distrib)
  then have "\<bar>of_int F - ?q\<bar> * of_int R = of_int \<bar>F * R - n\<bar>"
    using R by (simp only: abs_of_pos abs_mult [symmetric] of_int_abs)
      (metis abs_mult abs_of_pos)
  with lt have "(of_int \<bar>F * R - n\<bar> :: rat) < of_int (R + 1)" by simp
  then have "\<bar>F * R - n\<bar> < R + 1" by (simp only: of_int_less_iff)
  then show ?thesis by (simp add: abs_minus_commute)
qed

lemma int_rat_le: "\<bar>m\<bar> \<le> k \<Longrightarrow> \<bar>of_int m :: rat\<bar> \<le> of_int k"
  by (simp only: of_int_abs [symmetric] of_int_le_iff)

lemma rat_int_less: "\<bar>of_int m :: rat\<bar> < of_int k \<Longrightarrow> \<bar>m\<bar> < k"
  by (simp only: of_int_abs [symmetric] of_int_less_iff)

lemma int_mult_bounds:
  assumes "\<bar>n - F * R\<bar> \<le> (d :: int)" and "\<bar>n\<bar> \<le> b" and "0 < R"
  shows "\<bar>F * R\<bar> \<le> b + d" and "\<bar>F\<bar> \<le> b + d"
proof -
  show FR: "\<bar>F * R\<bar> \<le> b + d" using assms(1,2) by (simp only: abs_le_iff) linarith
  have "\<bar>F\<bar> * 1 \<le> \<bar>F\<bar> * R" using assms(3) by (intro mult_left_mono) simp_all
  then show "\<bar>F\<bar> \<le> b + d" using FR assms(3) by (simp add: abs_mult)
qed

lemma from_rate:
  assumes "rounds llround" and "0 < R" and "R \<le> TIME_TAG_TPS" and "\<bar>n\<bar> \<le> 2 ^ 52"
  obtains F T where "from_ticks_rate llround n (of_int R) = tt_normalize (Time_Tag F T)"
    and "\<bar>n - F * R\<bar> \<le> R" and "\<bar>T\<bar> \<le> TIME_TAG_TPS"
    and "\<bar>of_int T - of_int ((n - F * R) * TIME_TAG_TPS) / of_int R :: rat\<bar> \<le> 500001 / 1000000"
proof -
  define F where "F = trunc (dbl (of_int n / of_int R))"
  define E where "E = n - F * R"
  have E: "\<bar>E\<bar> \<le> R" using rate_seconds [OF assms(2,4)] by (simp add: E_def F_def)
  have R: "0 < (of_int R :: rat)" using assms(2) by simp
  have FR: "\<bar>F * R\<bar> \<le> 2 ^ 53" "\<bar>F\<bar> \<le> 2 ^ 53"
    using int_mult_bounds [OF E [unfolded E_def] assms(4,2)] assms(3) by (simp_all add: TIME_TAG_TPS_def)
  have n: "dbl (of_int n) = of_int n" using assms(4) by (intro dbl_int) simp
  have s: "to_s64 (dbl (dbl (of_int n) / of_int R)) = Inr F"
    using FR(2) by (simp add: to_s64_def n F_def [symmetric] in_s64_def abs_le_iff)
  have fr: "dbl (dbl (of_int F) * of_int R) = of_int (F * R)"
    using dbl_int [OF FR(1)] dbl_int [OF FR(2)] by simp
  have "\<bar>E\<bar> \<le> 2 ^ 53" using E assms(3) by (simp add: TIME_TAG_TPS_def)
  then have e: "dbl (dbl (of_int n) - dbl (dbl (of_int F) * of_int R)) = of_int E"
    using dbl_int [of E] by (simp only: n fr E_def of_int_diff)
  define p :: rat where "p = of_int E * of_int TIME_TAG_TPS"
  have p: "\<bar>p\<bar> / of_int R \<le> 1000000000"
    using int_rat_le [OF E] R by (simp add: p_def abs_mult TIME_TAG_TPS_def pos_divide_le_eq)
  define x where "x = dbl (dbl p / of_int R)"
  have xp: "\<bar>x - p / of_int R\<bar> \<le> 1 / 1000000"
    using dbl_div_within [OF R p] unfolding x_def by (rule order_trans) simp
  have "\<bar>x\<bar> \<le> 1 / 1000000 + 1000000000"
    using abs_via [OF xp, of 0 1000000000] p R by simp
  also have "\<dots> \<le> 2 ^ 62" by simp
  finally have "\<bar>x\<bar> \<le> 2 ^ 62" .
  then obtain T where T: "llround x = Inr T" "\<bar>of_int T - x\<bar> \<le> 1 / 2"
    using assms(1) by (auto simp: rounds_def)
  have tp: "\<bar>of_int T - p / of_int R\<bar> \<le> 500001 / 1000000"
    using abs_via [OF T(2) xp] by simp
  then have "\<bar>of_int T :: rat\<bar> \<le> 500001 / 1000000 + 1000000000"
    using abs_via [OF tp, of 0 1000000000] p R by simp
  also have "\<dots> < of_int (TIME_TAG_TPS + 1)" by (simp add: TIME_TAG_TPS_def)
  finally have "\<bar>T\<bar> < TIME_TAG_TPS + 1" by (rule rat_int_less)
  moreover have "from_ticks_rate llround n (of_int R) = tt_normalize (Time_Tag F T)"
    using assms(2) T(1) by (simp add: from_ticks_rate_def s e Let_def p_def [symmetric] x_def [symmetric])
  ultimately show thesis using that E tp by (simp add: E_def p_def)
qed

lemma to_rate:
  assumes "rounds llround" and "0 < R" and "R \<le> TIME_TAG_TPS" and "\<bar>fsecs t * R\<bar> \<le> 2 ^ 53"
    and "\<bar>fsecs t\<bar> \<le> 2 ^ 53" and "\<bar>ticks t\<bar> \<le> TIME_TAG_TPS" and "\<bar>fsecs t * R + m\<bar> \<le> 2 ^ 53"
    and "\<bar>of_int (ticks t * R) / of_int TIME_TAG_TPS - of_int m :: rat\<bar> < 499999 / 1000000"
  shows "to_ticks_rate llround t (of_int R) = Inr (fsecs t * R + m)"
proof -
  have R: "0 < (of_int R :: rat)" "(of_int R :: rat) \<le> 1000000000"
    using assms(2) of_int_le_iff [of R TIME_TAG_TPS, where 'a = rat] assms(3) by (simp_all add: TIME_TAG_TPS_def)
  have full: "dbl (dbl (of_int (fsecs t)) * of_int R) = of_int (fsecs t * R)"
    using dbl_int [OF assms(4)] dbl_int [OF assms(5)] by simp
  have s: "to_s64 (of_int (fsecs t * R)) = Inr (fsecs t * R)"
    unfolding to_s64_def trunc_int using assms(4) by (simp add: in_s64_def abs_le_iff)
  have "dbl (of_int (fsecs t * R)) / of_int R = of_int (fsecs t)"
    using dbl_int [OF assms(4)] R by simp
  then have e: "dbl (dbl (of_int (fsecs t)) - dbl (dbl (of_int (fsecs t * R)) / of_int R)) = 0"
    by simp
  have "\<bar>ticks t\<bar> \<le> 2 ^ 53" using assms(6) by (simp add: TIME_TAG_TPS_def)
  then have k: "dbl (of_int (ticks t)) = of_int (ticks t)" by (rule dbl_int)
  define p :: rat where "p = of_int (ticks t) * of_int R"
  have "\<bar>of_int (ticks t) :: rat\<bar> \<le> 1000000000"
    using int_rat_le [OF assms(6)] by (simp add: TIME_TAG_TPS_def)
  then have "\<bar>p\<bar> \<le> 1000000000 * 1000000000"
    unfolding p_def abs_mult using R by (intro mult_mono) simp_all
  then have p: "\<bar>p\<bar> / of_int TIME_TAG_TPS \<le> 1000000000" by (simp add: TIME_TAG_TPS_def)
  define y where "y = dbl (dbl p / of_int TIME_TAG_TPS)"
  have "0 < (of_int TIME_TAG_TPS :: rat)" by (simp add: TIME_TAG_TPS_def)
  note tps = this
  have yp: "\<bar>y - p / of_int TIME_TAG_TPS\<bar> \<le> 4 / 10000000"
    using dbl_div_within [OF tps p] unfolding y_def by (rule order_trans) simp
  have y: "\<bar>y\<bar> \<le> 1000000001"
    using abs_via [OF yp, of 0 1000000000] p tps by simp
  have dy: "\<bar>dbl y - y\<bar> \<le> 2 / 10000000"
    using dbl_within [OF y] by (rule order_trans) simp
  have "\<bar>dbl y - p / of_int TIME_TAG_TPS\<bar> \<le> 6 / 10000000"
    using abs_via [OF dy yp] by simp
  then have near: "\<bar>dbl y - of_int m\<bar> < 1 / 2"
    using abs_via [OF _ less_imp_le [OF assms(8)], of "dbl y" "6 / 10000000"] by (simp add: p_def)
  have "\<bar>dbl y\<bar> \<le> 2 ^ 62" using abs_via [OF dy, of 0 1000000001] y by simp
  with near have l: "llround (dbl y) = Inr m" by (rule rounds_to [OF assms(1)])
  have "to_ticks_rate llround t (of_int R) = s64 (fsecs t * R + m)"
    using assms(2) l unfolding to_ticks_rate_def full
    by (simp only: s e Let_def bindE_Inr k p_def [symmetric] y_def [symmetric]) simp
  also have "\<dots> = Inr (fsecs t * R + m)"
    using assms(7) by (simp add: s64_def in_s64_def abs_le_iff)
  finally show ?thesis .
qed

lemma tt_normalize_near:
  assumes "\<bar>ticks u\<bar> \<le> TIME_TAG_TPS" and "\<bar>fsecs u\<bar> \<le> 2 ^ 60"
  obtains t where "tt_normalize u = Inr t" and "\<bar>ticks t\<bar> \<le> TIME_TAG_TPS" and "\<bar>fsecs t - fsecs u\<bar> \<le> 2"
    and "(fsecs t - fsecs u) * TIME_TAG_TPS = ticks u - ticks t"
proof -
  have f: "- (2 ^ 62) \<le> fsecs u" "fsecs u < 2 ^ 62" using assms(2) by (simp_all add: abs_le_iff)
  obtain t where t: "tt_normalize u = Inr t" "\<bar>ticks t\<bar> \<le> TIME_TAG_TPS"
  proof (cases "0 \<le> ticks u")
    case True
    have "0 \<le> ticks u mod TIME_TAG_TPS" "ticks u mod TIME_TAG_TPS < TIME_TAG_TPS" by (simp_all add: TIME_TAG_TPS_def)
    with that tt_normalize_nonneg [OF True _ f] assms(1) show ?thesis by (simp add: TIME_TAG_TPS_def)
  next
    case False
    with that tt_normalize_neg [OF _ _ f] assms(1) show ?thesis by (auto simp: TIME_TAG_TPS_def abs_le_iff)
  qed
  have v: "(fsecs t - fsecs u) * TIME_TAG_TPS = ticks u - ticks t"
    using tt_normalize_value [OF t(1)] by (simp add: time_value_def algebra_simps)
  then have "\<bar>fsecs t - fsecs u\<bar> \<le> 2" using t(2) assms(1) by (simp add: TIME_TAG_TPS_def)
  with t v show thesis using that by blast
qed

text \<open>The error of a tag's ticks, as a fraction of a tick of the rate, is below one half.\<close>

lemma rate_error:
  assumes "0 < R" and "R \<le> 900000000 \<or> R = TIME_TAG_TPS"
    and "\<bar>of_int T - of_int (e * TIME_TAG_TPS) / of_int R :: rat\<bar> \<le> 500001 / 1000000"
  shows "\<bar>of_int (T * R) / of_int TIME_TAG_TPS - of_int e :: rat\<bar> < 499999 / 1000000"
proof -
  have R: "0 < (of_int R :: rat)" using assms(1) by simp
  have tps: "(of_int TIME_TAG_TPS :: rat) = 1000000000" by (simp add: TIME_TAG_TPS_def)
  show ?thesis
  proof (cases "R = TIME_TAG_TPS")
    case True
    then have "\<bar>of_int (T - e) :: rat\<bar> \<le> 500001 / 1000000" using assms(3) by (simp add: tps)
    also have "\<dots> < of_int 1" by simp
    finally have "\<bar>T - e\<bar> < 1" by (rule rat_int_less)
    then have "T = e" by simp
    with True show ?thesis by (simp add: tps)
  next
    case False
    then have "(of_int R :: rat) \<le> of_int 900000000" using assms(2) by (simp only: of_int_le_iff) simp
    have "of_int (T * R) / of_int TIME_TAG_TPS - of_int e
        = (of_int T - of_int (e * TIME_TAG_TPS) / of_int R) * (of_int R / of_int TIME_TAG_TPS :: rat)"
      using R by (simp add: tps field_simps)
    moreover have "\<bar>of_int R / of_int TIME_TAG_TPS :: rat\<bar> = of_int R / of_int TIME_TAG_TPS"
      using R by (simp add: tps)
    ultimately have "\<bar>of_int (T * R) / of_int TIME_TAG_TPS - of_int e :: rat\<bar>
        = \<bar>of_int T - of_int (e * TIME_TAG_TPS) / of_int R\<bar> * (of_int R / of_int TIME_TAG_TPS)"
      by (simp only: abs_mult)
    also have "\<dots> \<le> 500001 / 1000000 * (900000000 / 1000000000)"
      using assms(3) R \<open>of_int R \<le> of_int 900000000\<close> by (intro mult_mono) (simp_all add: tps)
    also have "\<dots> < 499999 / 1000000" by simp
    finally show ?thesis .
  qed
qed

section \<open>Properties\<close>

text \<open>Libraries that do as documented.\<close>

definition nearest :: "rat \<Rightarrow> exn + int" where
  "nearest x = (if \<bar>x\<bar> < 2 ^ 63 then Inr (if x < 0 then - \<lfloor>1 / 2 - x\<rfloor> else \<lfloor>1 / 2 + x\<rfloor>)
     else Inl (Runtime_Error ''rounding_error''))"

datatype tuple_value = Pair_Of tuple_value tuple_value | Whole int | Fraction rat

definition tuple_values :: "tuple_value time_pmc" where
  "tuple_values = \<lparr>tp_tuple = Pair_Of,
     tp_as_tuple = (\<lambda>p. case p of Pair_Of a b \<Rightarrow> Inr (a, b) | _ \<Rightarrow> Inl (Runtime_Error ''bad cast'')),
     tp_u64 = Whole, tp_as_u64 = (\<lambda>p. case p of Whole u \<Rightarrow> Inr u | _ \<Rightarrow> Inl (Runtime_Error ''bad cast'')),
     tp_double = Fraction, tp_as_double = (\<lambda>p. case p of Fraction d \<Rightarrow> Inr d | _ \<Rightarrow> Inl (Runtime_Error ''bad cast''))\<rparr>"

lemma rounds_nearest: "rounds nearest"
proof -
  have "\<bar>of_int \<lfloor>1 / 2 + x\<rfloor> - x\<bar> \<le> 1 / 2" "\<bar>- of_int \<lfloor>1 / 2 - x\<rfloor> - x\<bar> \<le> 1 / 2" for x :: rat
    by (simp_all only: abs_le_iff) linarith+
  then show ?thesis by (auto simp: rounds_def nearest_def)
qed

lemma reads_back_tuple_values: "reads_back tuple_values"
  by (simp add: reads_back_def tuple_values_def)

text \<open>C30 A count of at most \<open>2 ^ 52\<close> ticks of a rate of whole ticks per second, up to nine hundred
  million or the default rate, survives its way through a time tag, whatever the roundings on the way:
  the seconds and the fraction that the two divisions give are close enough to the count for the final
  rounding to find it.\<close>

theorem time_tag_rate_roundtrip:
  assumes "rounds llround" and "0 < R" and "R \<le> 900000000 \<or> R = TIME_TAG_TPS" and "\<bar>n\<bar> \<le> 2 ^ 52"
  shows "\<exists>t. from_ticks_rate llround n (of_int R) = Inr t \<and> \<bar>ticks t\<bar> \<le> TIME_TAG_TPS
    \<and> to_ticks_rate llround t (of_int R) = Inr n"
proof -
  have R: "R \<le> TIME_TAG_TPS" using assms(3) by (auto simp: TIME_TAG_TPS_def)
  obtain F T where FT: "from_ticks_rate llround n (of_int R) = tt_normalize (Time_Tag F T)"
      "\<bar>n - F * R\<bar> \<le> R" "\<bar>T\<bar> \<le> TIME_TAG_TPS"
      "\<bar>of_int T - of_int ((n - F * R) * TIME_TAG_TPS) / of_int R :: rat\<bar> \<le> 500001 / 1000000"
    using from_rate [OF assms(1,2) R assms(4)] by blast
  have F: "\<bar>F\<bar> \<le> 2 ^ 60"
    using int_mult_bounds(2) [OF FT(2) assms(4,2)] R by (simp add: TIME_TAG_TPS_def)
  obtain t where t: "tt_normalize (Time_Tag F T) = Inr t" "\<bar>ticks t\<bar> \<le> TIME_TAG_TPS" "\<bar>fsecs t - F\<bar> \<le> 2"
      "(fsecs t - F) * TIME_TAG_TPS = T - ticks t"
    using tt_normalize_near [of "Time_Tag F T"] FT(3) F by auto
  define m where "m = n - fsecs t * R"
  have m: "\<bar>n - fsecs t * R\<bar> \<le> 3 * R"
  proof -
    have "n - fsecs t * R = n - F * R - (fsecs t - F) * R" by (simp add: algebra_simps)
    moreover have "\<bar>(fsecs t - F) * R\<bar> \<le> 2 * R" using t(3) assms(2) by (simp add: abs_mult)
    ultimately show ?thesis using FT(2) by linarith
  qed
  have b: "\<bar>fsecs t * R\<bar> \<le> 2 ^ 53" "\<bar>fsecs t\<bar> \<le> 2 ^ 53"
    using int_mult_bounds [OF m assms(4,2)] R by (simp_all add: TIME_TAG_TPS_def)
  have "ticks t = T + (F - fsecs t) * TIME_TAG_TPS" using t(4) by (simp add: algebra_simps)
  note tk = this
  have "of_int (ticks t * R) / of_int TIME_TAG_TPS - of_int m
      = (of_int (T * R) / of_int TIME_TAG_TPS - of_int (n - F * R) :: rat)"
    unfolding tk m_def by (simp add: TIME_TAG_TPS_def field_simps)
  then have "\<bar>of_int (ticks t * R) / of_int TIME_TAG_TPS - of_int m :: rat\<bar> < 499999 / 1000000"
    using rate_error [OF assms(2,3) FT(4)] by (simp only:)
  then have "to_ticks_rate llround t (of_int R) = Inr (fsecs t * R + m)"
    using assms(4) by (intro to_rate [OF assms(1,2) R b t(2)]) (simp_all add: m_def)
  with FT(1) t(1,2) show ?thesis by (simp add: m_def)
qed

lemma time_tag_rate_roundtrip_witness:
  "\<exists>t. from_ticks_rate nearest (- 1000) (of_int 44100) = Inr t \<and> to_ticks_rate nearest t (of_int 44100) = Inr (- 1000)"
  using time_tag_rate_roundtrip [OF rounds_nearest, of 44100 "- 1000"] by auto

text \<open>C31 A time tag whose fraction is within a second, in either direction, survives its way through a
  PMC tuple: the fraction goes through a division and a multiplication of \<open>double\<close>, the seconds through
  an unsigned integer.\<close>

theorem time_tag_pmc_roundtrip:
  assumes "rounds llround" and "reads_back tp" and "in_s64 (fsecs t)" and "\<bar>ticks t\<bar> < TIME_TAG_TPS"
  shows "from_pmc tp llround (to_pmc tp t) = Inr t"
proof -
  have tps: "(of_int TIME_TAG_TPS :: rat) = 1000000000" by (simp add: TIME_TAG_TPS_def)
  have k53: "\<bar>ticks t\<bar> \<le> 2 ^ 53" using assms(4) by (simp add: TIME_TAG_TPS_def)
  have k: "\<bar>of_int (ticks t) :: rat\<bar> \<le> 1000000000"
    using int_rat_le [OF less_imp_le [OF assms(4)]] by (simp add: tps)
  define p :: rat where "p = of_int (ticks t) / 1000000000"
  have "\<bar>p\<bar> * 1000000000 \<le> 1000000000" using k by (simp add: p_def)
  from dbl_mul_within [OF _ this]
  have z: "\<bar>dbl (dbl p * 1000000000) - of_int (ticks t)\<bar> \<le> 3 * 1000000000 / 9007199254740992"
    by (simp add: p_def)
  also have "\<dots> < 1 / 2" by simp
  finally have near: "\<bar>dbl (dbl p * 1000000000) - of_int (ticks t)\<bar> < 1 / 2" .
  have "\<bar>dbl (dbl p * 1000000000)\<bar> \<le> 3 * 1000000000 / 9007199254740992 + 1000000000"
    using abs_via [OF z, of 0 1000000000] k by simp
  also have "\<dots> \<le> 2 ^ 62" by simp
  finally have "llround (dbl (dbl p * 1000000000)) = Inr (ticks t)"
    using rounds_to [OF assms(1) near] by blast
  moreover have "dbl (dbl (of_int (ticks t)) / of_int TIME_TAG_TPS) = dbl p"
    using dbl_int [OF k53] by (simp add: p_def tps)
  moreover have "tt_normalize t = Inr t" using assms(3,4) by (simp add: tt_normalize_small)
  ultimately show ?thesis
    using assms(2,3) wrap_s64_mod [of "fsecs t"] by (simp add: from_pmc_def to_pmc_def reads_back_def tps)
qed

lemma time_tag_pmc_roundtrip_witness:
  "from_pmc tuple_values nearest (to_pmc tuple_values (Time_Tag (- 7) 999999999)) = Inr (Time_Tag (- 7) 999999999)"
  using time_tag_pmc_roundtrip [OF rounds_nearest reads_back_tuple_values, of "Time_Tag (- 7) 999999999"]
  by (simp add: in_s64_def TIME_TAG_TPS_def)

text \<open>Above \<open>2 ^ 53\<close> the count itself is rounded: two counts give the same tag, and so one of them
  does not come back.\<close>

lemma dbl_odd: "dbl (of_int (2 ^ 53 + 1)) = dbl (of_int (2 ^ 53))"
proof -
  define x :: rat where "x = of_int (2 ^ 53 + 1)"
  define e where "e = dbl_exp x"
  have x: "x = 9007199254740993" "x \<noteq> 0" by (simp_all add: x_def)
  have lo: "4503599627370496 * 2 powi e \<le> x" and hi: "x < 9007199254740992 * 2 powi e"
    using dbl_exp_bounds [OF x(2)] by (simp_all add: e_def x)
  have "e = 1"
  proof (rule antisym)
    show "e \<le> 1"
    proof (rule ccontr)
      assume "\<not> e \<le> 1"
      then have "(2 :: rat) powi 2 \<le> 2 powi e" by (intro power_int_increasing) simp_all
      with lo show False by (simp add: x)
    qed
    show "1 \<le> e"
    proof (rule ccontr)
      assume "\<not> 1 \<le> e"
      then have "(2 :: rat) powi e \<le> 2 powi 0" by (intro power_int_increasing) simp_all
      with hi show False by (simp add: x)
    qed
  qed
  moreover have "\<lfloor>9007199254740993 / 2 :: rat\<rfloor> = 4503599627370496" by linarith
  then have "round_even (x / 2) = 4503599627370496" by (simp add: round_even_def x Let_def)
  ultimately have "dbl x = 9007199254740992" using x(2) by (simp add: dbl_def e_def [symmetric])
  then show ?thesis using dbl_int [of "2 ^ 53"] by (simp add: x_def)
qed

theorem large_ticks_collide:
  "from_ticks_rate llround (2 ^ 53 + 1) rate = from_ticks_rate llround (2 ^ 53) rate"
  using dbl_odd by (simp only: from_ticks_rate_def)

end
