(* ===== verification/Flow_Graph.thy ===== *)
theory Flow_Graph
  imports Block_Host
begin

text \<open>
  lib/hier_block.cpp, the constructors, the commit, the run and the destruction of lib/top_block.cpp,
  the containers of an element and the thread priority test of lib/thread_pool.cpp.

  The topology and the executor are those of the flow-graph library: an operation of a hier block is
  the call it makes on them, and what the call does is an argument of the properties.
\<close>

section \<open>Elements of a flow graph\<close>

type_synonym handle = nat

text \<open>A container that holds an element: a weak pointer to the object of a \<open>shared_ptr\<close>, or one of the
  user's with a lock of its own.\<close>

datatype container = Weak_Shared nat | User_Container nat

text \<open>The part of \<open>ElementImpl\<close> that the graph is made of; workers and topologies are the identities of
  their objects.\<close>

record graph_elem =
  ge_worker :: "nat option"
  ge_topology :: "nat option"
  ge_executor :: bool
  ge_container :: "container option"

record graph =
  gr_elem :: "handle \<Rightarrow> graph_elem option"
  gr_owners :: "nat set"                      \<comment> \<open>the objects that a shared pointer owns\<close>
  gr_user_lock :: "nat \<Rightarrow> nat option"         \<comment> \<open>what the lock of a user's container gives\<close>

definition null_elem :: exn where
  "null_elem = Undefined ''null element''"

definition impl_of :: "graph \<Rightarrow> handle \<Rightarrow> exn + graph_elem" where
  "impl_of g e = (case gr_elem g e of None \<Rightarrow> Inl null_elem | Some x \<Rightarrow> Inr x)"

definition weak_lock :: "graph \<Rightarrow> container \<Rightarrow> nat option" where
  "weak_lock g c = (case c of
     Weak_Shared p \<Rightarrow> if p \<in> gr_owners g then Some p else None
   | User_Container n \<Rightarrow> gr_user_lock g n)"

definition set_container :: "handle \<Rightarrow> container \<Rightarrow> graph \<Rightarrow> exn + graph" where
  "set_container e c g = bindE (impl_of g e) (\<lambda>x.
     Inr (g\<lparr>gr_elem := (gr_elem g)(e \<mapsto> x\<lparr>ge_container := Some c\<rparr>)\<rparr>))"

text \<open>\<open>Element(elem)\<close> of a shared pointer \<open>p\<close> to the element \<open>e\<close>: the handle is that of \<open>e\<close>.\<close>

definition element_of_shared :: "nat \<Rightarrow> handle \<Rightarrow> graph \<Rightarrow> exn + handle \<times> graph" where
  "element_of_shared p e g = bindE (set_container e (Weak_Shared p) g) (\<lambda>g. Inr (e, g))"

datatype base = Worker_Base nat | Topology_Base nat

definition get_elem :: "graph_elem \<Rightarrow> exn + base" where
  "get_elem x = (case ge_worker x of
     Some w \<Rightarrow> Inr (Worker_Base w)
   | None \<Rightarrow> (case ge_topology x of
       Some t \<Rightarrow> Inr (Topology_Base t)
     | None \<Rightarrow> Inl (Runtime_Error ''ElementImpl::get_elem fail'')))"

section \<open>Hier block\<close>

text \<open>What a port holds on to: the object of the container, or the element.\<close>

datatype wax = Held nat | Held_Element handle

definition get_ref :: "graph \<Rightarrow> handle \<Rightarrow> exn + wax" where
  "get_ref g e = bindE (impl_of g e) (\<lambda>x.
     Inr (case ge_container x of
            None \<Rightarrow> Held_Element e
          | Some c \<Rightarrow> (case weak_lock g c of None \<Rightarrow> Held_Element e | Some p \<Rightarrow> Held p)))"

record port =
  po_elem :: base
  po_index :: nat
  po_ref :: "wax option"

record flow =
  fl_src :: port
  fl_dst :: port

text \<open>The calls on a topology, and the commit of its executor. A topology that is no part of an element
  is a null pointer.\<close>

datatype graph_call =
    Add_Topology "nat option"
  | Remove_Topology "nat option"
  | Add_Flow flow
  | Remove_Flow flow
  | Clear_All
  | Topology_Commit
  | Executor_Commit

definition new_hier_block :: "nat \<Rightarrow> graph_elem" where
  "new_hier_block t = \<lparr>ge_worker = None, ge_topology = Some t, ge_executor = False, ge_container = None\<rparr>"

text \<open>A call through \<open>(*this)->topology\<close>.\<close>

definition on_topology :: "graph \<Rightarrow> handle \<Rightarrow> graph_call \<Rightarrow> exn + nat \<times> graph_call" where
  "on_topology g this c = bindE (impl_of g this) (\<lambda>x.
     case ge_topology x of None \<Rightarrow> Inl (Undefined ''null topology'') | Some t \<Rightarrow> Inr (t, c))"

definition hier_connect :: "graph \<Rightarrow> handle \<Rightarrow> handle \<Rightarrow> exn + nat \<times> graph_call" where
  "hier_connect g this e = bindE (impl_of g e) (\<lambda>x. on_topology g this (Add_Topology (ge_topology x)))"

definition hier_disconnect :: "graph \<Rightarrow> handle \<Rightarrow> handle \<Rightarrow> exn + nat \<times> graph_call" where
  "hier_disconnect g this e = bindE (impl_of g e) (\<lambda>x. on_topology g this (Remove_Topology (ge_topology x)))"

definition port_of :: "graph \<Rightarrow> handle \<Rightarrow> nat \<Rightarrow> exn + port" where
  "port_of g e i = bindE (impl_of g e) (\<lambda>x. bindE (get_elem x) (\<lambda>b.
     Inr \<lparr>po_elem = b, po_index = i, po_ref = None\<rparr>))"

definition held_port_of :: "graph \<Rightarrow> handle \<Rightarrow> nat \<Rightarrow> exn + port" where
  "held_port_of g e i = bindE (port_of g e i) (\<lambda>p. bindE (get_ref g e) (\<lambda>r. Inr (p\<lparr>po_ref := Some r\<rparr>)))"

definition hier_connect_flow :: "graph \<Rightarrow> handle \<Rightarrow> handle \<Rightarrow> nat \<Rightarrow> handle \<Rightarrow> nat \<Rightarrow> exn + nat \<times> graph_call" where
  "hier_connect_flow g this src i sink j =
     bindE (held_port_of g src i) (\<lambda>p. bindE (held_port_of g sink j) (\<lambda>q.
       on_topology g this (Add_Flow \<lparr>fl_src = p, fl_dst = q\<rparr>)))"

definition hier_disconnect_flow :: "graph \<Rightarrow> handle \<Rightarrow> handle \<Rightarrow> nat \<Rightarrow> handle \<Rightarrow> nat \<Rightarrow> exn + nat \<times> graph_call" where
  "hier_disconnect_flow g this src i sink j =
     bindE (port_of g src i) (\<lambda>p. bindE (port_of g sink j) (\<lambda>q.
       on_topology g this (Remove_Flow \<lparr>fl_src = p, fl_dst = q\<rparr>)))"

definition hier_disconnect_all :: "graph \<Rightarrow> handle \<Rightarrow> exn + nat \<times> graph_call" where
  "hier_disconnect_all g this = on_topology g this Clear_All"

definition hier_commit :: "graph \<Rightarrow> handle \<Rightarrow> exn + nat \<times> graph_call" where
  "hier_commit g this = on_topology g this Topology_Commit"

section \<open>Top block\<close>

definition new_top_block :: "nat \<Rightarrow> graph_elem" where
  "new_top_block t = (new_hier_block t)\<lparr>ge_executor := True\<rparr>"

text \<open>\<open>TopBlock::commit\<close>: the blocks get the config and their updates, and the actors are started.\<close>

definition top_commit :: "process_env \<Rightarrow> nat \<Rightarrow> token \<Rightarrow> global_config \<Rightarrow> block_impl list \<Rightarrow> hosts \<Rightarrow> actor list
    \<Rightarrow> block_impl list \<Rightarrow> hosts \<Rightarrow> (nat \<times> message) list \<Rightarrow> actor list \<Rightarrow> bool" where
  "top_commit pe tg tok cfg bs h as bs' h' ms as' \<longleftrightarrow>
     hier_commit_config pe cfg bs h = Inr (bs', h', ms) \<and> top_start tg tok cfg as as'"

definition top_run :: "nat \<Rightarrow> token \<Rightarrow> global_config \<Rightarrow> bool \<Rightarrow> int \<Rightarrow> (nat \<Rightarrow> seen) \<Rightarrow> actor list \<Rightarrow> actor list \<Rightarrow> wait_event list option \<Rightarrow> bool" where
  "top_run tg tok cfg lockup_debug now obs as as' r \<longleftrightarrow>
     top_start tg tok cfg as as' \<and> r = top_wait lockup_debug now obs"

text \<open>The cleanup of a top block and of a hier block, and the destructor of an element up to the
  cleanup of its block, which \<open>block_cleanup\<close> models.\<close>

definition top_block_cleanup :: "token \<Rightarrow> actor list \<Rightarrow> actor list \<Rightarrow> graph_call list \<Rightarrow> bool" where
  "top_block_cleanup tok as as' cs \<longleftrightarrow>
     bcast_prio_msg tok (TopInert False) as as' \<and> cs = [Clear_All, Executor_Commit]"

definition hier_block_cleanup :: "graph_call list" where
  "hier_block_cleanup = [Clear_All]"

definition destroy_element :: "token \<Rightarrow> graph_elem \<Rightarrow> actor list \<Rightarrow> actor list \<Rightarrow> graph_call list \<Rightarrow> bool" where
  "destroy_element tok x as as' cs \<longleftrightarrow>
     (\<exists>ds. (if ge_executor x then top_block_cleanup tok as as' ds else as' = as \<and> ds = [])
       \<and> cs = ds @ (if ge_topology x \<noteq> None then hier_block_cleanup else []))"

section \<open>The thread priority test\<close>

text \<open>The caller locks the mutex, makes a thread, and locks the mutex again: the thread unlocks it when
  it has tried the priority. That is an unlock by a thread that is not the owner, which the mutexes of
  boost do not allow; here it has the effect it has on pthreads.\<close>

datatype caller_pc = M_Lock | M_Create | M_Relock | M_Unlock | M_Join | M_Check | M_Return "exn + bool"
datatype tester_pc = T_None | T_Set | T_Called | T_Unlock | T_End

record prio_state =
  ps_caller :: caller_pc
  ps_tester :: tester_pc
  ps_locked :: bool
  ps_result :: bool
  ps_called :: bool

definition prio_start :: prio_state where
  "prio_start = \<lparr>ps_caller = M_Lock, ps_tester = T_None, ps_locked = False, ps_result = False, ps_called = False\<rparr>"

text \<open>\<open>ok\<close> is the result of the call that sets the priority.\<close>

inductive tester_step :: "bool \<Rightarrow> prio_state \<Rightarrow> prio_state \<Rightarrow> bool" for ok where
  set: "ps_tester s = T_Set \<Longrightarrow> tester_step ok s (s\<lparr>ps_result := ok, ps_tester := T_Called\<rparr>)"
| called: "ps_tester s = T_Called \<Longrightarrow> tester_step ok s (s\<lparr>ps_called := True, ps_tester := T_Unlock\<rparr>)"
| unlock: "ps_tester s = T_Unlock \<Longrightarrow> tester_step ok s (s\<lparr>ps_locked := False, ps_tester := T_End\<rparr>)"

inductive prio_step :: "bool \<Rightarrow> prio_state \<Rightarrow> prio_state \<Rightarrow> bool" for ok where
  lock: "ps_caller s = M_Lock \<Longrightarrow> \<not> ps_locked s \<Longrightarrow> prio_step ok s (s\<lparr>ps_locked := True, ps_caller := M_Create\<rparr>)"
| create: "ps_caller s = M_Create \<Longrightarrow> prio_step ok s (s\<lparr>ps_tester := T_Set, ps_caller := M_Relock\<rparr>)"
| relock: "ps_caller s = M_Relock \<Longrightarrow> \<not> ps_locked s \<Longrightarrow> prio_step ok s (s\<lparr>ps_locked := True, ps_caller := M_Unlock\<rparr>)"
| unlock: "ps_caller s = M_Unlock \<Longrightarrow> prio_step ok s (s\<lparr>ps_locked := False, ps_caller := M_Join\<rparr>)"
| join: "ps_caller s = M_Join \<Longrightarrow> ps_tester s = T_End \<Longrightarrow> prio_step ok s (s\<lparr>ps_caller := M_Check\<rparr>)"
| check: "ps_caller s = M_Check \<Longrightarrow> prio_step ok s (s\<lparr>ps_caller := M_Return
    (if ps_called s then Inr (ps_result s) else Inl (Runtime_Error ''test_thread_priority_thread never executed''))\<rparr>)"
| tester: "tester_step ok s t \<Longrightarrow> prio_step ok s t"

inductive_cases prio_stepE: "prio_step ok s t"
inductive_cases tester_stepE: "tester_step ok s t"

fun caller_left :: "caller_pc \<Rightarrow> nat" where
  "caller_left M_Lock = 10" | "caller_left M_Create = 9" | "caller_left M_Relock = 4" | "caller_left M_Unlock = 3"
| "caller_left M_Join = 2" | "caller_left M_Check = 1" | "caller_left (M_Return r) = 0"

fun tester_left :: "tester_pc \<Rightarrow> nat" where
  "tester_left T_Set = 3" | "tester_left T_Called = 2" | "tester_left T_Unlock = 1" | "tester_left T_End = 0"
| "tester_left T_None = 0"

definition prio_left :: "prio_state \<Rightarrow> nat" where
  "prio_left s = caller_left (ps_caller s) + tester_left (ps_tester s)"

fun prio_inv :: "bool \<Rightarrow> caller_pc \<Rightarrow> tester_pc \<Rightarrow> bool \<Rightarrow> bool" where
  "prio_inv ok M_Lock t l \<longleftrightarrow> t = T_None \<and> \<not> l"
| "prio_inv ok M_Create t l \<longleftrightarrow> t = T_None \<and> l"
| "prio_inv ok M_Relock t l \<longleftrightarrow> t \<noteq> T_None \<and> (l \<longleftrightarrow> t \<noteq> T_End)"
| "prio_inv ok M_Unlock t l \<longleftrightarrow> t = T_End \<and> l"
| "prio_inv ok M_Join t l \<longleftrightarrow> t = T_End"
| "prio_inv ok M_Check t l \<longleftrightarrow> t = T_End"
| "prio_inv ok (M_Return r) t l \<longleftrightarrow> t = T_End \<and> r = Inr ok"

definition prio_ok :: "bool \<Rightarrow> prio_state \<Rightarrow> bool" where
  "prio_ok ok s \<longleftrightarrow> prio_inv ok (ps_caller s) (ps_tester s) (ps_locked s)
     \<and> (ps_tester s \<in> {T_Called, T_Unlock, T_End} \<longrightarrow> ps_result s = ok)
     \<and> (ps_tester s \<in> {T_Unlock, T_End} \<longrightarrow> ps_called s)"

lemma tester_step_ok: "tester_step ok s t \<Longrightarrow> prio_ok ok s \<Longrightarrow> prio_ok ok t"
  by (elim tester_stepE; cases "ps_caller s"; simp add: prio_ok_def)

lemma prio_step_ok: "prio_step ok s t \<Longrightarrow> prio_ok ok s \<Longrightarrow> prio_ok ok t"
  by (elim prio_stepE; (rule tester_step_ok, assumption, assumption)?; simp add: prio_ok_def)

lemma tester_step_left: "tester_step ok s t \<Longrightarrow> prio_left t < prio_left s"
  by (elim tester_stepE; simp add: prio_left_def)

lemma tester_left_le: "tester_left p \<le> 3"
  by (cases p) simp_all

lemma prio_step_left:
  assumes "prio_step ok s t"
  shows "prio_left t < prio_left s"
  using assms
proof (rule prio_stepE)
  assume "tester_step ok s t"
  then show ?thesis by (rule tester_step_left)
qed (use tester_left_le [of "ps_tester s"] in \<open>simp_all add: prio_left_def\<close>)

lemma prio_reach_ok: "(prio_step ok)\<^sup>*\<^sup>* prio_start s \<Longrightarrow> prio_ok ok s"
proof (induction rule: rtranclp_induct)
  case base
  show ?case by (simp add: prio_start_def prio_ok_def)
qed (rule prio_step_ok)

lemma prio_stuck:
  assumes "prio_ok ok s" and "\<nexists>t. prio_step ok s t"
  shows "ps_caller s = M_Return (Inr ok)"
proof -
  from assms(2) have no: "\<And>t. \<not> prio_step ok s t" "\<And>t. \<not> tester_step ok s t" by (auto intro: prio_step.tester)
  then have "ps_tester s \<notin> {T_Set, T_Called, T_Unlock}"
    by (metis empty_iff insert_iff tester_step.intros)
  then have "ps_tester s = T_None \<or> ps_tester s = T_End" by (cases "ps_tester s") simp_all
  with assms(1) have "ps_caller s \<in> {M_Lock, M_Relock} \<Longrightarrow> \<not> ps_locked s" "ps_caller s = M_Join \<Longrightarrow> ps_tester s = T_End"
    by (auto simp: prio_ok_def)
  with no(1) have "\<exists>r. ps_caller s = M_Return r"
    by (cases "ps_caller s") (simp_all, (blast intro: prio_step.intros)+)
  with assms(1) show ?thesis by (auto simp: prio_ok_def)
qed

section \<open>Properties\<close>

text \<open>What the library promises: which flows a topology has after a call. A flow is the two ends, not
  what they hold on to.\<close>

definition ends :: "flow \<Rightarrow> (base \<times> nat) \<times> (base \<times> nat)" where
  "ends f = ((po_elem (fl_src f), po_index (fl_src f)), (po_elem (fl_dst f), po_index (fl_dst f)))"

definition keeps_flows :: "(graph_call \<Rightarrow> 't \<Rightarrow> 't) \<Rightarrow> ('t \<Rightarrow> ((base \<times> nat) \<times> (base \<times> nat)) set) \<Rightarrow> bool" where
  "keeps_flows run flows \<longleftrightarrow> (\<forall>f t. flows (run (Add_Flow f) t) = insert (ends f) (flows t)
     \<and> flows (run (Remove_Flow f) t) = flows t - {ends f} \<and> flows (run Clear_All t) = {}
     \<and> flows (run Executor_Commit t) = flows t)"

definition held :: "graph \<Rightarrow> handle \<Rightarrow> graph_elem \<Rightarrow> wax" where
  "held g e x = (case Option.bind (ge_container x) (weak_lock g) of None \<Rightarrow> Held_Element e | Some p \<Rightarrow> Held p)"

lemma port_of_eq: "gr_elem g e = Some x \<Longrightarrow> get_elem x = Inr b \<Longrightarrow>
    port_of g e i = Inr \<lparr>po_elem = b, po_index = i, po_ref = None\<rparr>"
  by (simp add: port_of_def impl_of_def)

lemma held_port_of_eq: "gr_elem g e = Some x \<Longrightarrow> get_elem x = Inr b \<Longrightarrow>
    held_port_of g e i = Inr \<lparr>po_elem = b, po_index = i, po_ref = Some (held g e x)\<rparr>"
  by (cases "ge_container x") (simp_all add: held_port_of_def port_of_eq get_ref_def impl_of_def held_def)

lemma held_port_of_fails: "gr_elem g e = Some x \<Longrightarrow> get_elem x = Inl y \<Longrightarrow>
    held_port_of g e i = Inl (Runtime_Error ''ElementImpl::get_elem fail'')"
  by (auto simp: held_port_of_def port_of_def impl_of_def get_elem_def split: option.splits)

lemma on_topology_eq: "gr_elem g this = Some z \<Longrightarrow> ge_topology z = Some tp \<Longrightarrow> on_topology g this c = Inr (tp, c)"
  by (simp add: on_topology_def impl_of_def)

lemma get_elem_container [simp]: "get_elem (x\<lparr>ge_container := k\<rparr>) = get_elem x"
  by (simp add: get_elem_def split: option.splits)


definition sample_graph :: graph where
  "sample_graph = \<lparr>gr_elem = [0 \<mapsto> new_top_block 0,
       1 \<mapsto> \<lparr>ge_worker = Some 0, ge_topology = None, ge_executor = False, ge_container = Some (Weak_Shared 5)\<rparr>,
       2 \<mapsto> \<lparr>ge_worker = Some 1, ge_topology = None, ge_executor = False, ge_container = None\<rparr>],
     gr_owners = {5}, gr_user_lock = (\<lambda>_. None)\<rparr>"

definition set_of_flows :: "graph_call \<Rightarrow> ((base \<times> nat) \<times> (base \<times> nat)) set \<Rightarrow> ((base \<times> nat) \<times> (base \<times> nat)) set" where
  "set_of_flows c t = (case c of Add_Flow f \<Rightarrow> insert (ends f) t | Remove_Flow f \<Rightarrow> t - {ends f} | Clear_All \<Rightarrow> {} | _ \<Rightarrow> t)"

lemma keeps_flows_set: "keeps_flows set_of_flows (\<lambda>t. t)"
  by (simp add: keeps_flows_def set_of_flows_def)




text \<open>\<open>test_thread_priority\<close> always comes to an end, in at most ten steps of its two threads however they
  interleave, and then it returns what the attempt to set the priority gave: the exception for a
  thread that never ran is never thrown.\<close>

theorem priority_test_returns:
  assumes "(prio_step ok)\<^sup>*\<^sup>* prio_start s"
  shows "(\<forall>t. prio_step ok s t \<longrightarrow> prio_left t < prio_left s) \<and> prio_left s \<le> 10
    \<and> ((\<nexists>t. prio_step ok s t) \<longrightarrow> ps_caller s = M_Return (Inr ok))"
proof -
  have "prio_left s \<le> prio_left prio_start" using assms
    by (induction rule: rtranclp_induct) (auto dest: prio_step_left)
  then have "prio_left s \<le> 10" by (simp add: prio_left_def prio_start_def)
  then show ?thesis using prio_step_left prio_stuck [OF prio_reach_ok [OF assms]] by blast
qed

lemma priority_test_returns_witness:
  "\<exists>s. (prio_step True)\<^sup>*\<^sup>* prio_start s \<and> ps_caller s = M_Create \<and> prio_left s \<le> 10"
proof -
  let ?s = "prio_start\<lparr>ps_locked := True, ps_caller := M_Create\<rparr>"
  have r: "(prio_step True)\<^sup>*\<^sup>* prio_start ?s"
    by (rule r_into_rtranclp, rule prio_step.lock) (simp_all add: prio_start_def)
  show ?thesis using r priority_test_returns [OF r] by (intro exI [of _ ?s]) simp
qed

end
