(* ===== verification/Block_Link.thy ===== *)
theory Block_Link
  imports Top_Block
begin

text \<open>
  Two block actors and the mailbox between them: what becomes of the messages that a block posts to
  one of its outputs. The handlers are those of Block_Actor; the step relation interleaves the two
  actors and the other senders in any order.
\<close>

section \<open>The message queues of an actor\<close>

text \<open>The three vectors that \<open>pop_input_msg\<close> and \<open>trim_msgs\<close> work on.\<close>

definition mv :: "actor \<Rightarrow> pmc list list \<times> nat list \<times> nat list" where
  "mv a = (ac_msgs a, ac_msgs_read a, st_msgs_consumed a)"

named_theorems mv \<open>operations that leave the message queues alone\<close>

lemma mv_update [simp]:
  "mv (a\<lparr>ac_inq := x1\<rparr>) = mv a" "mv (a\<lparr>ac_outq := x2\<rparr>) = mv a" "mv (a\<lparr>ac_world := x3\<rparr>) = mv a"
  "mv (a\<lparr>ac_avail := x4\<rparr>) = mv a" "mv (a\<lparr>ac_tags := x5\<rparr>) = mv a" "mv (a\<lparr>ac_tags_changed := x6\<rparr>) = mv a"
  "mv (a\<lparr>ac_items_read := x7\<rparr>) = mv a" "mv (a\<lparr>ac_out_read := x8\<rparr>) = mv a"
  "mv (a\<lparr>ac_in_items := x9\<rparr>) = mv a" "mv (a\<lparr>ac_out_items := x10\<rparr>) = mv a"
  "mv (a\<lparr>ac_in_min := x11\<rparr>) = mv a" "mv (a\<lparr>ac_in_max := x12\<rparr>) = mv a"
  "mv (a\<lparr>ac_out_min := x13\<rparr>) = mv a" "mv (a\<lparr>ac_out_max := x14\<rparr>) = mv a"
  "mv (a\<lparr>ac_total_consumed := x15\<rparr>) = mv a" "mv (a\<lparr>ac_total_produced := x16\<rparr>) = mv a"
  "mv (a\<lparr>st_items_consumed := x17\<rparr>) = mv a" "mv (a\<lparr>st_items_produced := x18\<rparr>) = mv a"
  "mv (a\<lparr>st_tags_consumed := x19\<rparr>) = mv a" "mv (a\<lparr>st_tags_produced := x20\<rparr>) = mv a"
  "mv (a\<lparr>st_msgs_produced := x21\<rparr>) = mv a" "mv (a\<lparr>st_work_count := x22\<rparr>) = mv a"
  "mv (a\<lparr>st_time_last_work := x23\<rparr>) = mv a" "mv (a\<lparr>st_start_time := x24\<rparr>) = mv a"
  "mv (a\<lparr>ac_state := x25\<rparr>) = mv a" "mv (a\<lparr>ac_in_tokens := x26\<rparr>) = mv a"
  "mv (a\<lparr>ac_out_tokens := x27\<rparr>) = mv a" "mv (a\<lparr>ac_in_done := x28\<rparr>) = mv a"
  "mv (a\<lparr>ac_out_done := x29\<rparr>) = mv a" "mv (a\<lparr>ac_token_pool := x30\<rparr>) = mv a"
  "mv (a\<lparr>ac_global := x31\<rparr>) = mv a" "mv (a\<lparr>ac_out_cfg := x32\<rparr>) = mv a" "mv (a\<lparr>ac_hints := x33\<rparr>) = mv a"
  "mv (a\<lparr>ac_thread_group := x34\<rparr>) = mv a" "mv (a\<lparr>ac_interruptible := x35\<rparr>) = mv a"
  "mv (a\<lparr>ac_first_done := x36\<rparr>) = mv a" "mv (a\<lparr>ac_fresh := x37\<rparr>) = mv a" "mv (post e a) = mv a"
  by (simp_all add: mv_def post_def)

lemma mv_aux [simp]: "mv (snd (now_of a)) = mv a" "mv (snd (make_token a)) = mv a" "mv (set_oport i p a) = mv a"
  "mv (task_kicker en a) = mv a"
  by (simp_all add: now_of_def make_token_def set_oport_def task_kicker_def split: prod.splits)

lemma foldE_mv:
  assumes "foldE f is a = Inr b" and "\<And>i a b. f i a = Inr b \<Longrightarrow> mv b = mv a"
  shows "mv b = mv a"
  by (rule foldE_invariant [where P = "\<lambda>s. mv s = mv a", OF _ _ assms(1)]) (auto dest: assms(2))

lemma in_op_mv [mv]: "in_op i f a = Inr b \<Longrightarrow> mv b = mv a"
  by (auto simp: in_op_def res_simps)

lemma out_op_mv [mv]: "out_op i f a = Inr b \<Longrightarrow> mv b = mv a"
  by (auto simp: out_op_def res_simps)

lemma in_front_mv [mv]: "in_front i a = Inr (x, b) \<Longrightarrow> mv b = mv a"
  by (auto simp: in_front_def res_simps)

lemma out_front_mv [mv]: "out_front i a = Inr (x, b) \<Longrightarrow> mv b = mv a"
  by (auto simp: out_front_def res_simps)

lemma out_store_mv [mv]: "out_store i x a = Inr b \<Longrightarrow> mv b = mv a"
  by (auto simp: out_store_def res_simps)

lemma update_input_avail_mv [mv]: "update_input_avail i a = Inr b \<Longrightarrow> mv b = mv a"
  by (auto simp: update_input_avail_def res_simps Let_def dest!: mv)

lemma actor_consume_mv [mv]: "actor_consume i n a = Inr b \<Longrightarrow> mv b = mv a"
  by (auto simp: actor_consume_def res_simps)

lemma actor_produce_mv [mv]: "actor_produce i n a = Inr b \<Longrightarrow> mv b = mv a"
  by (auto simp: actor_produce_def res_simps dest!: mv)

lemma post_output_tag_mv [mv]: "post_output_tag i t a = Inr b \<Longrightarrow> mv b = mv a"
  by (auto simp: post_output_tag_def res_simps)

lemma propagate_tags_mv [mv]: "propagate_tags i ts a = Inr b \<Longrightarrow> mv b = mv a"
  unfolding propagate_tags_def
  by (erule foldE_mv, erule foldE_mv) (auto simp: res_simps dest!: mv)

lemma sort_tags_mv [mv]: "sort_tags en i a = Inr b \<Longrightarrow> mv b = mv a"
  by (auto simp: sort_tags_def res_simps split: if_splits)

lemma trim_tags_mv [mv]: "trim_tags i a = Inr b \<Longrightarrow> mv b = mv a"
  by (auto simp: trim_tags_def res_simps Let_def dest!: propagate_tags_mv split: if_splits)

lemma trim_buffs_mv [mv]: "trim_buffs i a = Inr b \<Longrightarrow> mv b = mv a"
  by (auto simp: trim_buffs_def res_simps dest!: mv split: if_splits)

lemma post_output_mv [mv]: "post_output i a = Inr b \<Longrightarrow> mv b = mv a"
  by (auto simp: post_output_def res_simps Let_def dest!: mv split: if_splits)

lemma prep_output_mv [mv]: "prep_output i a = Inr b \<Longrightarrow> mv b = mv a"
  by (auto simp: prep_output_def res_simps Let_def dest!: mv)

lemma token_input_mv [mv]: "token_input i a = Inr b \<Longrightarrow> mv b = mv a"
  by (auto simp: token_input_def make_token_def res_simps)

lemma token_output_mv [mv]: "token_output i a = Inr b \<Longrightarrow> mv b = mv a"
  by (auto simp: token_output_def make_token_def res_simps)

lemma handle_top_token_mv [mv]: "handle_top_token t a = Inr b \<Longrightarrow> mv b = mv a"
  by (auto simp: handle_top_token_def res_simps dest!: foldE_mv intro: token_input_mv token_output_mv)

lemma handle_input_update_mv [mv]: "handle_input_update i a = Inr b \<Longrightarrow> mv b = mv a"
  by (auto simp: handle_input_update_def res_simps Let_def dest!: mv split: if_splits)

lemma handle_output_update_mv [mv]: "handle_output_update i a = Inr b \<Longrightarrow> mv b = mv a"
  by (auto simp: handle_output_update_def res_simps dest!: mv split: if_splits)

lemma fold_returner_mv: "mv (fold (buffer_returner i) bs a) = mv a"
  by (induction bs arbitrary: a) (auto simp: buffer_returner_def)

lemma alloc_output_mv [mv]: "alloc_output en i a = Inr b \<Longrightarrow> mv b = mv a"
  by (auto simp: alloc_output_def make_token_def res_simps Let_def case_prod_unfold fold_returner_mv
      dest!: out_op_mv split: option.splits)

lemma calm_mv:
  assumes "calm m" and "handle_message en m a = Inr b"
  shows "mv b = mv a"
  using assms
  by (cases "(en, m, a)" rule: handle_message.cases)
    (auto simp: handle_input_tag_def handle_input_alloc_def handle_output_hint_def handle_output_alloc_def
      handle_top_alloc_def handle_top_config_def handle_top_thread_group_def handle_callable_def handle_get_stats_def
      make_token_def now_of_def time_now_def res_simps Let_def
      split: if_splits option.splits sum.splits prod.splits dest!: mv foldE_mv intro: alloc_output_mv)

section \<open>A work call\<close>

text \<open>Before the work call nothing is read; the call reads \<open>k\<close> messages of port \<open>j\<close>; after it the
  messages that were read are taken out.\<close>

definition reads :: "nat \<Rightarrow> nat \<Rightarrow> actor \<Rightarrow> actor \<Rightarrow> bool" where
  "reads j k a b \<longleftrightarrow> ac_msgs b = ac_msgs a \<and> ac_msgs_read b ! j = ac_msgs_read a ! j + k
     \<and> st_msgs_consumed b ! j mod size_mod = (st_msgs_consumed a ! j + k) mod size_mod
     \<and> (0 < k \<longrightarrow> ac_msgs_read b ! j \<le> length (ac_msgs a ! j))"

lemma reads_same: "mv b = mv a \<Longrightarrow> reads j 0 a b"
  by (simp add: mv_def reads_def)

lemma reads_trans:
  assumes "reads j k a b" and "reads j l b c"
  shows "reads j (k + l) a c"
proof -
  have "st_msgs_consumed c ! j mod size_mod = (st_msgs_consumed b ! j mod size_mod + l) mod size_mod"
    using assms(2) by (simp add: reads_def mod_add_left_eq)
  also have "\<dots> = (st_msgs_consumed a ! j + k + l) mod size_mod"
    using assms(1) by (simp only: reads_def) (simp only: mod_add_left_eq)
  finally have "st_msgs_consumed c ! j mod size_mod = (st_msgs_consumed a ! j + (k + l)) mod size_mod"
    by (simp only: add.assoc)
  moreover have "ac_msgs c = ac_msgs a" "ac_msgs_read c ! j = ac_msgs_read a ! j + (k + l)"
    using assms by (simp_all add: reads_def)
  moreover have "0 < k + l \<longrightarrow> ac_msgs_read c ! j \<le> length (ac_msgs a ! j)"
    using assms unfolding reads_def by (cases "l = 0") (simp, metis, simp)
  ultimately show ?thesis unfolding reads_def by blast
qed

lemma mv_read [simp]: "mv (a\<lparr>ac_msgs_read := r\<rparr>) = (ac_msgs a, r, st_msgs_consumed a)"
  by (simp add: mv_def)

lemma mv_eqD: "mv b = mv a \<Longrightarrow> ac_msgs b = ac_msgs a \<and> ac_msgs_read b = ac_msgs_read a \<and> st_msgs_consumed b = st_msgs_consumed a"
  by (simp add: mv_def)

lemma prep_input_reset:
  assumes "prep_input en i (a, n) = Inr (b, n')"
  shows "i < length (ac_msgs_read a) \<and> mv b = (ac_msgs a, (ac_msgs_read a)[i := 0], st_msgs_consumed a)"
  using assms
  by (auto simp: prep_input_def res_simps Let_def dest!: in_front_mv sort_tags_mv [THEN mv_eqD] split: if_splits)

lemma task_prep_resets:
  assumes "task_prep en a = Inr b" and "j < ac_num_inputs a"
  shows "ac_msgs b = ac_msgs a \<and> ac_msgs_read b ! j = 0 \<and> st_msgs_consumed b = st_msgs_consumed a"
proof -
  have "ac_msgs c = ac_msgs a \<and> st_msgs_consumed c = st_msgs_consumed a
      \<and> length (ac_msgs_read c) = length (ac_msgs_read a) \<and> (\<forall>i \<in> set is. i < length (ac_msgs_read a) \<and> ac_msgs_read c ! i = 0)"
    if "foldE (prep_input en) is (a', 0) = Inr (c, n)" "mv a' = mv a" for "is" a' c n
    using that
  proof (induction "is" arbitrary: c n rule: rev_induct)
    case Nil
    then show ?case by (auto dest: mv_eqD)
  next
    case (snoc i js)
    then obtain d l where d: "foldE (prep_input en) js (a', 0) = Inr (d, l)" "prep_input en i (d, l) = Inr (c, n)"
      by (fastforce simp: foldE_append res_simps)
    from snoc.IH [OF d(1) snoc.prems(2)] prep_input_reset [OF d(2)] show ?case
      by (auto simp: mv_def nth_list_update)
  qed
  moreover obtain c n where "foldE (prep_input en) [0..<ac_num_inputs a] (a\<lparr>ac_in_min := size_max, ac_in_max := 0\<rparr>, 0) = Inr (c, n)"
    and o: "foldE prep_output [0..<ac_num_outputs c] (c\<lparr>ac_out_min := size_max, ac_out_max := 0\<rparr>) = Inr b"
    using assms(1) by (auto simp: task_prep_def res_simps Let_def)
  moreover have "mv b = mv c" using foldE_mv [OF o] prep_output_mv by simp
  ultimately show ?thesis using assms(2) by (fastforce dest: mv_eqD)
qed

text \<open>The calls of the work function that cannot mark the block done.\<close>

lemma pop_input_msg_reads:
  assumes "pop_input_msg i a = Inr (v, b)"
  shows "\<exists>k. reads j k a b"
proof (cases "length (ac_msgs a ! i) \<le> ac_msgs_read a ! i")
  case True
  with assms have "b = a" by (simp add: pop_input_msg_def res_simps)
  then show ?thesis using reads_same by blast
next
  case False
  with assms have b: "b = a\<lparr>ac_msgs_read := (ac_msgs_read a)[i := Suc (ac_msgs_read a ! i)],
      st_msgs_consumed := bump i 1 (st_msgs_consumed a)\<rparr>" "i < length (ac_msgs_read a)" "i < length (st_msgs_consumed a)"
    by (auto simp: pop_input_msg_def res_simps)
  show ?thesis
    using False b by (intro exI [of _ "if i = j then 1 else 0"]) (auto simp: reads_def bump_def sz_add_def)
qed

lemma api_step_reads:
  assumes "api_step en op a = Inr b" and "\<not> (op = Mark_Done \<or> (\<exists>i. op = Mark_Input_Fail i))"
  shows "\<exists>k. reads j k a b"
proof (cases "\<exists>i. op = Pop_Input_Msg i")
  case True
  then show ?thesis using assms(1) pop_input_msg_reads by (auto simp: res_simps)
next
  case False
  have "mv b = mv a"
    using assms False
    by (cases op) (auto simp: api_consume_all_def api_produce_all_def api_consume_def api_produce_def
        get_output_buffer_def pop_output_buffer_def post_output_buffer_def post_output_msg_def output_fail_def
        post_input_tag_def post_input_msg_def post_input_buffer_def res_simps Let_def
        dest!: mv foldE_mv intro: actor_consume_mv actor_produce_mv)
  then show ?thesis using reads_same by blast
qed

section \<open>What a handler does to a queue\<close>

text \<open>\<open>moves j q a b\<close>: from \<open>a\<close> to \<open>b\<close> the actor was marked done, or it took messages off the front of
  \<open>q\<close> and counted them, and \<open>b\<close> has the rest.\<close>

definition since :: "actor \<Rightarrow> actor \<Rightarrow> event list" where
  "since a b = drop (length (ac_events a)) (ac_events b)"

definition extends :: "actor \<Rightarrow> actor \<Rightarrow> bool" where
  "extends a b \<longleftrightarrow> ac_events b = ac_events a @ since a b"

definition takes :: "nat \<Rightarrow> nat \<Rightarrow> pmc list \<Rightarrow> actor \<Rightarrow> actor \<Rightarrow> bool" where
  "takes j k q a b \<longleftrightarrow> k \<le> length q \<and> ac_msgs b ! j = drop k q
     \<and> st_msgs_consumed b ! j mod size_mod = (st_msgs_consumed a ! j + k) mod size_mod"

definition moves :: "nat \<Rightarrow> pmc list \<Rightarrow> actor \<Rightarrow> actor \<Rightarrow> bool" where
  "moves j q a b \<longleftrightarrow> extends a b \<and> (Notify_Inactive \<in> set (since a b)
     \<or> (\<exists>k. takes j k q a b))"

lemma extends_iff: "extends a b \<longleftrightarrow> (\<exists>es. ac_events b = ac_events a @ es)"
  by (auto simp: extends_def since_def)

lemma extends_trans: "extends a b \<Longrightarrow> extends b c \<Longrightarrow> extends a c"
  by (auto simp: extends_iff)

lemma since_trans: "extends a b \<Longrightarrow> extends b c \<Longrightarrow> since a c = since a b @ since b c"
  by (auto simp: extends_iff since_def)

lemma quiet_extends: "quiet a b \<Longrightarrow> extends a b"
  by (auto simp: quiet_def extends_iff)

lemma keeps_extends: "keeps tok a b \<Longrightarrow> extends a b"
  by (auto simp: keeps_def extends_iff)

lemma moves_trans:
  assumes "moves j q a b" and "moves j (ac_msgs b ! j) b c"
  shows "moves j q a c"
proof (cases "Notify_Inactive \<in> set (since a b) \<or> Notify_Inactive \<in> set (since b c)")
  case True
  have "extends a b" "extends b c" using assms by (auto simp: moves_def)
  with True show ?thesis using extends_trans since_trans by (simp add: moves_def)
next
  case False
  then obtain k l where k: "takes j k q a b" and l: "takes j l (ac_msgs b ! j) b c"
    using assms by (auto simp: moves_def)
  have "st_msgs_consumed c ! j mod size_mod = (st_msgs_consumed b ! j mod size_mod + l) mod size_mod"
    using l by (simp only: takes_def mod_add_left_eq)
  also have "\<dots> = (st_msgs_consumed a ! j + (k + l)) mod size_mod"
    using k by (simp only: takes_def mod_add_left_eq add.assoc)
  finally have "takes j (k + l) q a c" using k l unfolding takes_def by (intro conjI) (auto simp: add.commute)
  then show ?thesis using False assms extends_trans by (auto simp: moves_def)
qed

lemma moves_same:
  assumes "extends a b" and "ac_msgs b ! j = ac_msgs a ! j" and "st_msgs_consumed b ! j = st_msgs_consumed a ! j"
  shows "moves j (ac_msgs a ! j) a b"
proof -
  have "takes j 0 (ac_msgs a ! j) a b" using assms(2,3) by (simp add: takes_def)
  then show ?thesis using assms(1) by (auto simp: moves_def)
qed

lemma quiet_num_inputs: "quiet a b \<Longrightarrow> ac_num_inputs b = ac_num_inputs a"
  by (simp add: quiet_def sizes_def)

lemma quiet_moves: "quiet a b \<Longrightarrow> mv b = mv a \<Longrightarrow> moves j (ac_msgs a ! j) a b"
  by (auto simp: quiet_extends dest: mv_eqD intro!: moves_same)

lemma mark_done_moves:
  assumes "mark_done a = Inr b"
  shows "moves j (ac_msgs a ! j) a b"
proof (cases "ac_state a = BLOCK_STATE_DONE")
  case True
  with assms show ?thesis by (simp add: mark_done_def quiet_moves)
next
  case False
  from mark_done_effect [OF assms this] show ?thesis
    by (auto simp: moves_def extends_iff since_def)
qed

text \<open>The calls of a work function, and the whole of it.\<close>

definition works :: "nat \<Rightarrow> actor \<Rightarrow> actor \<Rightarrow> bool" where
  "works j a b \<longleftrightarrow> extends a b \<and> (Notify_Inactive \<in> set (since a b) \<or> (quiet a b \<and> (\<exists>k. reads j k a b)))"

lemma works_same: "quiet a b \<Longrightarrow> mv b = mv a \<Longrightarrow> works j a b"
  using reads_same [of b a j] quiet_extends [of a b] by (auto simp: works_def)

lemma mark_done_works: "mark_done a = Inr b \<Longrightarrow> works j a b"
  using mark_done_effect [of a b] works_same [of a a j]
  by (cases "ac_state a = BLOCK_STATE_DONE") (auto simp: mark_done_def works_def extends_iff since_def)

lemma input_fail_works:
  assumes "input_fail en i a = Inr b"
  shows "works j a b"
proof (cases "mark_done a = Inr b")
  case True
  then show ?thesis by (rule mark_done_works)
next
  case False
  with assms obtain f c where "in_op i f a = Inr c" "b = c \<or> b = task_kicker en c"
    by (auto simp: input_fail_def res_simps split: if_splits)
  moreover from this(1) have "quiet a c" "mv c = mv a" by (auto elim: in_op_quiet dest: in_op_mv)
  ultimately show ?thesis by (auto intro!: works_same)
qed

lemma api_step_works:
  assumes "api_step en op a = Inr b"
  shows "works j a b"
proof (cases "op = Mark_Done \<or> (\<exists>i. op = Mark_Input_Fail i)")
  case True
  with assms show ?thesis by (auto intro: mark_done_works input_fail_works)
next
  case False
  have "quiet a b" using assms False by (rule api_step_quiet) simp
  with api_step_reads [OF assms False, of j] show ?thesis by (auto simp: works_def quiet_extends)
qed

lemma works_trans:
  assumes "works j a b" and "works j b c"
  shows "works j a c"
proof (cases "Notify_Inactive \<in> set (since a b) \<or> Notify_Inactive \<in> set (since b c)")
  case True
  have "extends a b" "extends b c" using assms by (simp_all add: works_def)
  with True show ?thesis using extends_trans since_trans by (simp add: works_def)
next
  case False
  with assms have "quiet a b" "quiet b c" "\<exists>k. reads j k a b" "\<exists>k. reads j k b c" by (auto simp: works_def)
  then have "quiet a c" "\<exists>k. reads j k a c" using quiet_trans reads_trans by blast+
  then show ?thesis by (simp add: works_def quiet_extends)
qed

lemma api_run_works:
  assumes "api_run en ops a = Inr b"
  shows "works j a b"
proof (rule foldE_invariant [where P = "works j a", OF _ _ assms [unfolded api_run_def]])
  fix op s t
  assume "works j a s" and "api_step en op s = Inr t"
  then show "works j a t" using works_trans api_step_works by blast
qed (simp add: works_same)

lemma post_input_trims:
  assumes "post_input i a = Inr b"
  shows "mv b = (if ac_msgs_read a ! i = 0 then ac_msgs a else (ac_msgs a)[i := drop (ac_msgs_read a ! i) (ac_msgs a ! i)],
      ac_msgs_read a, st_msgs_consumed a)
    \<and> (0 < ac_msgs_read a ! i \<longrightarrow> i < length (ac_msgs a) \<and> ac_msgs_read a ! i \<le> length (ac_msgs a ! i))"
proof -
  obtain c where c: "trim_msgs i a = Inr c" "mv b = mv c"
    using assms by (auto simp: post_input_def res_simps dest!: mv)
  then show ?thesis by (auto simp: trim_msgs_def res_simps mv_def split: if_splits)
qed

lemma post_inputs_trim:
  assumes "foldE post_input is a = Inr b" and "distinct is"
  shows "ac_msgs_read b = ac_msgs_read a \<and> st_msgs_consumed b = st_msgs_consumed a
    \<and> ac_msgs b ! j = (if j \<in> set is then drop (ac_msgs_read a ! j) (ac_msgs a ! j) else ac_msgs a ! j)
    \<and> (j \<in> set is \<longrightarrow> ac_msgs_read a ! j \<le> length (ac_msgs a ! j))"
  using assms
proof (induction "is" arbitrary: a)
  case (Cons i js)
  obtain c where c: "post_input i a = Inr c" "foldE post_input js c = Inr b"
    using Cons.prems(1) by (auto simp: res_simps)
  from Cons.IH [OF c(2)] Cons.prems(2) post_input_trims [OF c(1)] show ?case
    by (auto simp: mv_def nth_list_update split: if_splits)
qed simp

lemma task_main_moves:
  assumes "task_main en a = Inr e" and "j < ac_num_inputs a"
  shows "moves j (ac_msgs a ! j) a e"
proof (cases "work_allowed en a")
  case False
  with assms show ?thesis by (simp add: task_main_def quiet_moves)
next
  case True
  then obtain b c where p: "task_prep en a = Inr b"
    and r: "api_run en (en_work en (b\<lparr>st_work_count := sz_add (st_work_count b) 1\<rparr>))
        (post Work_Called (b\<lparr>st_work_count := sz_add (st_work_count b) 1\<rparr>)) = Inr c" (is "_ = Inr c")
    and t: "task_post en ((snd (now_of c))\<lparr>st_time_last_work := fst (now_of c)\<rparr>) = Inr e"
    using assms(1) by (auto simp: task_main_def task_work_def res_simps case_prod_unfold Let_def)
  let ?b = "post Work_Called (b\<lparr>st_work_count := sz_add (st_work_count b) 1\<rparr>)"
  let ?c = "(snd (now_of c))\<lparr>st_time_last_work := fst (now_of c)\<rparr>"
  have ab: "quiet a b" using p by (rule task_prep_quiet) simp
  note prep = task_prep_resets [OF p assms(2)]
  have w: "works j ?b c" using r by (rule api_run_works)
  have ce: "quiet c e" using t by (rule task_post_quiet) simp
  have ev: "extends a ?b" "extends ?b c" "extends c e"
    using quiet_extends [OF ab] w quiet_extends [OF ce] by (auto simp: extends_iff post_def works_def)
  then have ae: "extends a e" "since a e = since a ?b @ since ?b c @ since c e"
    using extends_trans since_trans by (metis, metis extends_trans since_trans)
  show ?thesis
  proof (cases "Notify_Inactive \<in> set (since ?b c)")
    case True
    with ae show ?thesis by (simp add: moves_def)
  next
    case False
    with w obtain k where q: "quiet ?b c" and k: "reads j k ?b c" by (auto simp: works_def)
    have n: "ac_num_inputs c = ac_num_inputs a"
      using quiet_num_inputs [OF ab] quiet_num_inputs [OF q] by (simp add: post_def)
    have cc: "mv ?c = mv c" "ac_num_inputs ?c = ac_num_inputs c" by (simp_all add: now_of_def split: prod.splits)
    obtain d f where d: "foldE post_input [0..<ac_num_inputs c] ?c = Inr d"
      and f: "foldE post_output [0..<ac_num_outputs d] d = Inr f" and e: "e = task_kicker en f"
      using t cc(2) by (auto simp: task_post_def res_simps)
    have "mv e = mv d" using foldE_mv [OF f post_output_mv] by (simp add: e)
    moreover note post_inputs_trim [OF d distinct_upt, of j] mv_eqD [OF cc(1)]
    moreover have "j \<in> set [0..<ac_num_inputs c]" using assms(2) n by simp
    moreover have "ac_msgs_read c ! j = k" "ac_msgs c = ac_msgs a"
      "st_msgs_consumed c ! j mod size_mod = (st_msgs_consumed a ! j + k) mod size_mod"
      using prep k by (simp_all add: reads_def post_def)
    ultimately have "takes j k (ac_msgs a ! j) a e" by (simp add: takes_def mv_def)
    then show ?thesis using ae(1) by (auto simp: moves_def)
  qed
qed

section \<open>The handlers\<close>

fun arrived :: "nat \<Rightarrow> message \<Rightarrow> pmc list" where
  "arrived j (To_Input i (InputMsgMessage v)) = (if i = j then [v] else [])"
| "arrived j m = []"

lemma moves_eq: "moves j q a b \<Longrightarrow> q = r \<Longrightarrow> moves j r a b"
  by simp

text \<open>A change that adds no event and leaves the counter alone, before something that moves.\<close>

lemma moves_after:
  assumes "ac_events b = ac_events a" and "st_msgs_consumed b = st_msgs_consumed a" and "moves j q b c"
  shows "moves j q a c"
  using assms by (simp add: moves_def extends_def since_def takes_def)

lemma handle_input_msg_moves:
  assumes "handle_input_msg en i v a = Inr b" and "j < ac_num_inputs a" and "ac_state a \<noteq> BLOCK_STATE_DONE"
  shows "moves j (ac_msgs a ! j @ (if i = j then [v] else [])) a b"
proof -
  let ?a = "a\<lparr>ac_msgs := (ac_msgs a)[i := ac_msgs a ! i @ [v]]\<rparr>"
  obtain c where c: "update_input_avail i ?a = Inr c" "task_main en c = Inr b" and i: "i < length (ac_msgs a)"
    using assms(1,3) by (auto simp: handle_input_msg_def res_simps)
  have q: "quiet ?a c" "mv c = mv ?a" using c(1) by (auto elim: update_input_avail_quiet dest: update_input_avail_mv)
  have "moves j (ac_msgs c ! j) c b"
    using task_main_moves [OF c(2)] assms(2) quiet_num_inputs [OF q(1)] by simp
  from moves_trans [OF quiet_moves [OF q] this] have "moves j (ac_msgs ?a ! j) ?a b" .
  then have "moves j (ac_msgs ?a ! j) a b" by (rule moves_after [rotated 2]) simp_all
  then show ?thesis by (rule moves_eq) (use i in auto)
qed

lemma handle_input_buffer_moves:
  assumes "handle_input_buffer en i x a = Inr b" and "j < ac_num_inputs a"
  shows "moves j (ac_msgs a ! j) a b"
proof (cases "ac_state a = BLOCK_STATE_DONE")
  case True
  with assms show ?thesis by (simp add: handle_input_buffer_def quiet_moves)
next
  case False
  then obtain c d where c: "in_op i (\<lambda>t0. iq_push t0 x) a = Inr c" "update_input_avail i c = Inr d" "task_main en d = Inr b"
    using assms(1) by (auto simp: handle_input_buffer_def res_simps)
  have q: "quiet a d" "mv d = mv a"
    using update_input_avail_quiet [OF c(2) in_op_quiet [OF c(1) quiet_refl]] in_op_mv [OF c(1)]
      update_input_avail_mv [OF c(2)] by simp_all
  have "moves j (ac_msgs d ! j) d b" using task_main_moves [OF c(3)] assms(2) quiet_num_inputs [OF q(1)] by simp
  with quiet_moves [OF q] show ?thesis by (rule moves_trans)
qed

lemma handle_output_buffer_moves:
  assumes "handle_output_buffer en i x a = Inr b" and "j < ac_num_inputs a"
  shows "moves j (ac_msgs a ! j) a b"
proof (cases "ac_state a = BLOCK_STATE_DONE")
  case True
  with assms show ?thesis by (simp add: handle_output_buffer_def quiet_moves)
next
  case False
  then obtain d where c: "out_op i (\<lambda>t0. oq_push t0 x) a = Inr d" "task_main en d = Inr b"
    using assms(1) by (auto simp: handle_output_buffer_def res_simps)
  have q: "quiet a d" "mv d = mv a" using out_op_quiet [OF c(1) quiet_refl] out_op_mv [OF c(1)] by simp_all
  have "moves j (ac_msgs d ! j) d b" using task_main_moves [OF c(2)] assms(2) quiet_num_inputs [OF q(1)] by simp
  with quiet_moves [OF q] show ?thesis by (rule moves_trans)
qed

lemma handle_input_check_moves:
  assumes "handle_input_check en i a = Inr b" and "j < ac_num_inputs a"
  shows "moves j (ac_msgs a ! j) a b"
proof -
  define a1 where "a1 = (if list_all (\<lambda>x. \<not> x) (ac_in_done a) then a\<lparr>ac_first_done := en_system_time en\<rparr> else a)"
  obtain x c where c: "task_main en (a1\<lparr>ac_in_done := x\<rparr>) = Inr c" "mark_done c = Inr b \<or> b = c"
    using assms(1) unfolding handle_input_check_def Let_def a1_def [symmetric] by (auto simp: res_simps split: if_splits)
  have f: "ac_msgs a1 = ac_msgs a" "ac_events a1 = ac_events a" "st_msgs_consumed a1 = st_msgs_consumed a"
    "ac_num_inputs a1 = ac_num_inputs a" by (simp_all add: a1_def)
  have "moves j (ac_msgs a ! j) (a1\<lparr>ac_in_done := x\<rparr>) c"
    using task_main_moves [OF c(1), of j] assms(2) f by simp
  then have "moves j (ac_msgs a ! j) a c" by (rule moves_after [rotated 2]) (simp_all add: f)
  then show ?thesis using c(2) mark_done_moves moves_trans by blast
qed

lemma handle_output_check_moves:
  assumes "handle_output_check en i a = Inr b"
  shows "moves j (ac_msgs a ! j) a b"
proof -
  obtain x where c: "mark_done (a\<lparr>ac_out_done := x\<rparr>) = Inr b \<or> b = a\<lparr>ac_out_done := x\<rparr>"
    using assms by (auto simp: handle_output_check_def res_simps Let_def split: if_splits)
  have "moves j (ac_msgs a ! j) (a\<lparr>ac_out_done := x\<rparr>) b"
    using c mark_done_moves [of "a\<lparr>ac_out_done := x\<rparr>" b j] quiet_moves [of b b j] by auto
  then show ?thesis by (rule moves_after [rotated 2]) simp_all
qed

lemma nth_resize_fill_grow: "i < length v \<Longrightarrow> resize_fill_grow n d v ! i = v ! i"
  by (simp add: resize_fill_grow_def resize_def nth_append)

lemma handle_topology_moves:
  assumes "handle_topology a = Inr b" and "j < ac_num_inputs a" and "j < length (ac_msgs a)"
    and "j < length (st_msgs_consumed a)"
  shows "moves j (ac_msgs a ! j) a b"
proof -
  let ?a = "resize_to_topology (ac_num_inputs a) (ac_num_outputs a)
      (post (Notify_Topology (ac_num_inputs a) (ac_num_outputs a)) a)"
  obtain c d e where c: "(if ac_num_inputs a = 0 \<and> ac_num_outputs a = 0 then mark_done ?a else Inr ?a) = Inr c"
    and d: "foldE handle_input_update [0..<ac_num_inputs a] c = Inr d"
    and e: "foldE handle_output_update [0..<ac_num_outputs a] d = Inr e" and b: "b = post Ack e"
    using assms(1) by (auto simp: handle_topology_def Let_def res_simps)
  have f: "ac_msgs ?a ! j = ac_msgs a ! j" "st_msgs_consumed ?a ! j = st_msgs_consumed a ! j" "extends a ?a"
    using assms(2-4) by (simp_all add: resize_to_topology_def post_def Let_def case_prod_unfold nth_resize
        nth_resize_fill_grow extends_iff)
  have ca: "c = ?a" using c assms(2) by simp
  have "quiet c d" using d by (rule foldE_quiet) (auto elim!: quiet)
  with e have "quiet c e" by (rule foldE_quiet) (auto elim!: quiet)
  then have q: "quiet ?a b" by (auto simp: b ca)
  have "mv b = mv ?a"
    using foldE_mv [OF d handle_input_update_mv] foldE_mv [OF e handle_output_update_mv] by (simp add: b ca)
  with q have "moves j (ac_msgs ?a ! j) ?a b" by (rule quiet_moves)
  with moves_same [OF f(3,1,2)] show ?thesis by (rule moves_trans)
qed

lemma mark_done_inputs:
  assumes "mark_done a = Inr b"
  shows "ac_num_inputs b = ac_num_inputs a"
proof (cases "ac_state a = BLOCK_STATE_DONE")
  case True
  with assms show ?thesis by (simp add: mark_done_def)
next
  case False
  from assms this obtain a2 q w oq w' a4
    where f: "foldE flush_output [0..<ac_num_outputs (inactive a)] (inactive a) = Inr a2"
    and "iq_flush_all (ac_inq a2) (ac_world a2) = Inr (q, w)"
    and "oq_flush_all (ac_outq a2) w = (oq, w')"
    and c: "foldE clear_input [0..<ac_num_inputs a2] (a2\<lparr>ac_interruptible := False,
        ac_state := BLOCK_STATE_DONE, ac_token_pool := {}, ac_inq := q, ac_outq := oq, ac_world := w'\<rparr>) = Inr a4"
    and b: "b = fold (\<lambda>o'. post (Downstream o' InputCheckMessage)) [0..<ac_num_outputs a4]
        (fold (\<lambda>i. post (Upstream i OutputCheckMessage)) [0..<ac_num_inputs a2] a4)"
    by (rule mark_done_stages)
  have "ac_num_inputs a2 = ac_num_inputs (inactive a)"
    by (rule quiet_num_inputs, rule foldE_quiet [OF f]) (auto elim: flush_output_quiet)
  moreover have "ac_num_inputs a4 = ac_num_inputs a2"
    using clear_inputs_cleared [OF c] by (simp add: cleared_def)
  ultimately show ?thesis
    by (simp add: b fold_post_frame inactive_def post_def now_of_def split: prod.splits)
qed

lemma handle_topology_inputs:
  assumes "handle_topology a = Inr b"
  shows "ac_num_inputs b = ac_num_inputs a"
proof -
  let ?a = "resize_to_topology (ac_num_inputs a) (ac_num_outputs a)
      (post (Notify_Topology (ac_num_inputs a) (ac_num_outputs a)) a)"
  obtain c d e where c: "(if ac_num_inputs a = 0 \<and> ac_num_outputs a = 0 then mark_done ?a else Inr ?a) = Inr c"
    and d: "foldE handle_input_update [0..<ac_num_inputs a] c = Inr d"
    and e: "foldE handle_output_update [0..<ac_num_outputs a] d = Inr e" and b: "b = post Ack e"
    using assms by (auto simp: handle_topology_def Let_def res_simps)
  have "ac_num_inputs ?a = ac_num_inputs a" by (simp add: resize_to_topology_def post_def Let_def case_prod_unfold)
  then have "ac_num_inputs c = ac_num_inputs a"
    using c mark_done_inputs [of ?a c] by (simp split: if_splits)
  moreover have "quiet c d" using d by (rule foldE_quiet) (auto elim!: quiet)
  with e have "quiet c e" by (rule foldE_quiet) (auto elim!: quiet)
  then have "ac_num_inputs e = ac_num_inputs c" by (rule quiet_num_inputs)
  ultimately show ?thesis by (simp add: b post_def)
qed

lemma handle_message_moves:
  assumes "handle_message en m a = Inr b" and "sized a" and "j < ac_num_inputs a" and "j < ac_num_inputs b"
    and "ac_state a \<noteq> BLOCK_STATE_DONE"
  shows "moves j (ac_msgs a ! j @ arrived j m) a b"
proof (cases "calm m")
  case True
  then have "quiet a b" using assms(1) by (rule calm_quiet) simp
  moreover have "arrived j m = []" using True by (cases "(j, m)" rule: arrived.cases) simp_all
  ultimately show ?thesis using quiet_moves [OF _ calm_mv [OF True assms(1)]] by simp
next
  case False
  note len = sized_in(6,15) [OF assms(2,3)]
  have top: "moves j (ac_msgs a ! j) a b"
    if t: "handle_topology (a\<lparr>ac_num_inputs := x, ac_num_outputs := y\<rparr>) = Inr b" for x y
  proof -
    have "ac_num_inputs b = x"
      using handle_topology_inputs [OF t] by simp
    then have "moves j (ac_msgs a ! j) (a\<lparr>ac_num_inputs := x, ac_num_outputs := y\<rparr>) b"
      using handle_topology_moves [OF t] len assms(4) by simp
    then show ?thesis by (rule moves_after [rotated 2]) simp_all
  qed
  have act: "moves j (ac_msgs a ! j) a (handle_top_active a)"
    by (rule moves_same) (auto simp: handle_top_active_def extends_iff post_def now_of_def Let_def split: prod.splits)
  have tok: "moves j (ac_msgs a ! j) a b" if "handle_top_token t a = Inr b" for t
  proof -
    from that obtain c where c: "quiet a c" "b = post Ack (c\<lparr>ac_token_pool := insert t (ac_token_pool c)\<rparr>)"
      by (rule handle_top_token_quiet)
    then have "extends a b" using quiet_extends [OF c(1)] by (auto simp: extends_iff post_def)
    with handle_top_token_mv [OF that] show ?thesis by (auto dest: mv_eqD intro!: moves_same)
  qed
  have inert: "moves j (ac_msgs a ! j) a b" if h: "handle_top_inert n a = Inr b" for n
  proof -
    obtain c where c: "mark_done a = Inr c" "b = (if n then c else post Ack c)"
      using h by (cases "mark_done a") (auto simp: handle_top_inert_def)
    have "quiet c b" "mv b = mv c" using c(2) by simp_all
    then show ?thesis using moves_trans [OF mark_done_moves [OF c(1)] quiet_moves] by blast
  qed
  have pool: "moves j (ac_msgs a ! j) a (a\<lparr>ac_token_pool := p\<rparr>)" for p
    by (rule moves_same) (simp_all add: extends_iff)
  from False assms(1,3,5) show ?thesis
    by (cases "(en, m, a)" rule: handle_message.cases)
      (auto simp: handle_self_kick_def handle_input_token_def handle_output_token_def res_simps
        intro: top tok inert handle_input_buffer_moves handle_output_buffer_moves handle_input_check_moves
          handle_output_check_moves task_main_moves act pool dest: handle_input_msg_moves)
qed

text \<open>Every handler adds to the events, and a block is done only after \<open>notify_inactive\<close>.\<close>

lemma handle_message_extends:
  assumes "handle_message en m a = Inr b"
  shows "extends a b"
proof (cases "m = TopActive")
  case True
  with assms show ?thesis
    by (auto simp: handle_top_active_def extends_iff post_def now_of_def Let_def split: prod.splits)
next
  case False
  have "\<exists>tok. m \<noteq> TopToken tok \<and> \<not> carries tok m"
    by (cases "(0 :: token, m)" rule: carries.cases) (auto, (metis n_not_Suc_n)+)
  then obtain tok where "m \<noteq> TopToken tok" "\<not> carries tok m" by blast
  from message_keeps [OF assms False this keeps_refl] show ?thesis by (rule keeps_extends)
qed

lemma life_run_done: "life_run s es = Some BLOCK_STATE_DONE \<Longrightarrow> s = BLOCK_STATE_DONE \<or> Notify_Inactive \<in> set es"
proof (induction es arbitrary: s)
  case (Cons e es)
  then obtain t where t: "life_step s e = Some t" "life_run t es = Some BLOCK_STATE_DONE" by (auto split: option.splits)
  from t(1) have "t = BLOCK_STATE_DONE \<Longrightarrow> s = BLOCK_STATE_DONE \<or> e = Notify_Inactive"
    by (cases "(s, e)" rule: life_step.cases) (auto split: if_splits)
  with Cons.IH [OF t(2)] show ?case by auto
qed simp

lemma legal_not_done:
  assumes "legal a" and "legal b" and "extends a b" and "ac_state a \<noteq> BLOCK_STATE_DONE"
    and "Notify_Inactive \<notin> set (since a b)"
  shows "ac_state b \<noteq> BLOCK_STATE_DONE"
proof -
  have "life_run (ac_state a) (since a b) = Some (ac_state b)"
    using assms(1-3) by (simp add: legal_def extends_def life_run_append)
  then show ?thesis using life_run_done assms(4,5) by metis
qed

section \<open>The link\<close>

text \<open>Output \<open>i\<close> of one block is connected to input \<open>j\<close> of another. The mailbox of the second holds what
  the first posts (marked \<open>True\<close>) and what anyone else sends, the block itself included; \<open>lk_sent\<close> is all
  that was ever put into it. The mailbox is a queue, as that of a Theron actor.\<close>

record link =
  lk_from :: actor
  lk_to :: actor
  lk_mail :: "(bool \<times> message) list"
  lk_sent :: "(bool \<times> message) list"

definition posts :: "nat \<Rightarrow> nat \<Rightarrow> event list \<Rightarrow> message list" where
  "posts i j es = concat (map (\<lambda>e. case e of Downstream k m \<Rightarrow> if k = i then [To_Input j m] else [] | _ \<Rightarrow> []) es)"

definition msgs_to :: "nat \<Rightarrow> (bool \<times> message) list \<Rightarrow> pmc list" where
  "msgs_to j ms = concat (map (arrived j \<circ> snd) ms)"

text \<open>The posts of a handler may be mixed with those of other threads.\<close>

inductive link_step :: "nat \<Rightarrow> nat \<Rightarrow> link \<Rightarrow> link \<Rightarrow> bool" for i j where
  from_block: "handle_message en m (lk_from s) = Inr a \<Longrightarrow>
    zs \<in> shuffles (map (Pair True) (posts i j (since (lk_from s) a))) (map (Pair False) others) \<Longrightarrow>
    link_step i j s (s\<lparr>lk_from := a, lk_mail := lk_mail s @ zs, lk_sent := lk_sent s @ zs\<rparr>)"
| from_other: "link_step i j s (s\<lparr>lk_mail := lk_mail s @ [(False, m)], lk_sent := lk_sent s @ [(False, m)]\<rparr>)"
| to_block: "lk_mail s = (x, m) # ms \<Longrightarrow> handle_message en m (lk_to s) = Inr b \<Longrightarrow> j < ac_num_inputs b \<Longrightarrow>
    link_step i j s (s\<lparr>lk_to := b, lk_mail := ms\<rparr>)"

inductive link_reach :: "nat \<Rightarrow> nat \<Rightarrow> actor \<Rightarrow> actor \<Rightarrow> link \<Rightarrow> bool" for i j a b where
  start: "link_reach i j a b \<lparr>lk_from = a, lk_to = b, lk_mail = [], lk_sent = []\<rparr>"
| step: "link_reach i j a b s \<Longrightarrow> link_step i j s s' \<Longrightarrow> link_reach i j a b s'"

definition delivers :: "nat \<Rightarrow> actor \<Rightarrow> link \<Rightarrow> bool" where
  "delivers j b s \<longleftrightarrow> (\<exists>taken. msgs_to j (lk_sent s) = taken @ ac_msgs (lk_to s) ! j @ msgs_to j (lk_mail s)
     \<and> st_msgs_consumed (lk_to s) ! j mod size_mod = (st_msgs_consumed b ! j + length taken) mod size_mod)"

definition link_inv :: "nat \<Rightarrow> nat \<Rightarrow> actor \<Rightarrow> actor \<Rightarrow> link \<Rightarrow> bool" where
  "link_inv i j a b s \<longleftrightarrow> extends a (lk_from s) \<and> extends b (lk_to s) \<and> legal (lk_to s) \<and> j < ac_num_inputs (lk_to s)
     \<and> filter fst (lk_sent s) = map (Pair True) (posts i j (since a (lk_from s)))
     \<and> (Notify_Inactive \<in> set (since b (lk_to s)) \<or> delivers j b s)"

lemma msgs_to_append [simp]: "msgs_to j (xs @ ys) = msgs_to j xs @ msgs_to j ys"
  by (simp add: msgs_to_def)

lemma posts_append: "posts i j (es @ fs) = posts i j es @ posts i j fs"
  by (simp add: posts_def)

lemma filter_shuffled:
  assumes "zs \<in> shuffles (map (Pair True) xs) (map (Pair False) ys)"
  shows "filter fst zs = map (Pair True) xs"
proof -
  have "filter fst zs \<in> filter fst ` shuffles (map (Pair True) xs) (map (Pair False) ys)" using assms by (rule imageI)
  then have "filter fst zs \<in> shuffles (filter fst (map (Pair True) xs)) (filter fst (map (Pair False) ys))"
    by (simp only: filter_shuffles)
  then show ?thesis by (simp add: filter_map comp_def)
qed

lemma delivers_put: "delivers j b s \<Longrightarrow> delivers j b (s\<lparr>lk_from := a, lk_mail := lk_mail s @ zs, lk_sent := lk_sent s @ zs\<rparr>)"
  by (auto simp: delivers_def)

lemma delivers_take:
  assumes "delivers j b s" and "lk_mail s = (x, m) # ms"
    and "takes j k (ac_msgs (lk_to s) ! j @ arrived j m) (lk_to s) c"
  shows "delivers j b (s\<lparr>lk_to := c, lk_mail := ms\<rparr>)"
proof -
  let ?q = "ac_msgs (lk_to s) ! j @ arrived j m"
  from assms(1) obtain taken where t: "msgs_to j (lk_sent s) = taken @ ac_msgs (lk_to s) ! j @ msgs_to j (lk_mail s)"
      "st_msgs_consumed (lk_to s) ! j mod size_mod = (st_msgs_consumed b ! j + length taken) mod size_mod"
    by (auto simp: delivers_def)
  have "msgs_to j (lk_mail s) = arrived j m @ msgs_to j ms" by (simp add: assms(2) msgs_to_def)
  with t(1) have "msgs_to j (lk_sent s) = taken @ ?q @ msgs_to j ms" by simp
  then have "msgs_to j (lk_sent s) = (taken @ take k ?q) @ drop k ?q @ msgs_to j ms"
    by (metis append.assoc append_take_drop_id)
  moreover have "st_msgs_consumed c ! j mod size_mod = (st_msgs_consumed (lk_to s) ! j mod size_mod + k) mod size_mod"
    using assms(3) by (simp only: takes_def mod_add_left_eq)
  moreover have "length (take k ?q) = k"
    using assms(3) by (simp only: length_take takes_def min_absorb2)
  ultimately have "msgs_to j (lk_sent s) = (taken @ take k ?q) @ drop k ?q @ msgs_to j ms"
    "st_msgs_consumed c ! j mod size_mod = (st_msgs_consumed b ! j + length (taken @ take k ?q)) mod size_mod"
    unfolding t(2) mod_add_left_eq by (simp_all only: length_append add.assoc)
  note r = this
  have d: "ac_msgs c ! j = drop k ?q" using assms(3) by (simp only: takes_def)
  have sel: "lk_to (s\<lparr>lk_to := c, lk_mail := ms\<rparr>) = c" "lk_mail (s\<lparr>lk_to := c, lk_mail := ms\<rparr>) = ms"
    "lk_sent (s\<lparr>lk_to := c, lk_mail := ms\<rparr>) = lk_sent s" by simp_all
  show ?thesis unfolding delivers_def sel d by (intro exI [of _ "taken @ take k ?q"] conjI r)
qed

lemma link_step_inv:
  assumes "link_step i j s s'" and "link_inv i j a b s" and "legal b" and "ac_state b \<noteq> BLOCK_STATE_DONE"
  shows "link_inv i j a b s'"
  using assms(1)
proof cases
  case (from_block en m a' zs others)
  have e: "extends a (lk_from s)" "extends (lk_from s) a'"
    using assms(2) handle_message_extends [OF from_block(2)] by (simp_all add: link_inv_def)
  show ?thesis
    using assms(2) filter_shuffled [OF from_block(3)] extends_trans [OF e] since_trans [OF e] delivers_put
    by (auto simp: link_inv_def from_block(1) posts_append)
next
  case (from_other m)
  have "delivers j b s'" if "delivers j b s"
    using delivers_put [OF that, where a = "lk_from s" and zs = "[(False, m)]"] by (simp add: from_other)
  then show ?thesis using assms(2) by (auto simp: link_inv_def from_other)
next
  case (to_block x m ms en c)
  have e: "extends b (lk_to s)" "extends (lk_to s) c" and l: "legal (lk_to s)" "legal c"
    using assms(2) handle_message_extends [OF to_block(3)] handle_message_legal [OF to_block(3)]
    by (simp_all add: link_inv_def)
  have "delivers j b s'" if n: "Notify_Inactive \<notin> set (since b c)"
  proof -
    have n2: "Notify_Inactive \<notin> set (since b (lk_to s))" "Notify_Inactive \<notin> set (since (lk_to s) c)"
      using n since_trans [OF e] by simp_all
    have "ac_state (lk_to s) \<noteq> BLOCK_STATE_DONE" using legal_not_done [OF assms(3) l(1) e(1) assms(4) n2(1)] .
    then have "moves j (ac_msgs (lk_to s) ! j @ arrived j m) (lk_to s) c"
      using assms(2) l(1) to_block(4) by (intro handle_message_moves [OF to_block(3)]) (simp_all add: link_inv_def legal_def)
    then obtain k where "takes j k (ac_msgs (lk_to s) ! j @ arrived j m) (lk_to s) c"
      using n2(2) by (auto simp: moves_def)
    moreover have "delivers j b s" using assms(2) n2(1) by (simp add: link_inv_def)
    ultimately show ?thesis using to_block(1,2) delivers_take by metis
  qed
  then show ?thesis
    using assms(2) extends_trans [OF e] l(2) to_block(4) by (auto simp: link_inv_def to_block(1))
qed

section \<open>Properties\<close>


text \<open>A block with one input, before it is activated.\<close>

definition sample_sink :: actor where
  "sample_sink = resize_to_topology 1 0 ((new_actor [] 0 1 sample_world)\<lparr>ac_num_inputs := 1\<rparr>)"

lemma sample_sink_legal: "legal sample_sink" "ac_state sample_sink = BLOCK_STATE_INIT" "ac_num_inputs sample_sink = 1"
    "ac_msgs sample_sink = [[]]" "ac_events sample_sink = []"
proof -
  show "ac_state sample_sink = BLOCK_STATE_INIT" "ac_num_inputs sample_sink = 1" "ac_msgs sample_sink = [[]]"
    "ac_events sample_sink = []"
    by (simp_all add: sample_sink_def resize_to_topology_def new_actor_def Let_def case_prod_unfold resize_def)
  moreover have "sized sample_sink"
    unfolding sample_sink_def by (rule resize_to_topology_sized) (simp_all add: new_actor_def)
  ultimately show "legal sample_sink" by (simp add: legal_def)
qed

lemma sample_sink_takes:
  "\<exists>c. handle_message sample_env (To_Input 0 (InputMsgMessage 5)) sample_sink = Inr c \<and> ac_events c = []
     \<and> ac_num_inputs c = 1"
proof -
  let ?a = "sample_sink\<lparr>ac_msgs := [[5]]\<rparr>"
  have "\<exists>c. update_input_avail 0 ?a = Inr c"
    by (simp add: update_input_avail_def in_port_def in_op_def on_port_def at_def sample_sink_def resize_to_topology_def
        new_actor_def iq_resize_def oq_resize_def resize_def Let_def case_prod_unfold iq_update_has_msg_def iq_update_def
        time_now_def sample_world_def)
  then obtain c where c: "update_input_avail 0 ?a = Inr c" by blast
  have q: "quiet ?a c" using c by (rule update_input_avail_quiet) simp
  have "ac_events c = []" using c
    by (auto simp: update_input_avail_def in_op_def res_simps Let_def sample_sink_legal)
  moreover have "task_main sample_env c = Inr c"
    using q by (simp add: task_main_def work_allowed_def quiet_def sample_sink_legal)
  ultimately show ?thesis
    using c quiet_num_inputs [OF q] by (simp add: handle_input_msg_def at_def sample_sink_legal)
qed


end
