(* ===== verification/Work_Items.thy ===== *)
theory Work_Items
  imports Work_Props
begin

text \<open>
  lib/task_main.cpp before the work, gras/work_buffer.hpp: the items that a work function is given. The
  arrays \<open>input_items\<close> and \<open>output_items\<close> are the fields \<open>ac_in_items\<close>, \<open>ac_in_min\<close> and \<open>ac_in_max\<close> of the
  actor, and those of the outputs; an element is the pointer and the number of items of a WorkBuffer.
\<close>

section \<open>The arrays\<close>

record work_buffer =
  wb_mem :: nat
  wb_len :: nat

record work_array =
  wa_buffs :: "work_buffer list"
  wa_min :: nat
  wa_max :: nat
  wa_vec :: "nat list"

definition wa_resize :: "nat \<Rightarrow> work_array \<Rightarrow> work_array" where
  "wa_resize n wa = wa\<lparr>wa_vec := resize n 0 (wa_vec wa), wa_buffs := resize n \<lparr>wb_mem = 0, wb_len = 0\<rparr> (wa_buffs wa)\<rparr>"

definition wa_start :: "work_array \<Rightarrow> work_array" where
  "wa_start wa = wa\<lparr>wa_min := size_max, wa_max := 0\<rparr>"

definition wa_offer :: "nat \<Rightarrow> nat \<Rightarrow> nat \<Rightarrow> work_array \<Rightarrow> work_array" where
  "wa_offer i mem items wa = wa\<lparr>wa_vec := (wa_vec wa)[i := mem], wa_buffs := (wa_buffs wa)[i := \<lparr>wb_mem = mem, wb_len = items\<rparr>],
     wa_min := min (wa_min wa) items, wa_max := max (wa_max wa) items\<rparr>"

text \<open>The array that the fields of the actor stand for; the pointers alone are its \<open>vec\<close>.\<close>

definition array_of :: "(nat \<times> nat) list \<Rightarrow> nat \<Rightarrow> nat \<Rightarrow> work_array" where
  "array_of v lo hi = \<lparr>wa_buffs = map (\<lambda>(m, n). \<lparr>wb_mem = m, wb_len = n\<rparr>) v, wa_min = lo, wa_max = hi, wa_vec = map fst v\<rparr>"

lemma array_of_offer: "wa_offer i m n (array_of v lo hi) = array_of (v[i := (m, n)]) (min lo n) (max hi n)"
  by (simp add: wa_offer_def array_of_def map_update)

lemma array_of_resize: "wa_resize k (array_of v lo hi) = array_of (resize k (0, 0) v) lo hi"
  by (simp add: wa_resize_def array_of_def resize_def take_map)

section \<open>What is offered\<close>

definition front_buff :: "iport \<Rightarrow> sbuffer" where
  "front_buff p = (if ip_queue p = [] then null_buff else hd (ip_queue p))"

definition offers_input :: "iport \<Rightarrow> input_config \<Rightarrow> nat \<times> nat \<Rightarrow> bool" where
  "offers_input p cfg v \<longleftrightarrow>
     v = (sb_get (front_buff p) 0, sb_length (front_buff p) div ic_item_size cfg)
     \<and> (ip_queue p \<noteq> [] \<longrightarrow> ip_reserve p \<le> sb_length (front_buff p))"

definition offers_output :: "oport \<Rightarrow> output_config \<Rightarrow> nat \<times> nat \<Rightarrow> bool" where
  "offers_output p cfg v \<longleftrightarrow> (\<exists>b. oq_front p = Inr (b, p) \<and> sb_length b = 0
     \<and> v = (sb_get b 0, sz_sub (sb_actual b) (sb_offset b) div oc_item_size cfg))"

section \<open>One turn of the loops\<close>

lemma accumulate_nonempty:
  assumes "iq_accumulate p w = Inr (p', w')" and "0 < ip_cap p" and "ip_queue p \<noteq> []"
  shows "ip_queue p' \<noteq> []"
proof -
  have cap: "acc_loop x y a n = (p1, w1, a1) \<Longrightarrow> ip_cap p1 = ip_cap x" for x y a n p1 w1 a1
    using acc_loop_frame [of x y a n] by simp
  show ?thesis
    using assms
    by (auto simp: iq_accumulate_def res_simps Let_def cb_push_front_def split: if_splits option.splits prod.splits
        dest!: cap)
qed

lemma iq_front_gives:
  assumes "iq_front p w = Inr (b, p', w')" and "0 < ip_cap p"
  shows "b = front_buff p' \<and> (ip_queue p' \<noteq> [] \<longrightarrow> ip_reserve p' \<le> sb_length b)"
proof (cases "ip_queue p = []")
  case True
  with assms(1) show ?thesis by (auto simp: iq_front_def res_simps front_buff_def)
next
  case False
  then obtain x y where xy: "(if sb_length (hd (ip_queue p)) < ip_reserve p then iq_accumulate p w else Inr (p, w)) = Inr (x, y)"
    "b = hd (ip_queue x)" "p' = x" "ip_reserve x \<le> sb_length b"
    using assms(1) by (auto simp: iq_front_def res_simps Let_def split: if_splits)
  have "ip_queue x \<noteq> []"
    using xy(1) False accumulate_nonempty [OF _ assms(2) False, of w x y] by (auto split: if_splits)
  with xy show ?thesis by (simp add: front_buff_def)
qed

lemma bq_front_again: "bq_front q = Inr (b, q') \<Longrightarrow> bq_front q' = Inr (b, q') \<and> bq_empty q' = bq_empty q"
  by (cases q) (auto simp: pool_front_def circ_front_def circ_empty_def pool_empty_def res_simps Let_def sb_nonnull_def sb_get_def)

lemma oq_front_again: "oq_front p = Inr (b, p') \<Longrightarrow> oq_front p' = Inr (b, p')"
  by (auto simp: oq_front_def oq_empty_def res_simps dest: bq_front_again split: option.splits)

lemma sort_tags_items:
  assumes "sort_tags en k a = Inr b"
  shows "\<exists>ts. b = a\<lparr>ac_tags := ts, ac_tags_changed := (ac_tags_changed a)[k := False]\<rparr>"
proof (cases "ac_tags_changed a ! k")
  case True
  with assms show ?thesis by (auto simp: sort_tags_def res_simps)
next
  case False
  then have "(ac_tags_changed a)[k := False] = ac_tags_changed a" by (metis (full_types) list_update_id)
  with False assms show ?thesis by (auto simp: sort_tags_def res_simps intro!: exI [of _ "ac_tags a"])
qed

text \<open>One turn over the inputs changes the elements of its own port.\<close>

definition prepared :: "nat \<Rightarrow> actor \<Rightarrow> actor \<Rightarrow> bool" where
  "prepared k a b \<longleftrightarrow> (\<exists>p v.
     iq_ports (ac_inq b) = (iq_ports (ac_inq a))[k := p] \<and> ac_in_items b = (ac_in_items a)[k := v]
     \<and> (0 < ip_cap (iq_ports (ac_inq a) ! k) \<longrightarrow> offers_input p (ac_in_cfg a ! k) v)
     \<and> ac_in_min b = min (ac_in_min a) (snd v) \<and> ac_in_max b = max (ac_in_max a) (snd v)
     \<and> ac_items_read b = (ac_items_read a)[k := 0] \<and> ac_msgs_read b = (ac_msgs_read a)[k := 0]
     \<and> ac_tags_changed b = (ac_tags_changed a)[k := False]
     \<and> ac_in_cfg b = ac_in_cfg a \<and> ac_out_cfg b = ac_out_cfg a)"

lemma prep_input_prepared:
  assumes "prep_input en k (a, m) = Inr (b, m')"
  shows "prepared k a b"
proof -
  obtain s where s: "sort_tags en k a = Inr s" using assms by (auto simp: prep_input_def res_simps)
  then obtain ts where ts: "s = a\<lparr>ac_tags := ts, ac_tags_changed := (ac_tags_changed a)[k := False]\<rparr>"
    using sort_tags_items by blast
  let ?p = "iq_ports (ac_inq a) ! k"
  obtain f p w where f: "iq_front ?p (ac_world a) = Inr (f, p, w)" "k < length (iq_ports (ac_inq a))"
    and b: "iq_ports (ac_inq b) = (iq_ports (ac_inq a))[k := p]"
      "ac_in_items b = (ac_in_items a)[k := (sb_get f 0, sb_length f div ic_item_size (ac_in_cfg a ! k))]"
      "ac_in_min b = min (ac_in_min a) (sb_length f div ic_item_size (ac_in_cfg a ! k))"
      "ac_in_max b = max (ac_in_max a) (sb_length f div ic_item_size (ac_in_cfg a ! k))"
      "ac_items_read b = (ac_items_read a)[k := 0]" "ac_msgs_read b = (ac_msgs_read a)[k := 0]"
      "ac_tags_changed b = (ac_tags_changed a)[k := False]" "ac_in_cfg b = ac_in_cfg a" "ac_out_cfg b = ac_out_cfg a"
    using assms s unfolding ts prep_input_def
    by (auto simp: res_simps in_front_def set_oport_def Let_def split: if_splits)
  from b iq_front_gives [OF f(1)] show ?thesis
    unfolding prepared_def offers_input_def
    by (intro exI [of _ p] exI [of _ "(sb_get f 0, sb_length f div ic_item_size (ac_in_cfg a ! k))"]) auto
qed

definition input_array :: "actor \<Rightarrow> work_array" where
  "input_array a = array_of (ac_in_items a) (ac_in_min a) (ac_in_max a)"

lemma prepared_array: "prepared k a b \<Longrightarrow> \<exists>m n. input_array b = wa_offer k m n (input_array a)"
  unfolding prepared_def input_array_def array_of_offer by (elim exE conjE, simp) (metis prod.collapse)

definition prepared_out :: "nat \<Rightarrow> actor \<Rightarrow> actor \<Rightarrow> bool" where
  "prepared_out k a b \<longleftrightarrow> (\<exists>p v.
     oq_ports (ac_outq b) = (oq_ports (ac_outq a))[k := p] \<and> ac_out_items b = (ac_out_items a)[k := v]
     \<and> offers_output p (ac_out_cfg a ! k) v
     \<and> ac_out_min b = min (ac_out_min a) (snd v) \<and> ac_out_max b = max (ac_out_max a) (snd v)
     \<and> ac_out_read b = (ac_out_read a)[k := 0])"

text \<open>What the inputs were given, which the loop over the outputs leaves alone.\<close>

definition given :: "actor \<Rightarrow> input_queues \<times> (nat \<times> nat) list \<times> nat \<times> nat \<times> nat list \<times> nat list \<times> bool list \<times> input_config list \<times> output_config list" where
  "given a = (ac_inq a, ac_in_items a, ac_in_min a, ac_in_max a, ac_items_read a, ac_msgs_read a,
     ac_tags_changed a, ac_in_cfg a, ac_out_cfg a)"

lemma prep_output_prepared:
  assumes "prep_output k a = Inr b"
  shows "prepared_out k a b \<and> given b = given a"
proof -
  let ?p = "oq_ports (ac_outq a) ! k" and ?n = "oc_item_size (ac_out_cfg a ! k)"
  obtain f p where f: "oq_front ?p = Inr (f, p)" "sb_length f = 0"
    and b: "oq_ports (ac_outq b) = (oq_ports (ac_outq a))[k := p]"
      "ac_out_items b = (ac_out_items a)[k := (sb_get f 0, sz_sub (sb_actual f) (sb_offset f) div ?n)]"
      "ac_out_min b = min (ac_out_min a) (sz_sub (sb_actual f) (sb_offset f) div ?n)"
      "ac_out_max b = max (ac_out_max a) (sz_sub (sb_actual f) (sb_offset f) div ?n)"
      "ac_out_read b = (ac_out_read a)[k := 0]" "given b = given a"
    using assms by (auto simp: prep_output_def out_front_def set_oport_def given_def res_simps Let_def split: if_splits)
  from b f(2) oq_front_again [OF f(1)] show ?thesis
    unfolding prepared_out_def offers_output_def
    by (intro conjI exI [of _ p] exI [of _ "(sb_get f 0, sz_sub (sb_actual f) (sb_offset f) div ?n)"]) auto
qed

section \<open>The loops\<close>

lemma foldE_upto:
  assumes "foldE f [0..<n] s = Inr s'" and "P 0 s"
    and "\<And>k s s'. k < n \<Longrightarrow> P k s \<Longrightarrow> f k s = Inr s' \<Longrightarrow> P (Suc k) s'"
  shows "P n s'"
  using assms
proof (induction n arbitrary: s')
  case (Suc n)
  from Suc.prems(1) obtain t where "foldE f [0..<n] s = Inr t" "f n t = Inr s'"
    by (auto simp: foldE_append res_simps)
  with Suc.IH [of t] Suc.prems(2,3) show ?case by simp
qed simp

lemma set_take_update: "k < length xs \<Longrightarrow> set (take (Suc k) (xs[k := v])) = insert v (set (take k xs))"
  by (simp add: take_Suc_conv_app_nth)

lemma Min_grows: "finite A \<Longrightarrow> Min (insert m (insert x A)) = min (Min (insert m A)) (x :: nat)"
  by (subst insert_commute) (simp add: min.commute)

lemma Max_grows: "finite A \<Longrightarrow> Max (insert m (insert x A)) = max (Max (insert m A)) (x :: nat)"
  by (subst insert_commute) (simp add: max.commute)

lemma below_Suc: "(\<And>i. i < k \<Longrightarrow> P i) \<Longrightarrow> P k \<Longrightarrow> \<forall>i<Suc k. P i"
  by (simp add: less_Suc_eq)

definition inputs_ready :: "nat \<Rightarrow> actor \<Rightarrow> bool" where
  "inputs_ready k s \<longleftrightarrow>
     (\<forall>i<k. offers_input (iq_ports (ac_inq s) ! i) (ac_in_cfg s ! i) (ac_in_items s ! i)
        \<and> ac_items_read s ! i = 0 \<and> ac_msgs_read s ! i = 0 \<and> \<not> ac_tags_changed s ! i)
     \<and> ac_in_min s = Min (insert size_max (snd ` set (take k (ac_in_items s))))
     \<and> ac_in_max s = Max (insert 0 (snd ` set (take k (ac_in_items s))))"

definition outputs_ready :: "nat \<Rightarrow> actor \<Rightarrow> bool" where
  "outputs_ready k s \<longleftrightarrow>
     (\<forall>i<k. offers_output (oq_ports (ac_outq s) ! i) (ac_out_cfg s ! i) (ac_out_items s ! i) \<and> ac_out_read s ! i = 0)
     \<and> ac_out_min s = Min (insert size_max (snd ` set (take k (ac_out_items s))))
     \<and> ac_out_max s = Max (insert 0 (snd ` set (take k (ac_out_items s))))"

lemma inputs_ready_step:
  assumes "inputs_ready k a" and "prepared k a b" and "sized a" and "k < ac_num_inputs a"
    and "0 < ip_cap (iq_ports (ac_inq a) ! k)"
  shows "inputs_ready (Suc k) b"
proof -
  have l: "k < length (iq_ports (ac_inq a))" "k < length (ac_in_items a)" "k < length (ac_items_read a)"
    "k < length (ac_msgs_read a)" "k < length (ac_tags_changed a)"
    using assms(3,4) by (auto simp: sized_def Let_def)
  obtain p v where e: "iq_ports (ac_inq b) = (iq_ports (ac_inq a))[k := p]" "ac_in_items b = (ac_in_items a)[k := v]"
    "offers_input p (ac_in_cfg a ! k) v" "ac_in_min b = min (ac_in_min a) (snd v)"
    "ac_in_max b = max (ac_in_max a) (snd v)" "ac_items_read b = (ac_items_read a)[k := 0]"
    "ac_msgs_read b = (ac_msgs_read a)[k := 0]" "ac_tags_changed b = (ac_tags_changed a)[k := False]"
    "ac_in_cfg b = ac_in_cfg a"
    using assms(2,5) unfolding prepared_def by blast
  show ?thesis unfolding inputs_ready_def
  proof (intro conjI below_Suc)
    show "ac_in_min b = Min (insert size_max (snd ` set (take (Suc k) (ac_in_items b))))"
      and "ac_in_max b = Max (insert 0 (snd ` set (take (Suc k) (ac_in_items b))))"
      using assms(1) l(2) by (simp_all only: e inputs_ready_def set_take_update image_insert Min_grows Max_grows finite_imageI finite_set)
  qed (use assms(1) in \<open>simp_all add: e l inputs_ready_def\<close>)
qed

lemma outputs_ready_step:
  assumes "outputs_ready k a" and "prepared_out k a b" and "ac_out_cfg b = ac_out_cfg a" and "sized a"
    and "k < ac_num_outputs a"
  shows "outputs_ready (Suc k) b"
proof -
  have l: "k < length (oq_ports (ac_outq a))" "k < length (ac_out_items a)" "k < length (ac_out_read a)"
    using assms(4,5) by (auto simp: sized_def Let_def)
  obtain p v where e: "oq_ports (ac_outq b) = (oq_ports (ac_outq a))[k := p]" "ac_out_items b = (ac_out_items a)[k := v]"
    "offers_output p (ac_out_cfg a ! k) v" "ac_out_min b = min (ac_out_min a) (snd v)"
    "ac_out_max b = max (ac_out_max a) (snd v)" "ac_out_read b = (ac_out_read a)[k := 0]"
    using assms(2) unfolding prepared_out_def by blast
  show ?thesis unfolding outputs_ready_def
  proof (intro conjI below_Suc)
    show "ac_out_min b = Min (insert size_max (snd ` set (take (Suc k) (ac_out_items b))))"
      and "ac_out_max b = Max (insert 0 (snd ` set (take (Suc k) (ac_out_items b))))"
      using assms(1) l(2) by (simp_all only: e outputs_ready_def set_take_update image_insert Min_grows Max_grows finite_imageI finite_set)
  qed (use assms(1) in \<open>simp_all add: e assms(3) l outputs_ready_def\<close>)
qed


lemma prep_inputs_ready:
  assumes "foldE (prep_input en) [0..<ac_num_inputs a] (a\<lparr>ac_in_min := size_max, ac_in_max := 0\<rparr>, 0) = Inr (b, n)"
    and "sized a" and "\<forall>i<ac_num_inputs a. 0 < ip_cap (iq_ports (ac_inq a) ! i)"
  shows "inputs_ready (ac_num_inputs a) b \<and> quiet a b \<and> ac_in_cfg b = ac_in_cfg a \<and> ac_out_cfg b = ac_out_cfg a"
proof -
  let ?P = "\<lambda>k (s, m :: nat). inputs_ready k s \<and> quiet a s \<and> ac_in_cfg s = ac_in_cfg a \<and> ac_out_cfg s = ac_out_cfg a
    \<and> (\<forall>i\<ge>k. iq_ports (ac_inq s) ! i = iq_ports (ac_inq a) ! i)"
  have "?P (ac_num_inputs a) (b, n)"
  proof (rule foldE_upto [OF assms(1), where P = ?P])
    show "?P 0 (a\<lparr>ac_in_min := size_max, ac_in_max := 0\<rparr>, 0)" by (simp add: inputs_ready_def)
    fix k s t assume k: "k < ac_num_inputs a" and "?P k s" and t: "prep_input en k s = Inr t"
    then obtain s1 m t1 m1 where s: "s = (s1, m)" "t = (t1, m1)" "inputs_ready k s1" "quiet a s1"
      "ac_in_cfg s1 = ac_in_cfg a" "ac_out_cfg s1 = ac_out_cfg a" "\<forall>i\<ge>k. iq_ports (ac_inq s1) ! i = iq_ports (ac_inq a) ! i"
      by (cases s; cases t) simp
    have p: "prepared k s1 t1" using t s(1,2) prep_input_prepared by blast
    have "sized s1" "k < ac_num_inputs s1" using quiet_sized [OF s(4) assms(2)] k by auto
    then have "inputs_ready (Suc k) t1" using inputs_ready_step [OF s(3) p] s(7) assms(3) k by simp
    moreover have "quiet a t1" using t s(1,2,4) by (auto elim!: prep_input_quiet)
    ultimately show "?P (Suc k) t" using p s by (auto simp: prepared_def)
  qed
  then show ?thesis by simp
qed

lemma prep_outputs_ready:
  assumes "foldE prep_output [0..<ac_num_outputs a] (a\<lparr>ac_out_min := size_max, ac_out_max := 0\<rparr>) = Inr b" and "sized a"
  shows "outputs_ready (ac_num_outputs a) b \<and> quiet a b \<and> given b = given a"
proof -
  let ?P = "\<lambda>k s. outputs_ready k s \<and> quiet a s \<and> given s = given a"
  show ?thesis
  proof (rule foldE_upto [OF assms(1), where P = ?P])
    show "?P 0 (a\<lparr>ac_out_min := size_max, ac_out_max := 0\<rparr>)" by (simp add: outputs_ready_def given_def)
    fix k s t assume k: "k < ac_num_outputs a" and s: "?P k s" and t: "prep_output k s = Inr t"
    have z: "sized s" "k < ac_num_outputs s" using quiet_sized [of a s] s assms(2) k by auto
    have p: "prepared_out k s t" "given t = given s" using prep_output_prepared [OF t] by simp_all
    then have "outputs_ready (Suc k) t"
      using outputs_ready_step [of k s t] s z by (simp add: given_def)
    moreover have "quiet a t" using t s by (auto elim!: prep_output_quiet)
    ultimately show "?P (Suc k) t" using p s by simp
  qed
qed

section \<open>Properties\<close>



end
