(* ===== verification/Work_Timers.thy ===== *)
theory Work_Timers
  imports Work_Items Time_Tag
begin

text \<open>
  gras/chrono.hpp and its detail header: the clock in ticks and the scoped timer, and the three timers of
  \<open>task_main\<close>, which Block_Actor leaves out. A time here is the reading of the clock of the \<open>world\<close>.
\<close>

section \<open>The clock and the timer\<close>

record timespec =
  tv_sec :: int
  tv_nsec :: int

definition time_tps :: int where
  "time_tps = 1000000000"

definition ticks_of :: "timespec \<Rightarrow> exn + int" where
  "ticks_of ts = bindE (s64 (tv_sec ts * time_tps)) (\<lambda>x. s64 (x + tv_nsec ts))"

text \<open>A monotonic clock of whole nanoseconds: its ticks are exact and keep the order, for three hundred
  years.\<close>

lemma ticks_of_order:
  assumes "0 \<le> tv_sec s" and "0 \<le> tv_nsec s" and "tv_nsec s < time_tps"
    and "0 \<le> tv_nsec t" and "tv_nsec t < time_tps" and "tv_sec t < 2 ^ 33"
    and "tv_sec s < tv_sec t \<or> tv_sec s = tv_sec t \<and> tv_nsec s \<le> tv_nsec t"
  shows "\<exists>x y. ticks_of s = Inr x \<and> ticks_of t = Inr y \<and> x \<le> y"
  using assms by (auto simp: ticks_of_def time_tps_def s64_def in_s64_def)

record timer =
  tm_start :: int
  tm_done :: bool

definition new_timer :: "actor \<Rightarrow> timer \<times> actor" where
  "new_timer a = (let (t, a) = now_of a in (\<lparr>tm_start = t, tm_done = False\<rparr>, a))"

text \<open>\<open>accum\<close> is a reference: the total goes in and comes out.\<close>

definition timer_done :: "timer \<Rightarrow> int \<Rightarrow> actor \<Rightarrow> timer \<times> int \<times> actor" where
  "timer_done tm accum a =
     (let (t, a) = now_of a in (tm\<lparr>tm_done := True\<rparr>, accum + (t - tm_start tm), a))"

definition delete_timer :: "timer \<Rightarrow> int \<Rightarrow> actor \<Rightarrow> int \<times> actor" where
  "delete_timer tm accum a =
     (if \<not> tm_done tm then let (_, accum, a) = timer_done tm accum a in (accum, a) else (accum, a))"

section \<open>The timers of the main task\<close>

record work_times =
  total_prep :: int
  total_work :: int
  total_post :: int

text \<open>\<open>task_main\<close> when nothing throws, from its end; the destructors run in the reverse order.\<close>

definition timed_post :: "env \<Rightarrow> timer \<Rightarrow> work_times \<Rightarrow> actor \<Rightarrow> exn + work_times \<times> actor" where
  "timed_post en ta_prep tt a =
     (let (t, a) = now_of a;
          (ta_post, a) = new_timer (a\<lparr>st_time_last_work := t\<rparr>)
      in bindE (task_post en a) (\<lambda>a.
        let (post, a) = delete_timer ta_post (total_post tt) a;
            (prep, a) = delete_timer ta_prep (total_prep tt) a
        in Inr (tt\<lparr>total_post := post, total_prep := prep\<rparr>, a)))"

definition timed_work :: "env \<Rightarrow> timer \<Rightarrow> work_times \<Rightarrow> actor \<Rightarrow> exn + work_times \<times> actor" where
  "timed_work en ta_prep tt a =
     (let (ta_work, a) = new_timer (a\<lparr>st_work_count := sz_add (st_work_count a) 1\<rparr>)
      in bindE (task_work en a) (\<lambda>a.
        let (work, a) = delete_timer ta_work (total_work tt) a
        in timed_post en ta_prep (tt\<lparr>total_work := work\<rparr>) a))"

definition timed_task_main :: "env \<Rightarrow> work_times \<Rightarrow> actor \<Rightarrow> exn + work_times \<times> actor" where
  "timed_task_main en tt a =
     (let (ta_prep, a) = new_timer a
      in if \<not> work_allowed en a
         then let (prep, a) = delete_timer ta_prep (total_prep tt) a in Inr (tt\<lparr>total_prep := prep\<rparr>, a)
         else bindE (task_prep en a) (\<lambda>a.
           let (ta_prep, prep, a) = timer_done ta_prep (total_prep tt) a
           in timed_work en ta_prep (tt\<lparr>total_prep := prep\<rparr>) a))"

section \<open>The clock goes on\<close>

named_theorems later

lemma later_refl [simp]: "later w w"
  by (simp add: later_def)

lemma later_trans: "later u v \<Longrightarrow> later v w \<Longrightarrow> later u w"
  by (simp add: later_def)

lemma later_time_now [simp]: "later w (snd (time_now w))" "time_now w = (t, w') \<Longrightarrow> later w w'"
  by (auto simp: later_def time_now_def)

lemma oq_account_later: "oq_account t0 r p w = Inr (p', w') \<Longrightarrow> later w w'"
  by (auto simp: oq_account_def time_now_def Let_def assertE_def later_def split: if_splits)

lemma iq_has_later: "iq_update_has_msg t0 h p w = Inr (p', w') \<Longrightarrow> later w w'"
  by (auto simp: iq_update_has_msg_def iq_update_later split: if_splits)

lemma iq_flush_later: "iq_flush t0 p w = Inr (p', w') \<Longrightarrow> later w w'"
  by (auto simp: iq_flush_def iq_update_later)

lemma iq_consume_later: "iq_consume t0 n p w = Inr (p', w') \<Longrightarrow> later w w'"
  by (auto simp: iq_consume_def res_simps Let_def split: if_splits dest!: iq_update_later)

lemma make_sbuffer_later: "make_sbuffer numa cfg w = (b, w') \<Longrightarrow> later w w'"
  by (auto simp: make_sbuffer_def default_allocator_def heap_allocator_def Let_def later_def split: if_splits)

lemma iq_accumulate_later:
  assumes "iq_accumulate p w = Inr (p', w')"
  shows "later w w'"
proof -
  have l: "acc_loop x y a n = (p1, w1, a1) \<Longrightarrow> later y w1" for x y a n p1 w1 a1
    using acc_loop_frame [of x y a n] by (simp add: later_def)
  have m: "aux_allocate_one tok n v = (b, v') \<Longrightarrow> later v v'" for tok n v b v'
    by (auto simp: aux_allocate_one_def Let_def split: prod.splits dest: make_sbuffer_later)
  show ?thesis
    using assms
    by (auto simp: iq_accumulate_def res_simps Let_def split: if_splits option.splits prod.splits
        dest!: l m intro: later_trans)
qed

lemma iq_front_later: "iq_front p w = Inr (b, p', w') \<Longrightarrow> later w w'"
  by (auto simp: iq_front_def res_simps Let_def split: if_splits dest: iq_accumulate_later)

lemma iq_fail_later: "iq_fail p w = (p', w') \<Longrightarrow> later w w'"
  by (auto simp: iq_fail_def time_now_def Let_def later_def)

lemma oq_update_later: "oq_update t0 p w = Inr (p', w') \<Longrightarrow> later w w'"
  by (auto simp: oq_update_def res_simps dest: oq_account_later)

lemma oq_pop_later: "oq_pop t0 p w = Inr (p', w') \<Longrightarrow> later w w'"
  by (auto simp: oq_pop_def res_simps split: if_splits option.splits dest: oq_update_later)

lemma oq_consume_later: "oq_consume t0 p w = Inr (p', w') \<Longrightarrow> later w w'"
  by (auto simp: oq_consume_def res_simps split: if_splits dest: oq_pop_later)

lemma oq_fail_later: "oq_fail p w = (p', w') \<Longrightarrow> later w w'"
  by (auto simp: oq_fail_def time_now_def Let_def later_def)

lemma oq_flush_all_later: "oq_flush_all q w = (q', w') \<Longrightarrow> later w w'"
  by (auto simp: oq_flush_all_def oq_resize_def time_now_def Let_def later_def)


lemma iq_flush_all_later:
  assumes "iq_flush_all q w = Inr (q', w')"
  shows "later w w'"
proof -
  let ?f = "\<lambda>i (q, w). on_port i (iq_flush (iq_init_time q)) q w"
  from assms obtain n q1 w1 where f: "foldE ?f [0..<n] (q, w) = Inr (q1, w1)" and w: "w' = w1"
    by (auto simp: iq_flush_all_def res_simps)
  have "later w (snd (q1, w1))"
    by (rule foldE_invariant [where P = "\<lambda>s. later w (snd s)", OF _ _ f])
      (auto simp: on_port_def res_simps split: if_splits dest!: iq_flush_later intro: later_trans)
  with w show ?thesis by simp
qed

text \<open>The same for the operations of the actor: \<open>w\<close> is any earlier state of the clock.\<close>

lemma world_of [simp]: "ac_world (post e a) = ac_world a" "ac_world (set_oport i p a) = ac_world a"
    "ac_world (task_kicker en a) = ac_world a"
  by (simp_all add: post_def set_oport_def task_kicker_def)

lemma now_later [later]: "now_of a = (t, b) \<Longrightarrow> later w (ac_world a) \<Longrightarrow> later w (ac_world b)"
  by (auto simp: now_of_def time_now_def later_def)

lemma foldE_later:
  assumes "foldE f is a = Inr b" and "later w (ac_world a)"
    and "\<And>i a b. f i a = Inr b \<Longrightarrow> later w (ac_world a) \<Longrightarrow> later w (ac_world b)"
  shows "later w (ac_world b)"
  by (rule foldE_invariant [where P = "\<lambda>a. later w (ac_world a)", OF _ assms(2,1)]) (rule assms(3))

lemma in_op_later:
  assumes "in_op i f a = Inr b" and "later w (ac_world a)" and "\<And>t p v p' v'. f t p v = Inr (p', v') \<Longrightarrow> later v v'"
  shows "later w (ac_world b)"
  using assms by (auto simp: in_op_def on_port_def res_simps split: if_splits intro: later_trans)

lemma out_op_later:
  assumes "out_op i f a = Inr b" and "later w (ac_world a)" and "\<And>t p v p' v'. f t p v = Inr (p', v') \<Longrightarrow> later v v'"
  shows "later w (ac_world b)"
  using assms by (auto simp: out_op_def on_oport_def res_simps split: if_splits intro: later_trans)

lemma in_front_later [later]: "in_front i a = Inr (x, b) \<Longrightarrow> later w (ac_world a) \<Longrightarrow> later w (ac_world b)"
  by (auto simp: in_front_def in_port_def res_simps split: if_splits dest!: iq_front_later intro: later_trans)

lemma out_front_world: "out_front i a = Inr (x, b) \<Longrightarrow> ac_world b = ac_world a"
  by (auto simp: out_front_def out_port_def res_simps split: if_splits)

lemma out_store_world: "out_store i x a = Inr b \<Longrightarrow> ac_world b = ac_world a"
  by (auto simp: out_store_def out_port_def split: if_splits)

lemma update_input_avail_later [later]:
  "update_input_avail i a = Inr b \<Longrightarrow> later w (ac_world a) \<Longrightarrow> later w (ac_world b)"
  by (auto simp: update_input_avail_def res_simps Let_def elim!: in_op_later dest: iq_has_later)

lemma mark_done_later [later]:
  assumes "mark_done a = Inr b" and "later w (ac_world a)"
  shows "later w (ac_world b)"
proof (cases "ac_state a = BLOCK_STATE_DONE")
  case True
  with assms show ?thesis by (simp add: mark_done_def)
next
  case False
  have fl: "flush_output i x = Inr y \<Longrightarrow> later w (ac_world x) \<Longrightarrow> later w (ac_world y)" for i x y
    by (auto simp: flush_output_def res_simps split: if_splits dest!: out_front_world elim!: out_op_later dest: oq_pop_later)
  have cl: "clear_input i x = Inr y \<Longrightarrow> later w (ac_world x) \<Longrightarrow> later w (ac_world y)" for i x y
    by (auto simp: clear_input_def res_simps)
  have po: "ac_world (fold (\<lambda>i. post (e i)) is x) = ac_world x" for e "is" x
    by (induction "is" arbitrary: x) simp_all
  from assms(1) False obtain c q v oq v2 e
    where c: "foldE flush_output [0..<ac_num_outputs (inactive a)] (inactive a) = Inr c"
      "iq_flush_all (ac_inq c) (ac_world c) = Inr (q, v)" "oq_flush_all (ac_outq c) v = (oq, v2)"
    and e: "foldE clear_input [0..<ac_num_inputs c] (c\<lparr>ac_interruptible := False,
        ac_state := BLOCK_STATE_DONE, ac_token_pool := {}, ac_inq := q, ac_outq := oq, ac_world := v2\<rparr>) = Inr e"
    and b: "b = fold (\<lambda>o'. post (Downstream o' InputCheckMessage)) [0..<ac_num_outputs e]
        (fold (\<lambda>i. post (Upstream i OutputCheckMessage)) [0..<ac_num_inputs c] e)"
    by (rule mark_done_stages)
  have "later w (ac_world (inactive a))"
    using assms(2) by (auto simp: inactive_def now_of_def time_now_def later_def)
  with c(1) have "later w (ac_world c)" by (rule foldE_later) (rule fl)
  then have l: "later w v2"
    using iq_flush_all_later [OF c(2)] oq_flush_all_later [OF c(3)] by (blast intro: later_trans)
  have "later w (ac_world e)" by (rule foldE_later [OF e]) (simp add: l, rule cl)
  then show ?thesis by (simp add: b po)
qed

lemma input_fail_later [later]: "input_fail en i a = Inr b \<Longrightarrow> later w (ac_world a) \<Longrightarrow> later w (ac_world b)"
  by (auto simp: input_fail_def in_port_def at_def res_simps split: if_splits
      elim!: in_op_later mark_done_later dest: iq_accumulate_later iq_fail_later)

lemma output_fail_later [later]: "output_fail i a = Inr b \<Longrightarrow> later w (ac_world a) \<Longrightarrow> later w (ac_world b)"
  by (auto simp: output_fail_def at_def res_simps split: if_splits dest!: out_front_world
      elim!: out_op_later dest: oq_fail_later)

lemma actor_produce_world: "actor_produce i n a = Inr b \<Longrightarrow> ac_world b = ac_world a"
  by (auto simp: actor_produce_def res_simps split: if_splits dest!: out_front_world out_store_world)

lemma actor_consume_world: "actor_consume i n a = Inr b \<Longrightarrow> ac_world b = ac_world a"
  by (auto simp: actor_consume_def res_simps)

lemma api_step_later [later]:
  assumes "api_step en s a = Inr b" and "later w (ac_world a)"
  shows "later w (ac_world b)"
proof (cases s)
  case (Consume_All n)
  with assms show ?thesis
    by (auto simp: api_consume_all_def elim!: foldE_later dest: actor_consume_world)
next
  case (Produce_All n)
  with assms show ?thesis
    by (auto simp: api_produce_all_def elim!: foldE_later dest: actor_produce_world)
qed (use assms in \<open>auto simp: api_consume_def api_produce_def get_output_buffer_def pop_output_buffer_def
    post_output_buffer_def post_output_tag_def post_output_msg_def pop_input_msg_def post_input_tag_def
    post_input_msg_def post_input_buffer_def out_port_def at_def res_simps Let_def split: if_splits
    dest!: actor_consume_world actor_produce_world out_front_world out_store_world elim: later\<close>)

lemma propagate_world: "propagate_tags i ts a = Inr b \<Longrightarrow> ac_world b = ac_world a"
  unfolding propagate_tags_def
  by (erule foldE_invariant [where P = "\<lambda>b. ac_world b = ac_world a", rotated 2])
    (auto elim!: foldE_invariant [where P = "\<lambda>b. ac_world b = ac_world a", rotated 2]
      simp: res_simps post_output_tag_def get_consumed_def get_produced_def)


lemma sort_tags_world: "sort_tags en i a = Inr b \<Longrightarrow> ac_world b = ac_world a"
  by (auto simp: sort_tags_def res_simps split: if_splits)

lemma trim_world: "trim_msgs i a = Inr b \<Longrightarrow> ac_world b = ac_world a" "trim_tags i a = Inr b \<Longrightarrow> ac_world b = ac_world a"
  by (auto simp: trim_msgs_def trim_tags_def res_simps Let_def split: if_splits dest!: propagate_world)

lemma trim_buffs_later [later]: "trim_buffs i a = Inr b \<Longrightarrow> later w (ac_world a) \<Longrightarrow> later w (ac_world b)"
  by (auto simp: trim_buffs_def res_simps split: if_splits elim!: in_op_later dest: iq_consume_later)

lemma prep_input_later: "prep_input en i (a, m) = Inr (b, m') \<Longrightarrow> later w (ac_world a) \<Longrightarrow> later w (ac_world b)"
  by (auto simp: prep_input_def res_simps Let_def split: if_splits dest!: sort_tags_world elim!: in_front_later)

lemma prep_output_world: "prep_output i a = Inr b \<Longrightarrow> ac_world b = ac_world a"
  by (auto simp: prep_output_def res_simps Let_def split: if_splits dest!: out_front_world)

lemma post_input_later [later]:
  assumes "post_input i a = Inr b" and "later w (ac_world a)"
  shows "later w (ac_world b)"
proof -
  obtain c d e f where "trim_msgs i a = Inr c" "trim_tags i c = Inr d" "trim_buffs i d = Inr e"
    "update_input_avail i e = Inr f" "ac_world b = ac_world f"
    using assms(1) by (auto simp: post_input_def res_simps)
  with assms(2) show ?thesis by (metis trim_world trim_buffs_later update_input_avail_later)
qed

lemma post_output_later [later]: "post_output i a = Inr b \<Longrightarrow> later w (ac_world a) \<Longrightarrow> later w (ac_world b)"
  by (auto simp: post_output_def res_simps Let_def split: if_splits dest!: out_front_world elim!: out_op_later
      dest: oq_consume_later)

lemma task_prep_later: "task_prep en a = Inr b \<Longrightarrow> later w (ac_world a) \<Longrightarrow> later w (ac_world b)"
proof -
  assume b: "task_prep en a = Inr b" and a: "later w (ac_world a)"
  obtain c n where p: "foldE (prep_input en) [0..<ac_num_inputs a] (a\<lparr>ac_in_min := size_max, ac_in_max := 0\<rparr>, 0) = Inr (c, n)"
    and o: "foldE prep_output [0..<ac_num_outputs c] (c\<lparr>ac_out_min := size_max, ac_out_max := 0\<rparr>) = Inr b"
    using b by (auto simp: task_prep_def res_simps Let_def)
  have "later w (ac_world (fst (c, n)))"
    by (rule foldE_invariant [where P = "\<lambda>s. later w (ac_world (fst s))", OF _ _ p])
      (use a in \<open>auto intro: prep_input_later\<close>)
  then show ?thesis by (intro foldE_later [OF o]) (auto dest: prep_output_world)
qed

lemma task_work_later: "task_work en a = Inr b \<Longrightarrow> later w (ac_world a) \<Longrightarrow> later w (ac_world b)"
  by (auto simp: task_work_def api_run_def elim!: foldE_later intro: api_step_later)

lemma task_post_later: "task_post en a = Inr b \<Longrightarrow> later w (ac_world a) \<Longrightarrow> later w (ac_world b)"
proof -
  assume b: "task_post en a = Inr b" and a: "later w (ac_world a)"
  obtain c d where c: "foldE post_input [0..<ac_num_inputs a] a = Inr c"
    "foldE post_output [0..<ac_num_outputs c] c = Inr d" "ac_world b = ac_world d"
    using b by (auto simp: task_post_def res_simps)
  from c(1) a have "later w (ac_world c)" by (rule foldE_later) (rule post_input_later)
  with c(2) have "later w (ac_world d)" by (rule foldE_later) (rule post_output_later)
  with c(3) show ?thesis by simp
qed

section \<open>Properties\<close>

text \<open>The time of the next reading of the clock.\<close>

definition clock :: "actor \<Rightarrow> int" where
  "clock a = w_clock (ac_world a) (w_reads (ac_world a))"

lemma clock_later: "monotone_clock (ac_world a) \<Longrightarrow> later (ac_world a) (ac_world b) \<Longrightarrow>
    clock a \<le> clock b \<and> monotone_clock (ac_world b)"
  by (simp add: clock_def later_def monotone_clock_def)

lemma read_clock:
  assumes "now_of a = (t, b)" and "monotone_clock (ac_world a)"
  shows "t = clock a \<and> clock a \<le> clock b \<and> monotone_clock (ac_world b)"
  using assms by (auto simp: now_of_def time_now_def clock_def monotone_clock_def)

lemma timer_eq:
  "now_of a = (t, b) \<Longrightarrow> new_timer a = (\<lparr>tm_start = t, tm_done = False\<rparr>, b)"
  "now_of a = (t, b) \<Longrightarrow> timer_done tm n a = (tm\<lparr>tm_done := True\<rparr>, n + (t - tm_start tm), b)"
  "now_of a = (t, b) \<Longrightarrow> \<not> tm_done tm \<Longrightarrow> delete_timer tm n a = (n + (t - tm_start tm), b)"
  "tm_done tm \<Longrightarrow> delete_timer tm n a = (n, a)"
  by (simp_all add: new_timer_def timer_done_def delete_timer_def)

lemma world_allowed: "now_of a = (t, b) \<Longrightarrow> work_allowed en b = work_allowed en a"
proof -
  assume "now_of a = (t, b)"
  then obtain w where "b = a\<lparr>ac_world := w\<rparr>" by (auto simp: now_of_def time_now_def)
  then show ?thesis by (simp add: work_allowed_def)
qed

text \<open>What a stage adds to the totals, of a timer of the preparation that is done.\<close>

lemma timed_post_adds:
  assumes "timed_post en ta tt a = Inr (tt', b)" and "tm_done ta" and "monotone_clock (ac_world a)"
  shows "\<exists>n. tt' = tt\<lparr>total_post := total_post tt + n\<rparr> \<and> 0 \<le> n \<and> clock a + n \<le> clock b"
proof -
  obtain t1 a1 where n1: "now_of a = (t1, a1)" by fastforce
  obtain t2 a2 where n2: "now_of (a1\<lparr>st_time_last_work := t1\<rparr>) = (t2, a2)" by fastforce
  obtain a3 where q: "task_post en a2 = Inr a3"
    using assms(1) by (cases "task_post en a2") (simp_all add: timed_post_def n1 timer_eq(1) [OF n2])
  obtain t4 a4 where n4: "now_of a3 = (t4, a4)" by fastforce
  have r: "tt' = tt\<lparr>total_post := total_post tt + (t4 - t2)\<rparr>" "b = a4"
    using assms(1,2) by (auto simp: timed_post_def n1 q timer_eq(1) [OF n2] timer_eq(3) [OF n4] timer_eq(4))
  have c: "t2 = clock a1" "clock a \<le> clock a1" "clock a1 \<le> clock a2" "monotone_clock (ac_world a2)"
    using read_clock [OF n1 assms(3)] read_clock [OF n2] by (simp_all add: clock_def)
  have d: "clock a2 \<le> clock a3" "monotone_clock (ac_world a3)"
    using clock_later [OF c(4) task_post_later [OF q later_refl]] by simp_all
  from r c d read_clock [OF n4 d(2)] show ?thesis by (intro exI [of _ "t4 - t2"]) simp
qed

lemma timed_work_adds:
  assumes "timed_work en ta tt a = Inr (tt', b)" and "tm_done ta" and "monotone_clock (ac_world a)"
  shows "\<exists>m n. tt' = tt\<lparr>total_work := total_work tt + m, total_post := total_post tt + n\<rparr>
    \<and> 0 \<le> m \<and> 0 \<le> n \<and> clock a + m + n \<le> clock b"
proof -
  obtain t1 a1 where n1: "now_of (a\<lparr>st_work_count := sz_add (st_work_count a) 1\<rparr>) = (t1, a1)" by fastforce
  obtain a2 where w: "task_work en a1 = Inr a2"
    using assms(1) by (cases "task_work en a1") (simp_all add: timed_work_def timer_eq(1) [OF n1] del: One_nat_def)
  obtain t3 a3 where n3: "now_of a2 = (t3, a3)" by fastforce
  have r: "timed_post en ta (tt\<lparr>total_work := total_work tt + (t3 - t1)\<rparr>) a3 = Inr (tt', b)"
    using assms(1) by (simp add: timed_work_def w timer_eq(1) [OF n1] timer_eq(3) [OF n3] del: One_nat_def)
  have c: "t1 = clock a" "clock a \<le> clock a1" "monotone_clock (ac_world a1)"
    using read_clock [OF n1] assms(3) by (simp_all add: clock_def)
  have d: "clock a1 \<le> clock a2" "monotone_clock (ac_world a2)"
    using clock_later [OF c(3) task_work_later [OF w later_refl]] by simp_all
  note e = read_clock [OF n3 d(2)]
  obtain n where n: "tt' = tt\<lparr>total_work := total_work tt + (t3 - t1), total_post := total_post tt + n\<rparr>"
    "0 \<le> n" "clock a3 + n \<le> clock b"
    using timed_post_adds [OF r assms(2)] e by auto
  from n c d e show ?thesis by (intro exI [of _ "t3 - t1"] exI [of _ n]) simp
qed

lemma timed_idle:
  assumes "\<not> work_allowed en a" and "now_of a = (t0, a0)" and "now_of a0 = (t1, a1)"
  shows "timed_task_main en tt a = Inr (tt\<lparr>total_prep := total_prep tt + (t1 - t0)\<rparr>, a1)"
  using assms(1) world_allowed [OF assms(2), of en]
  by (simp add: timed_task_main_def timer_eq(1) [OF assms(2)] timer_eq(3) [OF assms(3)])

text \<open>The times of a task are accounted for once: every total only grows, and together they grow by no
  more than the time that the task took; when no work is allowed only the preparation is counted.\<close>

theorem task_times_add_up:
  assumes "monotone_clock (ac_world a)" and "timed_task_main en tt a = Inr (tt', b)"
  shows "total_prep tt \<le> total_prep tt' \<and> total_work tt \<le> total_work tt' \<and> total_post tt \<le> total_post tt'
    \<and> (total_prep tt' - total_prep tt) + (total_work tt' - total_work tt) + (total_post tt' - total_post tt)
      \<le> clock b - clock a
    \<and> (\<not> work_allowed en a \<longrightarrow> total_work tt' = total_work tt \<and> total_post tt' = total_post tt)"
proof -
  obtain t0 a0 where n0: "now_of a = (t0, a0)" by fastforce
  note c0 = read_clock [OF n0 assms(1)]
  show ?thesis
  proof (cases "work_allowed en a")
    case False
    obtain t1 a1 where n1: "now_of a0 = (t1, a1)" by fastforce
    from assms(2) timed_idle [OF False n0 n1] have "tt' = tt\<lparr>total_prep := total_prep tt + (t1 - t0)\<rparr>" "b = a1"
      by simp_all
    with False c0 read_clock [OF n1] show ?thesis by simp
  next
    case True
    have al: "work_allowed en a0" using True world_allowed [OF n0, of en] by simp
    obtain a1 where p: "task_prep en a0 = Inr a1"
      using assms(2) al by (cases "task_prep en a0") (simp_all add: timed_task_main_def timer_eq(1) [OF n0])
    obtain t2 a2 where n2: "now_of a1 = (t2, a2)" by fastforce
    have r: "timed_work en \<lparr>tm_start = t0, tm_done = True\<rparr> (tt\<lparr>total_prep := total_prep tt + (t2 - t0)\<rparr>) a2 = Inr (tt', b)"
      using assms(2) al by (simp add: timed_task_main_def p timer_eq(1) [OF n0] timer_eq(2) [OF n2])
    have c1: "clock a0 \<le> clock a1" "monotone_clock (ac_world a1)"
      using clock_later [OF _ task_prep_later [OF p later_refl]] c0 by simp_all
    note c2 = read_clock [OF n2 c1(2)]
    from timed_work_adds [OF r] c0 c1 c2 True show ?thesis by auto
  qed
qed

lemma task_times_add_up_witness:
  "\<exists>tt' b. timed_task_main sample_env \<lparr>total_prep = 7, total_work = 0, total_post = 0\<rparr> (new_actor ''block'' 0 1 sample_world)
       = Inr (tt', b) \<and> 7 \<le> total_prep tt' \<and> total_prep tt' - 7 \<le> clock b - clock (new_actor ''block'' 0 1 sample_world)
     \<and> total_work tt' = 0"
proof -
  let ?a = "new_actor ''block'' 0 1 sample_world" and ?tt = "\<lparr>total_prep = 7, total_work = 0, total_post = 0\<rparr>"
  have n: "\<not> work_allowed sample_env ?a"
    by (simp add: work_allowed_def new_actor_def)
  obtain t0 a0 t1 a1 where "now_of ?a = (t0, a0)" "now_of a0 = (t1, a1)" by fastforce
  note r = timed_idle [OF n this, of ?tt]
  have "monotone_clock (ac_world ?a)" by (simp add: new_actor_def)
  from task_times_add_up [OF this r] n r show ?thesis by auto
qed

end
